(* ===== verification/Lws_Prelude.thy ===== *)
theory Lws_Prelude
  imports Main "HOL-Library.Word"
begin

text \<open>
  Shared vocabulary of the development: the C integer types as words, the running of a
  byte-at-a-time state machine over a buffer (the shape of every incremental parser of the
  library: \<^verbatim>\<open>lws_check_utf8\<close>, \<^verbatim>\<open>sha1_loop\<close>, \<^verbatim>\<open>lws_parse\<close>, \<^verbatim>\<open>lws_rx_sm\<close>), the contract of such
  a machine as a locale, and generic facts on lists and words.
\<close>

unbundle bit_operations_syntax

type_synonym byte = "8 word"
type_synonym u16 = "16 word"
type_synonym u32 = "32 word"
type_synonym u64 = "64 word"

named_theorems byte_simps "facts that turn byte comparisons into natural number arithmetic"

subsection \<open>Running a machine over a buffer\<close>

text \<open>
  A step takes the state and one byte and either fails with an error or gives the next
  state; a caller feeds a buffer byte by byte and stops at the first failure.
\<close>

fun run_bytes :: "('s \<Rightarrow> 'c \<Rightarrow> 'e + 's) \<Rightarrow> 's \<Rightarrow> 'c list \<Rightarrow> 'e + 's" where
  "run_bytes f s [] = Inr s"
| "run_bytes f s (c # cs) =
     (case f s c of Inl e \<Rightarrow> Inl e | Inr s' \<Rightarrow> run_bytes f s' cs)"

lemma run_bytes_append:
  "run_bytes f s (xs @ ys) =
     (case run_bytes f s xs of Inl e \<Rightarrow> Inl e | Inr s' \<Rightarrow> run_bytes f s' ys)"
  by (induction xs arbitrary: s) (auto split: sum.splits)

lemma run_bytes_append_Inr:
  "run_bytes f s xs = Inr s' \<Longrightarrow> run_bytes f s (xs @ ys) = run_bytes f s' ys"
  by (simp add: run_bytes_append)

locale byte_machine =
  fixes step :: "'s \<Rightarrow> 'c \<Rightarrow> 'e + 's"
    and inv :: "'s \<Rightarrow> bool"
  assumes step_inv: "inv s \<Longrightarrow> step s c = Inr s' \<Longrightarrow> inv s'"
begin

lemma run_inv: "inv s \<Longrightarrow> run_bytes step s cs = Inr s' \<Longrightarrow> inv s'"
  by (induction cs arbitrary: s) (auto split: sum.splits intro: step_inv)

lemma run_split:
  assumes "run_bytes step s (xs @ ys) = Inr s''"
  obtains s' where "run_bytes step s xs = Inr s'" and "run_bytes step s' ys = Inr s''"
  using assms by (auto simp: run_bytes_append split: sum.splits)

end

subsection \<open>Bytes as numbers\<close>

lemma byte_lt_iff [byte_simps]: "(a :: byte) < b \<longleftrightarrow> unat a < unat b"
  by (rule word_less_nat_alt)

lemma byte_le_iff [byte_simps]: "(a :: byte) \<le> b \<longleftrightarrow> unat a \<le> unat b"
  by (rule word_le_nat_alt)

lemma byte_eq_iff [byte_simps]: "(a :: byte) = b \<longleftrightarrow> unat a = unat b"
  by (simp add: word_unat_eq_iff)

lemma unat_byte_lt [simp]: "unat (b :: byte) < 256"
  using unsigned_less [of b] by simp

lemma unat_of_nat_byte [simp]: "n < 256 \<Longrightarrow> unat (of_nat n :: byte) = n"
  by (simp add: unat_of_nat)

lemma byte_of_unat: "n < 256 \<Longrightarrow> unat b = n \<longleftrightarrow> b = (of_nat n :: byte)"
  by (auto simp: word_unat_eq_iff)

subsection \<open>Bit fields\<close>

lemma unat_drop_bit [simp]: "unat (drop_bit n (a :: 'a :: len word)) = unat a div 2 ^ n"
  by (simp only: unsigned_drop_bit_eq) (simp add: drop_bit_eq_div take_bit_nat_eq_self unsigned_less)

lemma unat_push_bit: "unat (push_bit n (a :: 'a :: len word)) = unat a * 2 ^ n mod 2 ^ LENGTH('a)"
  by (simp only: unsigned_push_bit_eq) (simp add: push_bit_eq_mult take_bit_eq_mod)

lemma unat_take_bit: "unat (take_bit n (a :: 'a :: len word)) = unat a mod 2 ^ n"
  by (simp only: unsigned_take_bit_eq) (simp add: take_bit_eq_mod)

lemma unat_and_mask: "unat (a AND mask n) = unat (a :: 'a :: len word) mod 2 ^ n"
  by (simp only: unat_take_bit flip: take_bit_eq_mask)

text \<open>Joining two bit fields.\<close>

lemma or_join: "b < 2 ^ n \<Longrightarrow> (push_bit n a) OR b = push_bit n a + (b :: nat)"
proof (rule disjunctive_add [symmetric])
  fix m assume "b < 2 ^ n"
  then have "take_bit n b = b" by (simp add: take_bit_nat_eq_self)
  then have "bit b m \<Longrightarrow> m < n" by (metis bit_take_bit_iff)
  then show "\<not> bit (push_bit n a) m \<or> \<not> bit b m"
    by (auto simp: bit_push_bit_iff)
qed

lemma unat_or_join:
  assumes "unat b < 2 ^ n" and "unat a * 2 ^ n < 2 ^ LENGTH('a)"
  shows "unat (push_bit n a OR b) = unat a * 2 ^ n + unat (b :: 'a :: len word)"
proof -
  have "unat (push_bit n a) = push_bit n (unat a)"
    by (subst unat_push_bit) (use assms(2) in \<open>simp add: push_bit_eq_mult\<close>)
  then have "unat (push_bit n a OR b) = push_bit n (unat a) OR unat b"
    by (simp only: unsigned_or_eq)
  also have "\<dots> = push_bit n (unat a) + unat b" by (rule or_join) (rule assms(1))
  finally show ?thesis by (simp only: push_bit_eq_mult)
qed

lemma unat_and_mask_byte:
  "unat (a AND 3) = unat a mod 4" "unat (a AND 0x0f) = unat a mod 16" "unat (a AND 0x3f) = unat a mod 64"
  "unat (a AND 0x7f) = unat a mod 128" for a :: byte
  using unat_and_mask [of a 2] unat_and_mask [of a 4] unat_and_mask [of a 6] unat_and_mask [of a 7]
  by (simp_all add: mask_eq_exp_minus_1)
lemma unat_and_high_byte:
  "drop_bit 4 (a AND 0xf0) = drop_bit 4 a" "drop_bit 6 (a AND 0xc0) = drop_bit 6 a" for a :: byte
  by (rule bit_word_eqI; auto simp: bit_simps numeral_eq_Suc less_Suc_eq dest: bit_imp_le_length)+

subsection \<open>Text\<close>

text \<open>C string literals as the bytes they hold; a C string argument ends at its first NUL.\<close>

definition bytes_of :: "string \<Rightarrow> byte list" where
  "bytes_of s = map of_char s"

definition c_str :: "byte list \<Rightarrow> byte list" where
  "c_str bs = takeWhile (\<lambda>b. b \<noteq> 0) bs"

lemma c_str_id [simp]: "0 \<notin> set bs \<Longrightarrow> c_str bs = bs"
  unfolding c_str_def by (induction bs) auto

lemma c_str_no_nul: "0 \<notin> set (c_str bs)"
  unfolding c_str_def using set_takeWhileD by fastforce

subsection \<open>Encoders and their decoders\<close>

text \<open>
  The contract between an encoder that may refuse (too little room) and the decoder of its
  format: what was encoded is read back. It makes the encoder injective, so a peer can never
  be given two meanings for the same bytes.
\<close>

locale codec =
  fixes enc :: "'a \<Rightarrow> 'b option"
    and dec :: "'b \<Rightarrow> 'a option"
  assumes dec_enc: "enc x = Some y \<Longrightarrow> dec y = Some x"
begin

lemma enc_inject: "enc x = Some y \<Longrightarrow> enc x' = Some y \<Longrightarrow> x = x'"
  using dec_enc [of x y] dec_enc [of x' y] by simp

lemma dec_onto: "enc x = Some y \<Longrightarrow> \<exists>y. dec y = Some x"
  using dec_enc by blast

end


subsection \<open>Integers as bytes, the most significant first\<close>

lemma bit_high:
  assumes "bit (x :: 'a :: len word) i" and "unat x < 2 ^ k"
  shows "i < k"
proof (rule ccontr)
  assume "\<not> i < k"
  then have "unat x < 2 ^ i" using assms(2) power_increasing [of k i "2 :: nat"] by linarith
  then have "\<not> bit (unat x) i" by (simp add: bit_iff_odd)
  then show False using assms(1) by (simp add: bit_unsigned_iff)
qed

lemma byte_low7: "(b :: byte) AND 0x7f = take_bit 7 b"
  by (simp add: take_bit_eq_mask mask_eq_exp_minus_1)

lemma byte_high1: "(b :: byte) AND 0x80 = push_bit 7 (drop_bit 7 b)"
proof -
  have "(b :: byte) AND push_bit 7 1 = push_bit 7 (drop_bit 7 b)"
  proof (rule bit_word_eqI)
    fix n assume "n < LENGTH(8)"
    then have "n - 7 = 0" by simp
    then show "bit (b AND push_bit 7 1) n = bit (push_bit 7 (drop_bit 7 b)) n"
      by (simp only: bit_and_iff bit_push_bit_iff bit_drop_bit_eq bit_1_iff) auto
  qed
  then show ?thesis by simp
qed

lemma high_part_step:
  "push_bit (k + 8) (drop_bit (k + 8) x) OR push_bit k (ucast (ucast (drop_bit k x) :: byte))
     = push_bit k (drop_bit k (x :: u64))"
proof (rule bit_word_eqI)
  fix n assume "n < LENGTH(64)"
  then show "bit (push_bit (k + 8) (drop_bit (k + 8) x) OR
      push_bit k (ucast (ucast (drop_bit k x) :: byte))) n = bit (push_bit k (drop_bit k x)) n"
    by (cases "k + 8 \<le> n") (auto simp: bit_simps)
qed

lemma len16_bits:
  assumes "unat (len :: u64) < 65536"
  shows "push_bit 8 (ucast (ucast (drop_bit 8 len) :: byte)) OR push_bit 0 (ucast (ucast len :: byte)) = len"
proof -
  have high: "i < 16" if "bit len i" for i using bit_high [OF that, of 16] assms by simp
  have "push_bit 8 (ucast (ucast (drop_bit 8 len) :: byte)) = push_bit (0 + 8) (drop_bit (0 + 8) len)"
    by (intro bit_word_eqI) (auto simp: bit_simps dest: high)
  then show ?thesis using high_part_step [of 0 len] by simp
qed

lemma len64_bits:
  assumes "unat (len :: u64) < 2 ^ 63"
  shows "(((((((push_bit 56 (ucast ((ucast (drop_bit 56 len) AND 0x7f) :: byte)) OR
    push_bit 48 (ucast (ucast (drop_bit 48 len) :: byte))) OR
    push_bit 40 (ucast (ucast (drop_bit 40 len) :: byte))) OR
    push_bit 32 (ucast (ucast (drop_bit 32 len) :: byte))) OR
    push_bit 24 (ucast (ucast (drop_bit 24 len) :: byte))) OR
    push_bit 16 (ucast (ucast (drop_bit 16 len) :: byte))) OR
    push_bit 8 (ucast (ucast (drop_bit 8 len) :: byte))) OR
    push_bit 0 (ucast (ucast len :: byte))) = len"
proof -
  have high: "i < 63" if "bit len i" for i using bit_high [OF that assms] .
  have "push_bit 56 (ucast ((ucast (drop_bit 56 len) AND 0x7f) :: byte)) =
      push_bit (48 + 8) (drop_bit (48 + 8) len)"
    unfolding byte_low7 by (intro bit_word_eqI) (auto simp: bit_simps dest: high)
  then show ?thesis
    using high_part_step [of 48 len] high_part_step [of 40 len] high_part_step [of 32 len]
      high_part_step [of 24 len] high_part_step [of 16 len] high_part_step [of 8 len]
      high_part_step [of 0 len]
    by simp
qed

lemma len7_bits:
  assumes "unat (len :: u64) < 128"
  shows "(ucast len OR 0x80 :: byte) AND 0x80 \<noteq> 0" and "(ucast len OR 0x80 :: byte) AND 0x7f = ucast len"
    and "(ucast len :: byte) AND 0x80 = 0" and "(ucast len :: byte) AND 0x7f = ucast len"
    and "ucast (ucast len :: byte) = len" and "unat (ucast len :: byte) = unat len"
proof -
  have high: "i < 7" if "bit len i" for i using bit_high [OF that, of 7] assms by simp
  have ex: "(ucast len OR 0x80 :: byte) AND 0x80 = 0x80" by (simp add: bit.conj_disj_distrib2)
  show "(ucast len OR 0x80 :: byte) AND 0x80 \<noteq> 0" unfolding ex by simp
  show low: "(ucast len :: byte) AND 0x7f = ucast len"
    unfolding byte_low7 by (intro bit_word_eqI) (auto simp: bit_simps dest: high)
  show "(ucast len OR 0x80 :: byte) AND 0x7f = ucast len"
    using low by (simp add: bit.conj_disj_distrib2)
  show "(ucast len :: byte) AND 0x80 = 0"
    unfolding byte_high1 by (intro bit_word_eqI) (auto simp: bit_simps dest: high)
  show "ucast (ucast len :: byte) = len"
    by (intro bit_word_eqI) (auto simp: bit_simps dest: high)
  show "unat (ucast len :: byte) = unat len"
    using assms by (simp add: unsigned_ucast_eq take_bit_nat_eq_self)
qed

subsection \<open>Results that exist\<close>

text \<open>
  Code whose faults are \<open>None\<close>: a checked condition, and the statement that a computation
  has a result with a property.
\<close>

definition assert_opt :: "bool \<Rightarrow> unit option" where
  "assert_opt b = (if b then Some () else None)"

definition returns :: "'a option \<Rightarrow> ('a \<Rightarrow> bool) \<Rightarrow> bool" where
  "returns m Q \<longleftrightarrow> (\<exists>x. m = Some x \<and> Q x)"

lemma returns_simps [simp]:
  "returns (Some x) Q \<longleftrightarrow> Q x"
  "returns None Q \<longleftrightarrow> False"
  "returns (Option.bind m f) Q \<longleftrightarrow> returns m (\<lambda>x. returns (f x) Q)"
  by (cases m; auto simp: returns_def)+

lemma returns_mono: "returns m Q \<Longrightarrow> (\<And>x. Q x \<Longrightarrow> R x) \<Longrightarrow> returns m R"
  by (auto simp: returns_def)

lemma returns_assert [simp]: "returns (assert_opt b) Q \<longleftrightarrow> b \<and> Q ()"
  by (simp add: assert_opt_def)

end
