(* ===== verification/Http_Lextable.thy ===== *)
theory Http_Lextable
  imports Lws_Prelude
begin

text \<open>
  The automaton that recognises header names, \<^verbatim>\<open>parsers.c\<close> and the generated \<^verbatim>\<open>lextable.h\<close>: the
  table byte by byte (in rows of 64), the decoder step, and the proof that the table recognises
  exactly the names of \<^verbatim>\<open>lextable-strings.h\<close>, in any case, each with its own index.
\<close>

subsection \<open>The table\<close>

definition lextable_0 :: "byte list" where
  "lextable_0 =
    [0x67, 0x40, 0, 0x70, 0x42, 0, 0x6f, 0x51, 0, 0x68, 0x5d, 0, 0x63, 0x66, 0, 0x75, 0x81, 0, 0x73,
     0x97, 0, 0x0d, 0xd0, 0, 0x61, 0x28, 1, 0x69, 0x67, 1, 0x64, 0x10, 2, 0x72, 0x19, 2, 0x3a, 0x4a,
     2, 0x65, 0xd6, 2, 0x66, 0xf2, 2, 0x6c, 0x14, 3, 0x6d, 0x37, 3, 0x74, 0xa6, 3, 0x76, 0xc1, 3,
     0x77, 0xce, 3, 0x78, 0xf5, 3, 8]"

definition lextable_1 :: "byte list" where
  "lextable_1 =
    [0xe5, 0xf4, 0xa0, 0, 0, 0x6f, 0x0d, 0, 0x72, 0x8c, 1, 0x61, 0xce, 3, 0x75, 0xd0, 3, 8, 0xf3,
     0xf4, 0xa0, 0, 1, 0x70, 7, 0, 0x72, 0x48, 0, 8, 0xf4, 0xe9, 0xef, 0xee, 0xf3, 0xa0, 0, 2, 0x6f,
     7, 0, 0x74, 0xb6, 0, 8, 0xf3, 0xf4, 0xba, 0, 3, 0x6f, 7, 0, 0x61, 0x6c, 1, 8, 0x6e, 7, 0, 0x6f,
     0x81, 1, 8]"

definition lextable_2 :: "byte list" where
  "lextable_2 =
    [0x6e, 7, 0, 0x74, 0x80, 1, 8, 0xe5, 0xe3, 0xf4, 0xe9, 0xef, 0xee, 0xba, 0, 4, 0x70, 0x0a, 0,
     0x73, 0x59, 3, 0x72, 0x91, 3, 8, 0xe7, 0xf2, 0xe1, 0xe4, 0xe5, 0xba, 0, 5, 0xe9, 0xe7, 0xe9,
     0xee, 0xba, 0, 6, 0x65, 7, 0, 0x74, 0x13, 3, 8, 0x63, 0x0a, 0, 0x72, 0xfc, 2, 0x74, 0xff, 2, 8,
     0xad, 0xf7, 0xe5, 0xe2, 0xf3, 0xef]"

definition lextable_3 :: "byte list" where
  "lextable_3 =
    [0xe3, 0xeb, 0xe5, 0xf4, 0xad, 0x64, 0x19, 0, 0x65, 0x20, 0, 0x6b, 0x29, 0, 0x70, 0x38, 0, 0x61,
     0x3f, 0, 0x6e, 0x44, 0, 0x76, 0x86, 1, 0x6f, 0x8c, 1, 8, 0xf2, 0xe1, 0xe6, 0xf4, 0xba, 0, 7,
     0x8a, 0, 8, 0xf8, 0xf4, 0xe5, 0xee, 0xf3, 0xe9, 0xef, 0xee, 0xf3, 0xba, 0, 9, 0xe5, 0xf9, 0x31,
     0x0a, 0, 0x32, 0x0a, 0, 0x3a, 0x5f, 1, 8]"

definition lextable_4 :: "byte list" where
  "lextable_4 =
    [0xba, 0, 0x0a, 0xba, 0, 0x0b, 0xf2, 0xef, 0xf4, 0xef, 0xe3, 0xef, 0xec, 0xba, 0, 0x0c, 0xe3,
     0xe3, 0xe5, 0xf0, 0xf4, 0xba, 0, 0x0d, 0xef, 0xee, 0xe3, 0xe5, 0xba, 0, 0x0e, 0xf4, 0xf0, 0x2f,
     7, 0, 0x32, 0x10, 0, 8, 0xb1, 0xae, 0x31, 7, 0, 0x30, 0x0f, 3, 8, 0xa0, 0, 0x0f, 0xad, 0xf3,
     0xe5, 0xf4, 0xf4, 0xe9, 0xee, 0xe7, 0xf3, 0xba, 0, 0x10]"

definition lextable_5 :: "byte list" where
  "lextable_5 =
    [0x63, 0x0d, 0, 0x75, 0xac, 0, 0x67, 0x7d, 1, 0x6c, 0x7e, 1, 8, 0xe3, 0xe5, 0x70, 7, 0, 0x73,
     0x0e, 0, 8, 0xf4, 0x3a, 7, 0, 0x2d, 0x59, 0, 8, 0, 0x11, 0xf3, 0xad, 0xe3, 0xef, 0xee, 0xf4,
     0xf2, 0xef, 0xec, 0xad, 0x72, 7, 0, 0x61, 0x48, 1, 8, 0xe5, 0xf1, 0xf5, 0xe5, 0xf3, 0xf4, 0xad,
     0xe8, 0xe5, 0xe1, 0xe4, 0xe5, 0xf2, 0xf3, 0xba]"

definition lextable_6 :: "byte list" where
  "lextable_6 =
    [0, 0x12, 0xe6, 0xad, 0x6d, 0x0d, 0, 0x6e, 0x20, 0, 0x72, 0x9e, 1, 0x75, 0xa2, 1, 8, 0x6f, 7, 0,
     0x61, 0x8e, 1, 8, 0xe4, 0xe9, 0xe6, 0xe9, 0xe5, 0xe4, 0xad, 0xf3, 0xe9, 0xee, 0xe3, 0xe5, 0xba,
     0, 0x13, 0xef, 0xee, 0xe5, 0xad, 0xed, 0xe1, 0xf4, 0xe3, 0xe8, 0xba, 0, 0x14, 0x65, 0x0d, 0,
     0x6c, 0x14, 0, 0x63, 0xeb, 0, 0x72, 0xf1, 0, 8]"

definition lextable_7 :: "byte list" where
  "lextable_7 =
    [0xee, 0xe3, 0xef, 0xe4, 0xe9, 0xee, 0xe7, 0xba, 0, 0x15, 0xe1, 0xee, 0xe7, 0xf5, 0xe1, 0xe7,
     0xe5, 0xba, 0, 0x16, 0x61, 7, 0, 0x6f, 0x9e, 1, 8, 0xe7, 0xed, 0xe1, 0xba, 0, 0x17, 0xe3, 0xe8,
     0xe5, 0xad, 0xe3, 0xef, 0xee, 0xf4, 0xf2, 0xef, 0xec, 0xba, 0, 0x18, 0xf4, 0xe8, 0xef, 0xf2,
     0xe9, 0xfa, 0xe1, 0xf4, 0xe9, 0xef, 0xee, 0xba, 0, 0x19, 0xeb, 0xe9, 0xe5]"

definition lextable_8 :: "byte list" where
  "lextable_8 =
    [0xba, 0, 0x1a, 0xe5, 0xee, 0xf4, 0xad, 0x6c, 0x10, 0, 0x74, 0x1e, 0, 0x64, 0xc0, 0, 0x65, 0xca,
     0, 0x72, 0xe3, 0, 8, 0x65, 0x0a, 0, 0x61, 0xca, 0, 0x6f, 0xd0, 0, 8, 0xee, 0xe7, 0xf4, 0xe8,
     0xba, 0, 0x1b, 0xf9, 0xf0, 0xe5, 0xba, 0, 0x1c, 0x61, 7, 0, 0x65, 0xf0, 1, 8, 0xf4, 0xe5, 0xba,
     0, 0x1d, 0x61, 7, 0, 0x65, 0x0a, 0]"

definition lextable_9 :: "byte list" where
  "lextable_9 =
    [8, 0xee, 0xe7, 0xe5, 0xba, 0, 0x1e, 0x66, 7, 0, 0x74, 0x5a, 1, 8, 0x65, 7, 0, 0x72, 0x4d, 1, 8,
     0xf2, 0xe5, 0xf2, 0xba, 0, 0x1f, 0, 0x20, 0xe5, 0xf2, 0xf3, 0xe9, 0xef, 0xee, 0xba, 0, 0x21,
     0xf2, 0xe9, 0xe7, 0xe9, 0xee, 0xba, 0, 0x22, 0x61, 0x0d, 0, 0x6d, 0x14, 0, 0x70, 0x18, 0, 0x73,
     0x1a, 0, 8, 0xf5, 0xf4, 0xe8, 0xef, 0xf2]"

definition lextable_10 :: "byte list" where
  "lextable_10 =
    [0xe9, 0xf4, 0xf9, 0, 0x23, 0xe5, 0xf4, 0xe8, 0xef, 0xe4, 0, 0x24, 0xe1, 0xf4, 0xe8, 0, 0x25,
     0x63, 7, 0, 0x74, 0x0a, 0, 8, 0xe8, 0xe5, 0xed, 0xe5, 0, 0x26, 0xe1, 0xf4, 0xf5, 0xf3, 0, 0x27,
     0xe8, 0xe1, 0xf2, 0xf3, 0xe5, 0xf4, 0xba, 0, 0x28, 0xe1, 0xee, 0xe7, 0xe5, 0xf3, 0xba, 0, 0x29,
     0xec, 0xec, 0xef, 0xf7, 0xad, 0xef, 0xf2, 0xe9, 0xe7, 0xe9, 0xee]"

definition lextable_11 :: "byte list" where
  "lextable_11 =
    [0xba, 0, 0x2a, 0xe5, 0xba, 0, 0x2b, 0xec, 0xef, 0xf7, 0xba, 0, 0x2c, 0xe9, 0xf3, 0xf0, 0xef,
     0xf3, 0xe9, 0xf4, 0xe9, 0xef, 0xee, 0xba, 0, 0x2d, 0xee, 0xe3, 0xef, 0xe4, 0xe9, 0xee, 0xe7,
     0xba, 0, 0x2e, 0xee, 0xe7, 0xf5, 0xe1, 0xe7, 0xe5, 0xba, 0, 0x2f, 0xe3, 0xe1, 0xf4, 0xe9, 0xef,
     0xee, 0xba, 0, 0x30, 0xe1, 0xee, 0xe7, 0xe5, 0xba, 0, 0x31, 0x74, 7, 0]"

definition lextable_12 :: "byte list" where
  "lextable_12 =
    [0x78, 9, 0, 8, 0xe1, 0xe7, 0xba, 0, 0x32, 0xf0, 0x65, 7, 0, 0x69, 9, 0, 8, 0xe3, 0xf4, 0xba, 0,
     0x33, 0xf2, 0xe5, 0xf3, 0xba, 0, 0x34, 0xf2, 0xef, 0xed, 0xba, 0, 0x35, 0xf4, 0xe3, 0xe8, 0xba,
     0, 0x36, 0xe1, 0xee, 0xe7, 0xe5, 0xba, 0, 0x37, 0xee, 0xed, 0xef, 0xe4, 0xe9, 0xe6, 0xe9, 0xe5,
     0xe4, 0xad, 0xf3, 0xe9, 0xee, 0xe3, 0xe5, 0xba, 0]"

definition lextable_13 :: "byte list" where
  "lextable_13 =
    [0x38, 0x61, 0x0a, 0, 0x69, 0x15, 0, 0x6f, 0x17, 0, 8, 0xf3, 0xf4, 0xad, 0xed, 0xef, 0xe4, 0xe9,
     0xe6, 0xe9, 0xe5, 0xe4, 0xba, 0, 0x39, 0xee, 0xeb, 0xba, 0, 0x3a, 0xe3, 0xe1, 0xf4, 0xe9, 0xef,
     0xee, 0xba, 0, 0x3b, 0xe1, 0xf8, 0xad, 0xe6, 0xef, 0xf2, 0xf7, 0xe1, 0xf2, 0xe4, 0xf3, 0xba, 0,
     0x3c, 0xf8, 0xf9, 0x2d, 7, 0, 0x20, 0xb5, 0, 8, 0xe1, 0xf5]"

definition lextable_14 :: "byte list" where
  "lextable_14 =
    [0xf4, 0xe8, 0x65, 7, 0, 0x6f, 0x0e, 0, 8, 0xee, 0xf4, 0xe9, 0xe3, 0xe1, 0xf4, 0xe5, 0xba, 0,
     0x3d, 0xf2, 0xe9, 0xfa, 0xe1, 0xf4, 0xe9, 0xef, 0xee, 0xba, 0, 0x3e, 0xe5, 0xf3, 0xe8, 0xba, 0,
     0x3f, 0xf2, 0xf9, 0xad, 0xe1, 0xe6, 0xf4, 0xe5, 0xf2, 0xba, 0, 0x40, 0xf6, 0xe5, 0xf2, 0xba, 0,
     0x41, 0xad, 0xe3, 0xef, 0xef, 0xeb, 0xe9, 0xe5, 0xba, 0, 0x42, 0xf2]"

definition lextable_15 :: "byte list" where
  "lextable_15 =
    [0xe9, 0xe3, 0xf4, 0xad, 0xf4, 0xf2, 0xe1, 0xee, 0xf3, 0xf0, 0xef, 0xf2, 0xf4, 0xad, 0xf3, 0xe5,
     0xe3, 0xf5, 0xf2, 0xe9, 0xf4, 0xf9, 0xba, 0, 0x43, 0xf2, 0xe1, 0xee, 0xf3, 0xe6, 0xe5, 0xf2,
     0xad, 0xe5, 0xee, 0xe3, 0xef, 0xe4, 0xe9, 0xee, 0xe7, 0xba, 0, 0x44, 0xe5, 0xf2, 0xad, 0xe1,
     0xe7, 0xe5, 0xee, 0xf4, 0xba, 0, 0x45, 0x61, 7, 0, 0x69, 9, 0, 8, 0xf2, 0xf9]"

definition lextable_16 :: "byte list" where
  "lextable_16 =
    [0xba, 0, 0x46, 0xe1, 0xba, 0, 0x47, 0xf7, 0xf7, 0xad, 0xe1, 0xf5, 0xf4, 0xe8, 0xe5, 0xee, 0xf4,
     0xe9, 0xe3, 0xe1, 0xf4, 0xe5, 0xba, 0, 0x48, 0xf4, 0xe3, 0xe8, 0, 0x49, 0xf4, 0, 0x4a, 0xec,
     0xe5, 0xf4, 0xe5, 0, 0x4b, 0xe9, 0xad, 0xe1, 0xf2, 0xe7, 0xf3, 0, 0x4c, 0, 0x4d, 0xad, 0xf2,
     0xe5, 0xe1, 0xec, 0xad, 0xe9, 0xf0, 0xba, 0, 0x4e, 0xa0, 0, 0x4f]"

definition lextable_rows :: "byte list list" where
  "lextable_rows =
    [lextable_0, lextable_1, lextable_2, lextable_3, lextable_4, lextable_5,
     lextable_6, lextable_7, lextable_8, lextable_9, lextable_10, lextable_11,
     lextable_12, lextable_13, lextable_14, lextable_15, lextable_16]"

definition lextable :: "byte list" where
  "lextable = concat lextable_rows"

text \<open>The names of \<^verbatim>\<open>lextable-strings.h\<close>, without the last, which cannot be matched.\<close>

definition header_names :: "byte list list" where
  "header_names =
    [bytes_of ''get '',
     bytes_of ''post '',
     bytes_of ''options '',
     bytes_of ''host:'',
     bytes_of ''connection:'',
     bytes_of ''upgrade:'',
     bytes_of ''origin:'',
     bytes_of ''sec-websocket-draft:'',
     [0x0d, 0x0a],
     bytes_of ''sec-websocket-extensions:'',
     bytes_of ''sec-websocket-key1:'',
     bytes_of ''sec-websocket-key2:'',
     bytes_of ''sec-websocket-protocol:'',
     bytes_of ''sec-websocket-accept:'',
     bytes_of ''sec-websocket-nonce:'',
     bytes_of ''http/1.1 '',
     bytes_of ''http2-settings:'',
     bytes_of ''accept:'',
     bytes_of ''access-control-request-headers:'',
     bytes_of ''if-modified-since:'',
     bytes_of ''if-none-match:'',
     bytes_of ''accept-encoding:'',
     bytes_of ''accept-language:'',
     bytes_of ''pragma:'',
     bytes_of ''cache-control:'',
     bytes_of ''authorization:'',
     bytes_of ''cookie:'',
     bytes_of ''content-length:'',
     bytes_of ''content-type:'',
     bytes_of ''date:'',
     bytes_of ''range:'',
     bytes_of ''referer:'',
     bytes_of ''sec-websocket-key:'',
     bytes_of ''sec-websocket-version:'',
     bytes_of ''sec-websocket-origin:'',
     bytes_of '':authority'',
     bytes_of '':method'',
     bytes_of '':path'',
     bytes_of '':scheme'',
     bytes_of '':status'',
     bytes_of ''accept-charset:'',
     bytes_of ''accept-ranges:'',
     bytes_of ''access-control-allow-origin:'',
     bytes_of ''age:'',
     bytes_of ''allow:'',
     bytes_of ''content-disposition:'',
     bytes_of ''content-encoding:'',
     bytes_of ''content-language:'',
     bytes_of ''content-location:'',
     bytes_of ''content-range:'',
     bytes_of ''etag:'',
     bytes_of ''expect:'',
     bytes_of ''expires:'',
     bytes_of ''from:'',
     bytes_of ''if-match:'',
     bytes_of ''if-range:'',
     bytes_of ''if-unmodified-since:'',
     bytes_of ''last-modified:'',
     bytes_of ''link:'',
     bytes_of ''location:'',
     bytes_of ''max-forwards:'',
     bytes_of ''proxy-authenticate:'',
     bytes_of ''proxy-authorization:'',
     bytes_of ''refresh:'',
     bytes_of ''retry-after:'',
     bytes_of ''server:'',
     bytes_of ''set-cookie:'',
     bytes_of ''strict-transport-security:'',
     bytes_of ''transfer-encoding:'',
     bytes_of ''user-agent:'',
     bytes_of ''vary:'',
     bytes_of ''via:'',
     bytes_of ''www-authenticate:'',
     bytes_of ''patch'',
     bytes_of ''put'',
     bytes_of ''delete'',
     bytes_of ''uri-args'',
     bytes_of ''proxy '',
     bytes_of ''x-real-ip:'',
     bytes_of ''http/1.0 '']"

subsection \<open>The decoder\<close>

definition FAIL_CHAR :: byte where
  "FAIL_CHAR = 8"

definition to_lower :: "byte \<Rightarrow> byte" where
  "to_lower c = (if 0x41 \<le> c \<and> c \<le> 0x5a then c + 0x20 else c)"

text \<open>
  \<^verbatim>\<open>lextable_decode\<close> after the case of the character was folded: one pass over the entries of a
  state. A position outside of the table would be a read out of bounds: \<open>None\<close>.
\<close>

function lextable_scan :: "nat \<Rightarrow> byte \<Rightarrow> int option" where
  "lextable_scan pos c =
     (if length lextable \<le> pos then None
      else if 0x80 \<le> lextable ! pos then
        (if lextable ! pos AND 0x7f \<noteq> c then Some (-1)
         else if length lextable \<le> pos + 1 then None
         else if lextable ! (pos + 1) = FAIL_CHAR then Some (-1)
         else Some (int pos + 1))
      else if lextable ! pos = FAIL_CHAR then Some (-1)
      else if lextable ! pos < FAIL_CHAR then Some (int pos)
      else if lextable ! pos = c then
        (if length lextable \<le> pos + 2 then None
         else Some (int pos + int (unat (lextable ! (pos + 1))) + int (unat (lextable ! (pos + 2))) * 256))
      else lextable_scan (pos + 3) c)"
  by pat_completeness auto
termination by (relation "measure (\<lambda>(pos, c). length lextable - pos)") auto

declare lextable_scan.simps [simp del]

definition lextable_decode :: "nat \<Rightarrow> byte \<Rightarrow> int option" where
  "lextable_decode pos c = lextable_scan pos (to_lower c)"

definition lextable_terminal :: "nat \<Rightarrow> bool" where
  "lextable_terminal pos \<longleftrightarrow> lextable ! pos < FAIL_CHAR"

definition lextable_token :: "nat \<Rightarrow> nat" where
  "lextable_token pos = unat (lextable ! pos) * 256 + unat (lextable ! (pos + 1))"

subsection \<open>The language of the table\<close>

text \<open>
  All words that lead from a state to a terminal marker, with the marker's token; \<^verbatim>\<open>enter\<close> is false
  between two entries of a state.
  \<^verbatim>\<open>lex_ok\<close> is true when every entry was reached, none of them is outside of the table, every token
  is one of the 80 names, no
  state has two entries for one character (the second one would be dead) and
  no terminal marker stands behind an entry (the decoder would not consume the character there).
\<close>

definition lex_goto :: "nat \<Rightarrow> nat" where
  "lex_goto pos = pos + unat (lextable ! (pos + 1)) + unat (lextable ! (pos + 2)) * 256"

fun lex_words :: "nat \<Rightarrow> bool \<Rightarrow> nat \<Rightarrow> (byte list \<times> nat) list" where
  "lex_words 0 enter pos = []"
| "lex_words (Suc k) enter pos =
     (if enter \<and> lextable_terminal pos then [([], lextable_token pos)]
      else if 0x80 \<le> lextable ! pos then
        (if lextable ! (pos + 1) = FAIL_CHAR then []
         else map (apfst (Cons (lextable ! pos AND 0x7f))) (lex_words k True (pos + 1)))
      else if lextable ! pos = FAIL_CHAR then []
      else map (apfst (Cons (lextable ! pos))) (lex_words k True (lex_goto pos)) @
           lex_words k False (pos + 3))"

fun lex_heads :: "nat \<Rightarrow> nat \<Rightarrow> byte list" where
  "lex_heads 0 pos = []"
| "lex_heads (Suc k) pos =
     (if 0x80 \<le> lextable ! pos then [lextable ! pos AND 0x7f]
      else if lextable ! pos = FAIL_CHAR then []
      else lextable ! pos # lex_heads k (pos + 3))"

fun lex_ok :: "nat \<Rightarrow> bool \<Rightarrow> nat \<Rightarrow> bool" where
  "lex_ok 0 enter pos \<longleftrightarrow> False"
| "lex_ok (Suc k) enter pos \<longleftrightarrow>
     (if enter \<and> lextable_terminal pos then pos + 1 < length lextable \<and> lextable_token pos < 80
      else if length lextable \<le> pos + 2 then False
      else if 0x80 \<le> lextable ! pos then
        (if lextable ! (pos + 1) = FAIL_CHAR then True else lex_ok k True (pos + 1))
      else if lextable ! pos = FAIL_CHAR then True
      else if lextable ! pos < FAIL_CHAR then False
      else lextable ! pos \<notin> set (lex_heads k (pos + 3)) \<and>
           lex_ok k True (lex_goto pos) \<and> lex_ok k False (pos + 3))"

lemmas lextable_row_defs = lextable_0_def lextable_1_def lextable_2_def lextable_3_def lextable_4_def
  lextable_5_def lextable_6_def lextable_7_def lextable_8_def lextable_9_def lextable_10_def lextable_11_def
  lextable_12_def lextable_13_def lextable_14_def lextable_15_def lextable_16_def

lemma length_rows:
  "length lextable_rows = 17" "map length lextable_rows = replicate 16 64 @ [63]"
  by (simp_all add: lextable_rows_def lextable_row_defs numeral_eq_Suc)

lemma length_lextable: "length lextable = 1087"
  by (simp add: lextable_def length_concat length_rows sum_list_replicate)

lemma nth_concat64:
  "k < length rows \<Longrightarrow> j < length (rows ! k) \<Longrightarrow> \<forall>i < k. length (rows ! i) = 64 \<Longrightarrow>
     concat rows ! (64 * k + j) = rows ! k ! j"
proof (induction k arbitrary: rows)
  case 0
  then show ?case by (cases rows) (simp_all add: nth_append)
next
  case (Suc k)
  obtain r rs where rows: "rows = r # rs" using Suc.prems(1) by (cases rows) auto
  have "length r = 64" using Suc.prems(3) rows by force
  moreover have "concat rs ! (64 * k + j) = rs ! k ! j"
    using Suc.prems rows by (intro Suc.IH) force+
  ultimately show ?case by (simp add: rows nth_append)
qed

lemma lextable_nth:
  assumes "n < 1087"
  shows "lextable ! n = lextable_rows ! (n div 64) ! (n mod 64)"
proof -
  have len: "length (lextable_rows ! k) = (if k < 16 then 64 else 63)" if "k < 17" for k
  proof -
    have "length (lextable_rows ! k) = map length lextable_rows ! k" using that by (simp add: length_rows(1))
    then show ?thesis unfolding length_rows(2) using that by (cases "k < 16") (simp_all add: nth_append)
  qed
  have eq: "64 * (n div 64) + n mod 64 = n" by simp
  have lt: "n mod 64 < 64" by simp
  have n: "n div 64 < 17" using assms eq by linarith
  have "n mod 64 < 63" if "16 \<le> n div 64" using assms eq that by linarith
  then have "n mod 64 < (if n div 64 < 16 then 64 else 63)" using lt by (simp add: not_less)
  have "concat lextable_rows ! (64 * (n div 64) + n mod 64) = lextable_rows ! (n div 64) ! (n mod 64)"
    using n len \<open>n mod 64 < (if n div 64 < 16 then 64 else 63)\<close>
    by (intro nth_concat64) (simp_all add: length_rows(1))
  then show ?thesis unfolding lextable_def eq .
qed

subsection \<open>Evaluating the table\<close>

text \<open>
  Looking up a byte: the row, then the byte of the row. The congruence rule keeps the simplifier
  from visiting the row.
\<close>

definition lex_row :: "nat \<Rightarrow> nat \<Rightarrow> byte" where
  "lex_row k j = lextable_rows ! k ! j"

lemma lextable_by_row: "n < 1087 \<Longrightarrow> lextable ! n = lex_row (n div 64) (n mod 64)"
  by (simp add: lextable_nth lex_row_def)

lemma lex_row_simps:
  "lex_row 0 j = lextable_0 ! j"
  "lex_row (Suc 0) j = lextable_1 ! j"
  "lex_row 2 j = lextable_2 ! j"
  "lex_row 3 j = lextable_3 ! j"
  "lex_row 4 j = lextable_4 ! j"
  "lex_row 5 j = lextable_5 ! j"
  "lex_row 6 j = lextable_6 ! j"
  "lex_row 7 j = lextable_7 ! j"
  "lex_row 8 j = lextable_8 ! j"
  "lex_row 9 j = lextable_9 ! j"
  "lex_row 10 j = lextable_10 ! j"
  "lex_row 11 j = lextable_11 ! j"
  "lex_row 12 j = lextable_12 ! j"
  "lex_row 13 j = lextable_13 ! j"
  "lex_row 14 j = lextable_14 ! j"
  "lex_row 15 j = lextable_15 ! j"
  "lex_row 16 j = lextable_16 ! j"
  by (simp_all add: lex_row_def lextable_rows_def)

lemmas row_lookup = lextable_0_def [THEN arg_cong, of "\<lambda>r. r ! j"]
  lextable_1_def [THEN arg_cong, of "\<lambda>r. r ! j"]
  lextable_2_def [THEN arg_cong, of "\<lambda>r. r ! j"]
  lextable_3_def [THEN arg_cong, of "\<lambda>r. r ! j"]
  lextable_4_def [THEN arg_cong, of "\<lambda>r. r ! j"]
  lextable_5_def [THEN arg_cong, of "\<lambda>r. r ! j"]
  lextable_6_def [THEN arg_cong, of "\<lambda>r. r ! j"]
  lextable_7_def [THEN arg_cong, of "\<lambda>r. r ! j"]
  lextable_8_def [THEN arg_cong, of "\<lambda>r. r ! j"]
  lextable_9_def [THEN arg_cong, of "\<lambda>r. r ! j"]
  lextable_10_def [THEN arg_cong, of "\<lambda>r. r ! j"]
  lextable_11_def [THEN arg_cong, of "\<lambda>r. r ! j"]
  lextable_12_def [THEN arg_cong, of "\<lambda>r. r ! j"]
  lextable_13_def [THEN arg_cong, of "\<lambda>r. r ! j"]
  lextable_14_def [THEN arg_cong, of "\<lambda>r. r ! j"]
  lextable_15_def [THEN arg_cong, of "\<lambda>r. r ! j"]
  lextable_16_def [THEN arg_cong, of "\<lambda>r. r ! j"] for j

lemma nth_index_cong: "n = m \<Longrightarrow> xs ! n = xs ! m" by simp

text \<open>The byte at the position becomes a natural number and an argument, so that it is looked up once.\<close>

definition lex_words_at :: "nat \<Rightarrow> bool \<Rightarrow> nat \<Rightarrow> nat \<Rightarrow> (byte list \<times> nat) list" where
  "lex_words_at k enter pos n =
     (if enter \<and> n < 8 then [([], lextable_token pos)]
      else if 128 \<le> n then
        (if unat (lextable ! (pos + 1)) = 8 then []
         else map (apfst (Cons (of_nat (n - 128)))) (lex_words k True (pos + 1)))
      else if n = 8 then []
      else map (apfst (Cons (of_nat n))) (lex_words k True (lex_goto pos)) @ lex_words k False (pos + 3))"

definition lex_heads_at :: "nat \<Rightarrow> nat \<Rightarrow> nat \<Rightarrow> byte list" where
  "lex_heads_at k pos n =
     (if 128 \<le> n then [of_nat (n - 128)] else if n = 8 then [] else of_nat n # lex_heads k (pos + 3))"

definition lex_ok_at :: "nat \<Rightarrow> bool \<Rightarrow> nat \<Rightarrow> nat \<Rightarrow> bool" where
  "lex_ok_at k enter pos n \<longleftrightarrow>
     (if enter \<and> n < 8 then pos + 1 < length lextable \<and> lextable_token pos < 80
      else if length lextable \<le> pos + 2 then False
      else if 128 \<le> n then (if unat (lextable ! (pos + 1)) = 8 then True else lex_ok k True (pos + 1))
      else if n = 8 then True
      else if n < 8 then False
      else of_nat n \<notin> set (lex_heads k (pos + 3)) \<and> lex_ok k True (lex_goto pos) \<and> lex_ok k False (pos + 3))"

lemma byte_minus_high: "0x80 \<le> b \<Longrightarrow> b AND 0x7f = of_nat (unat b - 128)" for b :: byte
proof -
  assume "0x80 \<le> b"
  then have "128 \<le> unat b" "unat b < 256" using unsigned_less [of b] by (simp_all add: byte_simps)
  then have "unat b mod 128 = unat b - 128" by (metis add_diff_cancel_left' less_diff_conv2 mod_less mod_add_self1 le_add_diff_inverse numeral_Bit0)
  then show "b AND 0x7f = of_nat (unat b - 128)"
    unfolding byte_low7 word_unat_eq_iff unsigned_take_bit_eq using \<open>unat b < 256\<close> by (simp add: take_bit_eq_mod unat_of_nat)
qed

lemma byte_fail: "b = FAIL_CHAR \<longleftrightarrow> unat b = 8" "b < FAIL_CHAR \<longleftrightarrow> unat b < 8" "0x80 \<le> b \<longleftrightarrow> 128 \<le> unat b"
  by (auto simp: FAIL_CHAR_def byte_simps)

lemma lex_numeral:
  "lex_words (numeral v) enter pos = lex_words_at (pred_numeral v) enter pos (unat (lextable ! pos))"
  "lex_heads (numeral v) pos = lex_heads_at (pred_numeral v) pos (unat (lextable ! pos))"
  "lex_ok (numeral v) enter pos = lex_ok_at (pred_numeral v) enter pos (unat (lextable ! pos))"
  unfolding numeral_eq_Suc lex_words.simps lex_heads.simps lex_ok.simps lex_words_at_def
      lex_heads_at_def lex_ok_at_def lextable_terminal_def
  by (simp_all add: byte_fail byte_minus_high cong: if_cong)

text \<open>The tokens in the order in which the table has them.\<close>

definition lex_order :: "nat list" where
  "lex_order =
    [0, 1, 23, 61, 62, 77, 73, 74, 2, 6, 3, 15, 79, 16, 4, 27, 47, 48, 28, 45, 46, 49, 26, 24,
     5, 69, 76, 7, 9, 10, 11, 32, 12, 13, 14, 33, 34, 65, 66, 67, 8, 17, 21, 22, 40, 41, 18,
     42, 25, 43, 44, 19, 54, 20, 55, 56, 29, 75, 30, 31, 63, 64, 35, 36, 37, 38, 39, 50, 51,
     52, 53, 57, 58, 59, 60, 68, 70, 71, 72, 78]"

lemmas lex_eval = lextable_by_row lex_row_simps row_lookup lex_numeral length_lextable
  lex_words_at_def lex_heads_at_def lex_ok_at_def lextable_token_def lex_goto_def

lemmas header_lookup = header_names_def [THEN arg_cong, of "\<lambda>r. r ! t"] for t

lemma lex_words_all: "lex_words 99 True 0 = map (\<lambda>t. (header_names ! t, t)) lex_order"
  by (simp add: lex_eval header_lookup lex_order_def bytes_of_def cong: nth_index_cong)

lemma lex_ok_all: "lex_ok 99 True 0"
  by (simp add: lex_eval cong: nth_index_cong)

lemma lex_order_all: "set lex_order = {..<80}"
proof (rule card_seteq)
  show "set lex_order \<subseteq> {..<80}" by (simp add: lex_order_def)
  have "distinct lex_order" by (simp add: lex_order_def)
  then show "card {..<80 :: nat} \<le> card (set lex_order)"
    by (simp add: distinct_card) (simp add: lex_order_def)
qed simp

lemma length_header_names: "length header_names = 80"
  by (simp add: header_names_def)

subsection \<open>Running the decoder over a name\<close>

text \<open>
  What \<^verbatim>\<open>lws_parse\<close> does with the characters of a header name, from the start of a line: \<open>Some\<close> token
  when the last character, and no earlier one, leads to a terminal marker.
\<close>

fun lex_run :: "nat \<Rightarrow> byte list \<Rightarrow> nat option" where
  "lex_run pos [] = None"
| "lex_run pos (c # cs) =
     (case lextable_decode pos c of
        None \<Rightarrow> None
      | Some i \<Rightarrow>
          if i < 0 then None
          else if lextable_terminal (nat i) then (if cs = [] then Some (lextable_token (nat i)) else None)
          else lex_run (nat i) cs)"

lemma to_lower_idem: "to_lower (to_lower c) = to_lower c"
proof (cases "0x41 \<le> c \<and> c \<le> 0x5a")
  case True
  then have "unat (c + 0x20) = unat c + 32"
    by (simp add: byte_simps unat_word_ariths)
  then show ?thesis using True by (simp add: to_lower_def byte_simps)
qed (simp add: to_lower_def)

lemma lex_run_lower: "lex_run pos (map to_lower cs) = lex_run pos cs"
  by (induction cs arbitrary: pos) (simp_all add: lextable_decode_def to_lower_idem split: option.split)

lemma apfst_Cons_set:
  "(cs, t) \<in> apfst (Cons b) ` A \<longleftrightarrow> (\<exists>cs'. cs = b # cs' \<and> (cs', t) \<in> A)"
  by force

lemma lex_words_Nil:
  "([], t) \<in> set (lex_words k enter pos) \<Longrightarrow> enter \<and> lextable_terminal pos \<and> t = lextable_token pos"
  by (induction k arbitrary: enter pos) (auto split: if_splits)

lemma lex_words_heads:
  "(c # cs, t) \<in> set (lex_words k False pos) \<Longrightarrow> lex_ok k False pos \<Longrightarrow> c \<in> set (lex_heads k pos)"
  by (induction k arbitrary: pos) (auto split: if_splits)

lemma lex_run_fail: "lextable_decode pos c = Some (-1) \<Longrightarrow> lex_run pos (c # cs) = None"
  by simp

lemma lex_run_to:
  "lextable_decode pos c = Some (int p) \<Longrightarrow> lex_run pos (c # cs) = Some t \<longleftrightarrow>
     (if lextable_terminal p then cs = [] \<and> t = lextable_token p else lex_run p cs = Some t)"
  by auto

lemma scan_entry:
  assumes "pos + 2 < length lextable"
  shows "0x80 \<le> lextable ! pos \<Longrightarrow> lextable ! pos AND 0x7f \<noteq> c \<or> lextable ! (pos + 1) = FAIL_CHAR \<Longrightarrow>
           lextable_scan pos c = Some (-1)"
    and "0x80 \<le> lextable ! pos \<Longrightarrow> lextable ! (pos + 1) \<noteq> FAIL_CHAR \<Longrightarrow>
           lextable_scan pos (lextable ! pos AND 0x7f) = Some (int (pos + 1))"
    and "\<not> 0x80 \<le> lextable ! pos \<Longrightarrow> lextable ! pos = FAIL_CHAR \<Longrightarrow> lextable_scan pos c = Some (-1)"
    and "\<not> 0x80 \<le> lextable ! pos \<Longrightarrow> lextable ! pos \<noteq> FAIL_CHAR \<Longrightarrow> \<not> lextable ! pos < FAIL_CHAR \<Longrightarrow>
           lextable_scan pos (lextable ! pos) = Some (int (lex_goto pos))"
    and "\<not> 0x80 \<le> lextable ! pos \<Longrightarrow> lextable ! pos \<noteq> FAIL_CHAR \<Longrightarrow> \<not> lextable ! pos < FAIL_CHAR \<Longrightarrow>
           c \<noteq> lextable ! pos \<Longrightarrow> lextable_scan pos c = lextable_scan (pos + 3) c"
  using assms by (subst lextable_scan.simps, auto simp: lex_goto_def)+

lemma lex_words_run:
  assumes "lex_ok k enter pos" and "map to_lower cs = cs"
  shows "(cs, t) \<in> set (lex_words k enter pos) \<longleftrightarrow>
    (if enter \<and> lextable_terminal pos then cs = [] \<and> t = lextable_token pos else lex_run pos cs = Some t)"
  using assms
proof (induction k arbitrary: enter pos cs t)
  case 0
  then show ?case by simp
next
  case (Suc k)
  show ?case
  proof (cases "(enter \<and> lextable_terminal pos) \<or> cs = []")
    case True
    show ?thesis
    proof (cases "enter \<and> lextable_terminal pos")
      case at_end: True
      show ?thesis by (simp only: lex_words.simps at_end if_True) auto
    next
      case noterm: False
      then have "([], t) \<notin> set (lex_words (Suc k) enter pos)" using lex_words_Nil by blast
      then show ?thesis using True noterm by (simp only: if_False simp_thms lex_run.simps) simp
    qed
  next
    case False
    then obtain c cs' where cs: "cs = c # cs'" by (cases cs) auto
    let ?b = "lextable ! pos"
    have noterm: "(enter \<and> lextable_terminal pos) = False" using False by simp
    note ok = Suc.prems(1) [unfolded lex_ok.simps noterm if_False]
    note words = lex_words.simps(2) [of k enter pos, unfolded noterm if_False]
    have bound: "pos + 2 < length lextable" using ok by (simp split: if_splits)
    have low: "to_lower c = c" "map to_lower cs' = cs'" using Suc.prems(2) cs by simp_all
    then have dec: "lextable_decode p c = lextable_scan p c" for p by (simp add: lextable_decode_def)
    note scan = scan_entry [OF bound]
    have "(cs, t) \<in> set (lex_words (Suc k) enter pos) \<longleftrightarrow> lex_run pos cs = Some t"
    proof (cases "0x80 \<le> ?b")
      case True
      show ?thesis
      proof (cases "c = ?b AND 0x7f \<and> lextable ! (pos + 1) \<noteq> FAIL_CHAR")
        case stop: False
        then have "lextable_decode pos c = Some (-1)" unfolding dec by (intro scan(1) [OF True]) blast
        then show ?thesis unfolding words cs lex_run_fail [OF \<open>lextable_decode pos c = Some (-1)\<close>]
          using True stop by auto
      next
        case go: True
        have ok: "lex_ok k True (pos + 1)" using ok True go bound by (simp split: if_splits)
        have step: "lextable_decode pos c = Some (int (pos + 1))"
          unfolding dec using scan(2) [OF True] go by (simp only: simp_thms)
        show ?thesis unfolding words cs lex_run_to [OF step] using Suc.IH [OF ok low(2), of t] True go
          by (simp add: apfst_Cons_set)
      qed
    next
      case b: False
      show ?thesis
      proof (cases "?b = FAIL_CHAR")
        case True
        then have "lextable_decode pos c = Some (-1)" unfolding dec by (rule scan(3) [OF b])
        then show ?thesis unfolding words cs lex_run_fail [OF \<open>lextable_decode pos c = Some (-1)\<close>]
          using b True by simp
      next
        case nofail: False
        have ok: "\<not> ?b < FAIL_CHAR" "?b \<notin> set (lex_heads k (pos + 3))" "lex_ok k True (lex_goto pos)"
          "lex_ok k False (pos + 3)"
          using ok b nofail bound by (auto split: if_splits)
        have in_words: "(cs, t) \<in> set (lex_words (Suc k) enter pos) \<longleftrightarrow>
           c = ?b \<and> (cs', t) \<in> set (lex_words k True (lex_goto pos)) \<or> (cs, t) \<in> set (lex_words k False (pos + 3))"
          unfolding words cs using b nofail by (simp add: apfst_Cons_set)
        show ?thesis
        proof (cases "c = ?b")
          case True
          then have "(cs, t) \<notin> set (lex_words k False (pos + 3))"
            using lex_words_heads [of c cs' t k "pos + 3"] ok cs by blast
          moreover have step: "lextable_decode pos c = Some (int (lex_goto pos))"
            unfolding dec unfolding True by (rule scan(4) [OF b nofail ok(1)])
          ultimately show ?thesis unfolding in_words unfolding cs lex_run_to [OF step]
            using True Suc.IH [OF ok(3) low(2), of t] by simp
        next
          case neq: False
          have "lex_run pos cs = lex_run (pos + 3) cs"
            using scan(5) [OF b nofail ok(1) neq] by (simp add: cs dec)
          then show ?thesis unfolding in_words
            using neq Suc.IH [OF ok(4) Suc.prems(2), of t] by simp
        qed
      qed
    qed
    then show ?thesis unfolding noterm if_False .
  qed
qed

lemma header_names_lower: "t < 80 \<Longrightarrow> map to_lower (header_names ! t) = header_names ! t"
proof -
  have low: "to_lower c = (if 65 \<le> unat c \<and> unat c \<le> 90 then c + 0x20 else c)" for c
    by (simp add: to_lower_def byte_simps)
  have "list_all (\<lambda>cs. map to_lower cs = cs) header_names"
    by (simp add: header_names_def bytes_of_def low)
  then show "t < 80 \<Longrightarrow> ?thesis" by (simp add: list_all_length length_header_names)
qed

lemma lex_run_names:
  "lex_run 0 w = Some t \<longleftrightarrow> t < 80 \<and> map to_lower w = header_names ! t"
proof -
  have "\<not> lextable_terminal 0"
    by (simp add: lextable_terminal_def byte_fail lex_eval cong: nth_index_cong)
  then have "(map to_lower w, t) \<in> set (lex_words 99 True 0) \<longleftrightarrow> lex_run 0 w = Some t"
    using lex_words_run [OF lex_ok_all, of "map to_lower w" t] by (simp add: to_lower_idem o_def lex_run_lower)
  moreover have "(map to_lower w, t) \<in> set (lex_words 99 True 0) \<longleftrightarrow> t \<in> set lex_order \<and> map to_lower w = header_names ! t"
    unfolding lex_words_all by auto
  ultimately show ?thesis by (simp add: lex_order_all)
qed


end
