(* ===== verification/Http_Parse.thy ===== *)
theory Http_Parse
  imports Http_Lextable "HOL-Library.Monad_Syntax"
begin

text \<open>
  The HTTP header parser, \<^verbatim>\<open>parsers.c\<close>: the header table (\<^verbatim>\<open>struct allocated_headers\<close> with
  its data, fragments and index), the accessors of the table, and \<^verbatim>\<open>lws_parse\<close>, which consumes
  one byte at a time and cleans the URI on the way.

  Every access to an array of the table is checked: \<open>None\<close> is a read or write outside of it, a failed
  \<^verbatim>\<open>assert\<close> or a chain of fragments without an end. \<open>Some (r, hp)\<close> is the return value and the new
  state.
\<close>

subsection \<open>The header table\<close>

datatype uri_path_states = URIPS_IDLE | URIPS_SEEN_SLASH | URIPS_SEEN_SLASH_DOT | URIPS_SEEN_SLASH_DOT_DOT

datatype uri_esc_states = URIES_IDLE | URIES_SEEN_PERCENT | URIES_SEEN_PERCENT_H1

record fragment =
  f_offset :: nat
  f_len :: nat      \<comment> \<open>an \<^verbatim>\<open>unsigned short\<close>: the operations below wrap it\<close>
  f_nfrag :: nat

record hp =
  ah_data :: "byte list"
  ah_frags :: "fragment list"
  ah_frag_index :: "nat list"
  ah_pos :: nat
  ah_nfrag :: nat
  ups :: uri_path_states
  ues :: uri_esc_states
  lextable_pos :: int
  current_token_limit :: nat
  esc_stash :: byte
  post_literal_equal :: bool
  parser_state :: nat
  spec_revision :: byte
  hdr_completed :: bool
  sent_forbidden :: bool

record hp_env =
  max_http_header_data :: nat
  token_limits :: "nat list option"
  http_serving :: bool   \<comment> \<open>\<^verbatim>\<open>wsi->mode == LWSCM_HTTP_SERVING\<close>\<close>

abbreviation (input) "WSI_TOKEN_GET_URI \<equiv> 0 :: nat"
abbreviation (input) "WSI_TOKEN_POST_URI \<equiv> 1 :: nat"
abbreviation (input) "WSI_TOKEN_OPTIONS_URI \<equiv> 2 :: nat"
abbreviation (input) "WSI_TOKEN_UPGRADE \<equiv> 5 :: nat"
abbreviation (input) "WSI_TOKEN_ORIGIN \<equiv> 6 :: nat"
abbreviation (input) "WSI_TOKEN_CHALLENGE \<equiv> 8 :: nat"
abbreviation (input) "WSI_TOKEN_HTTP \<equiv> 15 :: nat"
abbreviation (input) "WSI_TOKEN_VERSION \<equiv> 33 :: nat"
abbreviation (input) "WSI_TOKEN_SWORIGIN \<equiv> 34 :: nat"
abbreviation (input) "WSI_TOKEN_PATCH_URI \<equiv> 73 :: nat"
abbreviation (input) "WSI_TOKEN_PUT_URI \<equiv> 74 :: nat"
abbreviation (input) "WSI_TOKEN_DELETE_URI \<equiv> 75 :: nat"
abbreviation (input) "WSI_TOKEN_HTTP_URI_ARGS \<equiv> 76 :: nat"
abbreviation (input) "WSI_TOKEN_COUNT \<equiv> 86 :: nat"
abbreviation (input) "WSI_TOKEN_NAME_PART \<equiv> 87 :: nat"
abbreviation (input) "WSI_TOKEN_SKIPPING \<equiv> 88 :: nat"
abbreviation (input) "WSI_TOKEN_SKIPPING_SAW_CR \<equiv> 89 :: nat"
abbreviation (input) "WSI_PARSING_COMPLETE \<equiv> 90 :: nat"

definition methods :: "nat list" where
  "methods = [WSI_TOKEN_GET_URI, WSI_TOKEN_POST_URI, WSI_TOKEN_OPTIONS_URI, WSI_TOKEN_PUT_URI,
     WSI_TOKEN_PATCH_URI, WSI_TOKEN_DELETE_URI]"

definition no_frag :: fragment where
  "no_frag = \<lparr>f_offset = 0, f_len = 0, f_nfrag = 0\<rparr>"

text \<open>Checked access.\<close>

definition frag_at :: "hp \<Rightarrow> nat \<Rightarrow> fragment option" where
  "frag_at hp i = (if i < length (ah_frags hp) then Some (ah_frags hp ! i) else None)"

definition set_frag :: "nat \<Rightarrow> fragment \<Rightarrow> hp \<Rightarrow> hp option" where
  "set_frag i f hp =
     (if i < length (ah_frags hp) then Some (hp\<lparr>ah_frags := (ah_frags hp)[i := f]\<rparr>) else None)"

definition index_at :: "hp \<Rightarrow> nat \<Rightarrow> nat option" where
  "index_at hp t = (if t < length (ah_frag_index hp) then Some (ah_frag_index hp ! t) else None)"

definition set_index :: "nat \<Rightarrow> nat \<Rightarrow> hp \<Rightarrow> hp option" where
  "set_index t n hp =
     (if t < length (ah_frag_index hp) then Some (hp\<lparr>ah_frag_index := (ah_frag_index hp)[t := n]\<rparr>) else None)"

definition data_at :: "hp \<Rightarrow> nat \<Rightarrow> byte option" where
  "data_at hp i = (if i < length (ah_data hp) then Some (ah_data hp ! i) else None)"

definition put_data :: "byte \<Rightarrow> hp \<Rightarrow> hp option" where
  "put_data c hp =
     (if ah_pos hp < length (ah_data hp)
      then Some (hp\<lparr>ah_data := (ah_data hp)[ah_pos hp := c], ah_pos := ah_pos hp + 1\<rparr>) else None)"

definition inc_len :: "fragment \<Rightarrow> fragment" where
  "inc_len f = f\<lparr>f_len := (f_len f + 1) mod 65536\<rparr>"

definition dec_len :: "fragment \<Rightarrow> fragment" where
  "dec_len f = f\<lparr>f_len := (f_len f + 65535) mod 65536\<rparr>"

definition lws_header_table_reset :: "hp \<Rightarrow> hp" where
  "lws_header_table_reset hp =
     hp\<lparr>ah_frag_index := replicate WSI_TOKEN_COUNT 0, ah_nfrag := 0, ah_pos := 0\<rparr>"

subsection \<open>Reading the table\<close>

definition c_string_at :: "hp \<Rightarrow> nat \<Rightarrow> byte list option" where
  "c_string_at hp off =
     (if 0 \<in> set (drop off (ah_data hp)) then Some (c_str (drop off (ah_data hp))) else None)"

fun total_length_loop :: "nat \<Rightarrow> hp \<Rightarrow> nat \<Rightarrow> nat option" where
  "total_length_loop 0 hp n = None"
| "total_length_loop (Suc k) hp n =
     do {
       f \<leftarrow> frag_at hp n;
       if f_nfrag f = 0 then Some (f_len f)
       else do {
         rest \<leftarrow> total_length_loop k hp (f_nfrag f);
         Some (f_len f + rest)
       }
     }"

definition lws_hdr_total_length :: "hp \<Rightarrow> nat \<Rightarrow> nat option" where
  "lws_hdr_total_length hp h =
     do {
       n \<leftarrow> index_at hp h;
       if n = 0 then Some 0 else total_length_loop (length (ah_frags hp)) hp n
     }"

fun fragment_length_loop :: "nat \<Rightarrow> hp \<Rightarrow> nat \<Rightarrow> nat option" where
  "fragment_length_loop 0 hp n = do { f \<leftarrow> frag_at hp n; Some (f_len f) }"
| "fragment_length_loop (Suc idx) hp n =
     do {
       f \<leftarrow> frag_at hp n;
       if f_nfrag f = 0 then Some 0 else fragment_length_loop idx hp (f_nfrag f)
     }"

definition lws_hdr_fragment_length :: "hp \<Rightarrow> nat \<Rightarrow> nat \<Rightarrow> nat option" where
  "lws_hdr_fragment_length hp h frag_idx =
     do {
       n \<leftarrow> index_at hp h;
       if n = 0 then Some 0 else fragment_length_loop frag_idx hp n
     }"

text \<open>Writing to the caller's buffer; behind its end is outside of it.\<close>

definition put_at :: "byte list \<Rightarrow> nat \<Rightarrow> byte list \<Rightarrow> byte list option" where
  "put_at dst k bs =
     (if k + length bs \<le> length dst then Some (take k dst @ bs @ drop (k + length bs) dst) else None)"

fun copy_fragment_find :: "nat \<Rightarrow> hp \<Rightarrow> nat \<Rightarrow> nat option" where
  "copy_fragment_find 0 hp f = Some f"
| "copy_fragment_find (Suc k) hp f =
     do {
       fr \<leftarrow> frag_at hp f;
       if f_nfrag fr = 0 then Some 0 else copy_fragment_find k hp (f_nfrag fr)
     }"

definition lws_hdr_copy_fragment ::
  "hp \<Rightarrow> byte list \<Rightarrow> nat \<Rightarrow> nat \<Rightarrow> nat \<Rightarrow> (int \<times> byte list) option" where
  "lws_hdr_copy_fragment hp dst len h frag_idx =
     do {
       f \<leftarrow> index_at hp h;
       if f = 0 then Some (-1, dst)
       else do {
         f \<leftarrow> copy_fragment_find frag_idx hp f;
         if f = 0 then Some (-1, dst)
         else do {
           fr \<leftarrow> frag_at hp f;
           if len \<le> f_len fr then Some (-1, dst)
           else do {
             assert_opt (f_offset fr + f_len fr \<le> length (ah_data hp));
             dst \<leftarrow> put_at dst 0 (take (f_len fr) (drop (f_offset fr) (ah_data hp)) @ [0]);
             Some (int (f_len fr), dst)
           }
         }
       }
     }"

fun hdr_copy_loop :: "nat \<Rightarrow> hp \<Rightarrow> nat \<Rightarrow> nat \<Rightarrow> byte list \<Rightarrow> byte list option" where
  "hdr_copy_loop 0 hp n k dst = None"
| "hdr_copy_loop (Suc fuel) hp n k dst =
     do {
       f \<leftarrow> frag_at hp n;
       s \<leftarrow> c_string_at hp (f_offset f);
       dst \<leftarrow> put_at dst k (s @ [0]);
       if f_nfrag f = 0 then Some dst else hdr_copy_loop fuel hp (f_nfrag f) (k + f_len f) dst
     }"

definition lws_hdr_copy :: "hp \<Rightarrow> byte list \<Rightarrow> nat \<Rightarrow> nat \<Rightarrow> (int \<times> byte list) option" where
  "lws_hdr_copy hp dst len h =
     do {
       toklen \<leftarrow> lws_hdr_total_length hp h;
       if len \<le> toklen then Some (-1, dst)
       else do {
         n \<leftarrow> index_at hp h;
         if n = 0 then Some (0, dst)
         else do {
           dst \<leftarrow> hdr_copy_loop (length (ah_frags hp)) hp n 0 dst;
           Some (int toklen, dst)
         }
       }
     }"

definition lws_hdr_simple_ptr :: "hp \<Rightarrow> nat \<Rightarrow> nat option option" where
  "lws_hdr_simple_ptr hp h =
     do {
       n \<leftarrow> index_at hp h;
       if n = 0 then Some None else do { f \<leftarrow> frag_at hp n; Some (Some (f_offset f)) }
     }"

text \<open>\<^verbatim>\<open>atoi\<close> of the standard library, for values in the range of an \<^verbatim>\<open>int\<close>.\<close>

fun atoi_digits :: "int \<Rightarrow> byte list \<Rightarrow> int" where
  "atoi_digits n [] = n"
| "atoi_digits n (c # cs) =
     (if 0x30 \<le> c \<and> c \<le> 0x39 then atoi_digits (10 * n + (int (unat c) - 48)) cs else n)"

definition atoi :: "byte list \<Rightarrow> int" where
  "atoi s =
     (case dropWhile (\<lambda>c. c = 32 \<or> (9 \<le> c \<and> c \<le> 13)) s of
        [] \<Rightarrow> 0
      | c # cs \<Rightarrow>
          if c = 0x2d then - atoi_digits 0 cs
          else if c = 0x2b then atoi_digits 0 cs
          else atoi_digits 0 (c # cs))"

subsection \<open>Writing the table\<close>

definition lws_pos_in_bounds :: "hp_env \<Rightarrow> hp \<Rightarrow> bool option" where
  "lws_pos_in_bounds env hp =
     (if ah_pos hp < max_http_header_data env then Some True
      else if ah_pos hp = max_http_header_data env then Some False
      else None)"

fun simple_create_loop :: "hp_env \<Rightarrow> byte list \<Rightarrow> hp \<Rightarrow> (int \<times> hp) option" where
  "simple_create_loop env [] hp = None"
| "simple_create_loop env (c # cs) hp =
     do {
       ok \<leftarrow> lws_pos_in_bounds env hp;
       if \<not> ok then Some (-1, hp)
       else do {
         hp \<leftarrow> put_data c hp;
         if c = 0 then Some (0, hp)
         else do {
           f \<leftarrow> frag_at hp (ah_nfrag hp);
           hp \<leftarrow> set_frag (ah_nfrag hp) (inc_len f) hp;
           simple_create_loop env cs hp
         }
       }
     }"

definition lws_hdr_simple_create :: "hp_env \<Rightarrow> nat \<Rightarrow> byte list \<Rightarrow> hp \<Rightarrow> (int \<times> hp) option" where
  "lws_hdr_simple_create env h s hp =
     (let hp = hp\<lparr>ah_nfrag := ah_nfrag hp + 1\<rparr> in
      if ah_nfrag hp = length (ah_frags hp) then Some (-1, hp)
      else do {
        hp \<leftarrow> set_index h (ah_nfrag hp) hp;
        hp \<leftarrow> set_frag (ah_nfrag hp) \<lparr>f_offset = ah_pos hp, f_len = 0, f_nfrag = 0\<rparr> hp;
        simple_create_loop env (s @ [0]) hp
      })"

definition char_to_hex :: "byte \<Rightarrow> int" where
  "char_to_hex c =
     (if 0x30 \<le> c \<and> c \<le> 0x39 then int (unat c) - 0x30
      else if 0x61 \<le> c \<and> c \<le> 0x66 then int (unat c) - 0x61 + 10
      else if 0x41 \<le> c \<and> c \<le> 0x46 then int (unat c) - 0x41 + 10
      else -1)"

definition issue_char :: "hp_env \<Rightarrow> byte \<Rightarrow> hp \<Rightarrow> (int \<times> hp) option" where
  "issue_char env c hp =
     do {
       ok \<leftarrow> lws_pos_in_bounds env hp;
       if \<not> ok then Some (-1, hp)
       else do {
         f \<leftarrow> frag_at hp (ah_nfrag hp);
         if f_len f < current_token_limit hp then do {
           hp \<leftarrow> put_data c hp;
           hp \<leftarrow> (if c \<noteq> 0 then set_frag (ah_nfrag hp) (inc_len f) hp else Some hp);
           Some (0, hp)
         }
         else if f_len f = current_token_limit hp then do {
           ok \<leftarrow> lws_pos_in_bounds env hp;
           if \<not> ok then Some (-1, hp)
           else do { hp \<leftarrow> put_data 0 hp; Some (1, hp) }
         }
         else Some (1, hp)
       }
     }"

subsection \<open>Fragments\<close>

definition new_frag :: "hp \<Rightarrow> hp option" where
  "new_frag hp = set_frag (ah_nfrag hp) \<lparr>f_offset = ah_pos hp, f_len = 0, f_nfrag = 0\<rparr> hp"

text \<open>The last fragment of a chain; the loop of the code does not end on a cyclic chain: \<open>None\<close>.\<close>

fun chain_end :: "nat \<Rightarrow> hp \<Rightarrow> nat \<Rightarrow> nat option" where
  "chain_end 0 hp n = None"
| "chain_end (Suc k) hp n =
     do {
       f \<leftarrow> frag_at hp n;
       if f_nfrag f = 0 then Some n else chain_end k hp (f_nfrag f)
     }"

definition parse_excessive :: "hp_env \<Rightarrow> hp \<Rightarrow> (int \<times> hp) option" where
  "parse_excessive env hp =
     (if ah_nfrag hp = length (ah_frags hp) then Some (-1, hp)
      else do {
        hp \<leftarrow> new_frag hp;
        n \<leftarrow> index_at hp (parser_state hp);
        if n = 0 then do {
          hp \<leftarrow> set_index (parser_state hp) (ah_nfrag hp) hp;
          Some (0, hp)
        }
        else do {
          n \<leftarrow> chain_end (length (ah_frags hp)) hp n;
          f \<leftarrow> frag_at hp n;
          hp \<leftarrow> set_frag n (f\<lparr>f_nfrag := ah_nfrag hp\<rparr>) hp;
          (r, hp) \<leftarrow> issue_char env 32 hp;
          Some (if r < 0 then -1 else 0, hp)
        }
      })"

definition parse_start_fragment :: "hp_env \<Rightarrow> hp \<Rightarrow> (int \<times> hp) option" where
  "parse_start_fragment env hp = parse_excessive env (hp\<lparr>ah_nfrag := ah_nfrag hp + 1\<rparr>)"

definition parse_forbid :: "hp \<Rightarrow> (int \<times> hp) option" where
  "parse_forbid hp = Some (-1, hp\<lparr>sent_forbidden := True\<rparr>)"

definition read_version :: "hp \<Rightarrow> hp option" where
  "read_version hp =
     do {
       version \<leftarrow> lws_hdr_total_length hp WSI_TOKEN_VERSION;
       if version = 0 then Some hp
       else do {
         ptr \<leftarrow> lws_hdr_simple_ptr hp WSI_TOKEN_VERSION;
         off \<leftarrow> ptr;
         v \<leftarrow> c_string_at hp off;
         Some (hp\<lparr>spec_revision := of_int (atoi v)\<rparr>)
       }
     }"

definition set_parsing_complete :: "hp \<Rightarrow> (int \<times> hp) option" where
  "set_parsing_complete hp =
     (if ues hp \<noteq> URIES_IDLE then parse_forbid hp
      else do {
        upgrade \<leftarrow> lws_hdr_total_length hp WSI_TOKEN_UPGRADE;
        hp \<leftarrow> (if upgrade \<noteq> 0 then read_version hp else Some hp);
        Some (0, hp\<lparr>parser_state := WSI_PARSING_COMPLETE, hdr_completed := True\<rparr>)
      })"

subsection \<open>Cleaning the URI\<close>

text \<open>
  What a part of the URI processing says about the character: go on with it (\<open>enc\<close>: it was
  percent-encoded), or swallow it, or refuse it with a status 403, or drop the connection, or leave
  because there is no fragment left.
\<close>

datatype uri_step =
    U_char byte bool hp
  | U_swallow hp
  | U_forbid hp
  | U_fail hp
  | U_excessive hp

definition uri_unescape :: "byte \<Rightarrow> hp \<Rightarrow> uri_step" where
  "uri_unescape c hp =
     (case ues hp of
        URIES_IDLE \<Rightarrow>
          if c = of_char CHR ''%'' then U_swallow (hp\<lparr>ues := URIES_SEEN_PERCENT\<rparr>) else U_char c False hp
      | URIES_SEEN_PERCENT \<Rightarrow>
          if char_to_hex c < 0 then U_forbid hp
          else U_swallow (hp\<lparr>esc_stash := c, ues := URIES_SEEN_PERCENT_H1\<rparr>)
      | URIES_SEEN_PERCENT_H1 \<Rightarrow>
          if char_to_hex c < 0 then U_forbid hp
          else U_char (push_bit 4 (of_int (char_to_hex (esc_stash hp))) OR of_int (char_to_hex c)) True
                 (hp\<lparr>ues := URIES_IDLE\<rparr>))"

text \<open>
  Back up one directory level: the loop takes bytes off the end of the fragment until it took a slash
  or one byte is left.
\<close>

function uri_back_loop :: "hp \<Rightarrow> nat \<Rightarrow> nat \<Rightarrow> (nat \<times> nat) option" where
  "uri_back_loop hp pos len =
     (if pos = 0 \<or> len = 0 then None
      else if 1 < len - 1 then do {
        c \<leftarrow> data_at hp (pos - 1);
        if c \<noteq> of_char CHR ''/'' then uri_back_loop hp (pos - 1) (len - 1) else Some (pos - 1, len - 1)
      }
      else Some (pos - 1, len - 1))"
  by pat_completeness auto
termination by (relation "measure (\<lambda>(hp, pos, len). len)") auto

declare uri_back_loop.simps [simp del]

definition uri_back_up :: "hp \<Rightarrow> hp option" where
  "uri_back_up hp =
     do {
       f \<leftarrow> frag_at hp (ah_nfrag hp);
       if 2 < f_len f then do {
         assert_opt (0 < ah_pos hp);
         (pos, len) \<leftarrow> uri_back_loop hp (ah_pos hp - 1) (f_len f - 1);
         set_frag (ah_nfrag hp) (f\<lparr>f_len := len\<rparr>) (hp\<lparr>ah_pos := pos\<rparr>)
       }
       else Some hp
     }"

definition uri_next_arg :: "hp \<Rightarrow> uri_step option" where
  "uri_next_arg hp =
     do {
       f \<leftarrow> frag_at hp (ah_nfrag hp);
       hp \<leftarrow> set_frag (ah_nfrag hp) ((dec_len f)\<lparr>f_nfrag := ah_nfrag hp + 1\<rparr>) hp;
       hp \<leftarrow> Some (hp\<lparr>ah_nfrag := ah_nfrag hp + 1\<rparr>);
       if length (ah_frags hp) \<le> ah_nfrag hp then Some (U_excessive hp)
       else do {
         hp \<leftarrow> new_frag (hp\<lparr>post_literal_equal := False\<rparr>);
         Some (U_swallow hp)
       }
     }"

definition uri_idle :: "hp_env \<Rightarrow> byte \<Rightarrow> bool \<Rightarrow> hp \<Rightarrow> uri_step option" where
  "uri_idle env c enc hp =
     (if c = 0 then Some (U_fail hp)
      else if (c = of_char CHR ''&'' \<or> c = of_char CHR '';'') \<and> \<not> enc then do {
        (r, hp) \<leftarrow> issue_char env c hp;
        if r < 0 then Some (U_fail hp)
        else uri_next_arg hp
      }
      else do {
        args \<leftarrow> index_at hp WSI_TOKEN_HTTP_URI_ARGS;
        c \<leftarrow> Some (if c = of_char CHR ''='' \<and> enc \<and> args \<noteq> 0 \<and> \<not> post_literal_equal hp
                   then of_char CHR ''_'' else c);
        hp \<leftarrow> Some (if c = of_char CHR ''='' \<and> \<not> enc then hp\<lparr>post_literal_equal := True\<rparr> else hp);
        c \<leftarrow> Some (if c = of_char CHR ''+'' \<and> \<not> enc then 32 else c);
        hp \<leftarrow> Some (if c = of_char CHR ''/'' \<and> args = 0 then hp\<lparr>ups := URIPS_SEEN_SLASH\<rparr> else hp);
        Some (U_char c enc hp)
      })"

definition uri_path :: "hp_env \<Rightarrow> byte \<Rightarrow> bool \<Rightarrow> hp \<Rightarrow> uri_step option" where
  "uri_path env c enc hp =
     (case ups hp of
        URIPS_IDLE \<Rightarrow> uri_idle env c enc hp
      | URIPS_SEEN_SLASH \<Rightarrow>
          if c = of_char CHR ''/'' then Some (U_swallow hp)
          else if c = of_char CHR ''.'' then Some (U_swallow (hp\<lparr>ups := URIPS_SEEN_SLASH_DOT\<rparr>))
          else Some (U_char c enc (hp\<lparr>ups := URIPS_IDLE\<rparr>))
      | URIPS_SEEN_SLASH_DOT \<Rightarrow>
          if c = of_char CHR ''.'' then Some (U_swallow (hp\<lparr>ups := URIPS_SEEN_SLASH_DOT_DOT\<rparr>))
          else if c = of_char CHR ''/'' then Some (U_swallow (hp\<lparr>ups := URIPS_SEEN_SLASH\<rparr>))
          else do {
            (r, hp) \<leftarrow> issue_char env (of_char CHR ''.'') (hp\<lparr>ups := URIPS_IDLE\<rparr>);
            Some (if r < 0 then U_fail hp else U_char c enc hp)
          }
      | URIPS_SEEN_SLASH_DOT_DOT \<Rightarrow>
          if c = of_char CHR ''/'' \<or> c = of_char CHR ''?'' then do {
            hp \<leftarrow> uri_back_up hp;
            f \<leftarrow> frag_at hp (ah_nfrag hp);
            hp \<leftarrow> Some (hp\<lparr>ups := URIPS_SEEN_SLASH\<rparr>);
            Some (if 1 < f_len f then U_char c enc hp else U_swallow hp)
          }
          else do {
            (r, hp) \<leftarrow> issue_char env (of_char CHR ''.'') hp;
            if r < 0 then Some (U_fail hp)
            else do {
              (r, hp) \<leftarrow> issue_char env (of_char CHR ''.'') hp;
              Some (if r < 0 then U_fail hp else U_char c enc (hp\<lparr>ups := URIPS_IDLE\<rparr>))
            }
          })"

definition uri_first_arg :: "hp \<Rightarrow> uri_step option" where
  "uri_first_arg hp =
     (let hp = hp\<lparr>ah_nfrag := ah_nfrag hp + 1\<rparr> in
      if length (ah_frags hp) \<le> ah_nfrag hp then Some (U_excessive hp)
      else do {
        hp \<leftarrow> new_frag hp;
        hp \<leftarrow> set_index WSI_TOKEN_HTTP_URI_ARGS (ah_nfrag hp) (hp\<lparr>post_literal_equal := False\<rparr>);
        Some (U_swallow (hp\<lparr>ups := URIPS_IDLE\<rparr>))
      })"

definition uri_start_args :: "hp_env \<Rightarrow> byte \<Rightarrow> bool \<Rightarrow> hp \<Rightarrow> uri_step option" where
  "uri_start_args env c enc hp =
     do {
       args \<leftarrow> index_at hp WSI_TOKEN_HTTP_URI_ARGS;
       if c = of_char CHR ''?'' \<and> \<not> enc \<and> args = 0 then
         if ues hp \<noteq> URIES_IDLE then Some (U_forbid hp)
         else do {
           (r, hp) \<leftarrow> issue_char env 0 hp;
           if r < 0 then Some (U_fail hp)
           else uri_first_arg hp
         }
       else Some (U_char c enc hp)
     }"

subsection \<open>The parser\<close>

definition parse_swallow :: "hp \<Rightarrow> (int \<times> hp) option" where
  "parse_swallow hp =
     (if parser_state hp = WSI_TOKEN_CHALLENGE then set_parsing_complete hp else Some (0, hp))"

definition parse_check_eol :: "hp_env \<Rightarrow> byte \<Rightarrow> hp \<Rightarrow> (int \<times> hp) option" where
  "parse_check_eol env c hp =
     (let eol = (parser_state hp \<noteq> WSI_TOKEN_CHALLENGE \<and> c = 0x0d) in
      if eol \<and> ues hp \<noteq> URIES_IDLE then parse_forbid hp
      else do {
        (c, hp) \<leftarrow> Some (if eol then (0, hp\<lparr>parser_state := WSI_TOKEN_SKIPPING_SAW_CR\<rparr>) else (c, hp));
        (n, hp) \<leftarrow> issue_char env c hp;
        if n < 0 then Some (-1, hp)
        else parse_swallow (if 0 < n then hp\<lparr>parser_state := WSI_TOKEN_SKIPPING\<rparr> else hp)
      })"

definition parse_uri_end :: "hp_env \<Rightarrow> hp \<Rightarrow> (int \<times> hp) option" where
  "parse_uri_end env hp =
     do {
       f \<leftarrow> frag_at hp (ah_nfrag hp);
       (r, hp) \<leftarrow> (if f_len f = 0 then issue_char env (of_char CHR ''/'') hp else Some (0, hp));
       if r < 0 then Some (-1, hp)
       else do {
         hp \<leftarrow> (if ups hp = URIPS_SEEN_SLASH_DOT_DOT then uri_back_up hp else Some hp);
         (r, hp) \<leftarrow> issue_char env 0 hp;
         if r < 0 then Some (-1, hp)
         else parse_start_fragment env (hp\<lparr>parser_state := WSI_TOKEN_HTTP\<rparr>)
       }
     }"

definition uri_then :: "hp_env \<Rightarrow> uri_step \<Rightarrow> (byte \<Rightarrow> bool \<Rightarrow> hp \<Rightarrow> (int \<times> hp) option) \<Rightarrow> (int \<times> hp) option" where
  "uri_then env u k =
     (case u of
        U_char c enc hp \<Rightarrow> k c enc hp
      | U_swallow hp \<Rightarrow> parse_swallow hp
      | U_forbid hp \<Rightarrow> parse_forbid hp
      | U_fail hp \<Rightarrow> Some (-1, hp)
      | U_excessive hp \<Rightarrow> parse_excessive env hp)"

definition parse_uri_char :: "hp_env \<Rightarrow> byte \<Rightarrow> hp \<Rightarrow> (int \<times> hp) option" where
  "parse_uri_char env c hp =
     uri_then env (uri_unescape c hp) (\<lambda>c enc hp.
       do {
         u \<leftarrow> uri_path env c enc hp;
         uri_then env u (\<lambda>c enc hp.
           do {
             u \<leftarrow> uri_start_args env c enc hp;
             uri_then env u (\<lambda>c enc hp. parse_check_eol env c hp)
           })
       })"

definition parse_value :: "hp_env \<Rightarrow> byte \<Rightarrow> hp \<Rightarrow> (int \<times> hp) option" where
  "parse_value env c hp =
     do {
       n \<leftarrow> index_at hp (parser_state hp);
       f \<leftarrow> frag_at hp n;
       if f_len f = 0 \<and> c = 32 then Some (0, hp)
       else if parser_state hp \<notin> set methods then parse_check_eol env c hp
       else if c = 32 then parse_uri_end env hp
       else parse_uri_char env c hp
     }"

fun any_index :: "hp \<Rightarrow> nat list \<Rightarrow> bool option" where
  "any_index hp [] = Some False"
| "any_index hp (m # ms) = do { n \<leftarrow> index_at hp m; if n \<noteq> 0 then Some True else any_index hp ms }"

definition parse_known_name :: "hp_env \<Rightarrow> nat \<Rightarrow> hp \<Rightarrow> (int \<times> hp) option" where
  "parse_known_name env n hp =
     do {
       dup \<leftarrow> any_index hp (filter (\<lambda>m. m = n) methods);
       if dup then Some (-1, hp)
       else do {
         n \<leftarrow> Some (if n = WSI_TOKEN_SWORIGIN then WSI_TOKEN_ORIGIN else n);
         hp \<leftarrow> Some (hp\<lparr>parser_state := WSI_TOKEN_GET_URI + n\<rparr>);
         limit \<leftarrow> (case token_limits env of
                     Some ls \<Rightarrow> if n < length ls then Some (ls ! n) else None
                   | None \<Rightarrow> Some (max_http_header_data env));
         hp \<leftarrow> Some (hp\<lparr>current_token_limit := limit\<rparr>);
         if n = WSI_TOKEN_CHALLENGE then set_parsing_complete hp else parse_start_fragment env hp
       }
     }"

definition parse_name_part :: "hp_env \<Rightarrow> byte \<Rightarrow> hp \<Rightarrow> (int \<times> hp) option" where
  "parse_name_part env c hp =
     do {
       assert_opt (0 \<le> lextable_pos hp);
       i \<leftarrow> lextable_decode (nat (lextable_pos hp)) c;
       hp \<leftarrow> Some (hp\<lparr>lextable_pos := i\<rparr>);
       if i < 0 \<and> http_serving env then do {
         had \<leftarrow> any_index hp methods;
         if had then Some (0, hp\<lparr>parser_state := WSI_TOKEN_SKIPPING\<rparr>) else parse_forbid hp
       }
       else if i < 0 then Some (0, hp\<lparr>parser_state := WSI_TOKEN_SKIPPING\<rparr>)
       else do {
         assert_opt (nat i < length lextable);
         if lextable_terminal (nat i) then do {
           assert_opt (nat i + 1 < length lextable);
           parse_known_name env (lextable_token (nat i)) hp
         }
         else Some (0, hp)
       }
     }"

definition lws_parse :: "hp_env \<Rightarrow> byte \<Rightarrow> hp \<Rightarrow> (int \<times> hp) option" where
  "lws_parse env c hp =
     (if parser_state hp = WSI_TOKEN_NAME_PART then parse_name_part env c hp
      else if parser_state hp = WSI_TOKEN_SKIPPING then
        Some (0, if c = 0x0d then hp\<lparr>parser_state := WSI_TOKEN_SKIPPING_SAW_CR\<rparr> else hp)
      else if parser_state hp = WSI_TOKEN_SKIPPING_SAW_CR then
        (if ues hp \<noteq> URIES_IDLE then parse_forbid hp
         else if c = 0x0a then Some (0, hp\<lparr>parser_state := WSI_TOKEN_NAME_PART, lextable_pos := 0\<rparr>)
         else Some (0, hp\<lparr>parser_state := WSI_TOKEN_SKIPPING\<rparr>))
      else if parser_state hp = WSI_PARSING_COMPLETE then Some (0, hp)
      else parse_value env c hp)"

text \<open>
  A buffer of received bytes, as \<^verbatim>\<open>lws_handshake_server\<close> feeds it: until the parser fails or has seen the
  end of the headers. The rest of the buffer is returned.
\<close>

fun parse_bytes :: "hp_env \<Rightarrow> byte list \<Rightarrow> hp \<Rightarrow> (int \<times> hp \<times> byte list) option" where
  "parse_bytes env [] hp = Some (0, hp, [])"
| "parse_bytes env (c # cs) hp =
     do {
       (r, hp) \<leftarrow> lws_parse env c hp;
       if r \<noteq> 0 then Some (-1, hp, cs)
       else if parser_state hp = WSI_PARSING_COMPLETE then Some (0, hp, cs)
       else parse_bytes env cs hp
     }"

end
