(* ===== verification/Http_Table.thy ===== *)
theory Http_Table
  imports Http_Parse
begin

text \<open>
  The invariant of the header table (\<^verbatim>\<open>struct allocated_headers\<close>): the data, the fragments and the
  chains stay inside of their arrays, and every stored value ends with a zero byte inside of the data, up
  to the one that is being received. What each operation of the table does with it.
\<close>

subsection \<open>Checked access\<close>

lemma returns_access [simp]:
  "returns (frag_at hp i) Q \<longleftrightarrow> i < length (ah_frags hp) \<and> Q (ah_frags hp ! i)"
  "returns (set_frag i f hp) R \<longleftrightarrow> i < length (ah_frags hp) \<and> R (hp\<lparr>ah_frags := (ah_frags hp)[i := f]\<rparr>)"
  "returns (index_at hp t) S \<longleftrightarrow> t < length (ah_frag_index hp) \<and> S (ah_frag_index hp ! t)"
  "returns (set_index t n hp) R \<longleftrightarrow>
     t < length (ah_frag_index hp) \<and> R (hp\<lparr>ah_frag_index := (ah_frag_index hp)[t := n]\<rparr>)"
  "returns (data_at hp i) T \<longleftrightarrow> i < length (ah_data hp) \<and> T (ah_data hp ! i)"
  "returns (put_data c hp) R \<longleftrightarrow> ah_pos hp < length (ah_data hp) \<and>
     R (hp\<lparr>ah_data := (ah_data hp)[ah_pos hp := c], ah_pos := ah_pos hp + 1\<rparr>)"
  by (auto simp: frag_at_def set_frag_def index_at_def set_index_def data_at_def put_data_def)

subsection \<open>The invariant\<close>

definition env_ok :: "hp_env \<Rightarrow> bool" where
  "env_ok env \<longleftrightarrow> 0 < max_http_header_data env \<and> max_http_header_data env < 65536 \<and>
     (case token_limits env of None \<Rightarrow> True | Some ls \<Rightarrow> length ls = WSI_TOKEN_COUNT \<and> (\<forall>l \<in> set ls. 0 < l))"

definition frag_ok :: "hp \<Rightarrow> nat \<Rightarrow> bool" where
  "frag_ok hp i \<longleftrightarrow>
     f_offset (ah_frags hp ! i) + f_len (ah_frags hp ! i) \<le> ah_pos hp \<and> f_len (ah_frags hp ! i) < 65536 \<and>
     (f_nfrag (ah_frags hp ! i) = 0 \<or>
      i < f_nfrag (ah_frags hp ! i) \<and> f_nfrag (ah_frags hp ! i) \<le> ah_nfrag hp)"

definition table_inv :: "hp_env \<Rightarrow> hp \<Rightarrow> bool" where
  "table_inv env hp \<longleftrightarrow>
     length (ah_data hp) = max_http_header_data env \<and> length (ah_data hp) < 65536 \<and> ah_pos hp \<le> max_http_header_data env \<and>
     length (ah_frags hp) = 172 \<and> ah_nfrag hp < 172 \<and>
     length (ah_frag_index hp) = WSI_TOKEN_COUNT \<and> (\<forall>t < WSI_TOKEN_COUNT. ah_frag_index hp ! t \<le> ah_nfrag hp) \<and>
     (\<forall>i \<in> {1..ah_nfrag hp}. frag_ok hp i)"

definition terminated :: "hp \<Rightarrow> nat \<Rightarrow> nat \<Rightarrow> bool" where
  "terminated hp base i \<longleftrightarrow> (\<exists>j < base. f_offset (ah_frags hp ! i) \<le> j \<and> ah_data hp ! j = 0)"

definition closed_lines :: "hp \<Rightarrow> bool" where
  "closed_lines hp \<longleftrightarrow> (\<forall>i \<in> {1..ah_nfrag hp}. terminated hp (ah_pos hp) i)"

definition open_line :: "nat \<Rightarrow> hp \<Rightarrow> bool" where
  "open_line base hp \<longleftrightarrow>
     1 \<le> ah_nfrag hp \<and> base \<le> f_offset (ah_frags hp ! ah_nfrag hp) \<and>
     f_len (ah_frags hp ! ah_nfrag hp) \<le> current_token_limit hp \<and> 0 < current_token_limit hp \<and>
     (\<forall>i \<in> {1..ah_nfrag hp}. terminated hp base i \<or> base \<le> f_offset (ah_frags hp ! i)) \<and>
     (\<forall>i \<in> {1..<ah_nfrag hp}. f_offset (ah_frags hp ! i) + f_len (ah_frags hp ! i) \<le>
        f_offset (ah_frags hp ! ah_nfrag hp))"

definition open_inv :: "hp_env \<Rightarrow> hp \<Rightarrow> bool" where
  "open_inv env hp \<longleftrightarrow> table_inv env hp \<and> (\<exists>base. open_line base hp)"

lemmas inv_defs = table_inv_def open_line_def closed_lines_def terminated_def frag_ok_def

subsection \<open>Issuing a character\<close>

lemma inc_len_simps [simp]:
  "f_offset (inc_len f) = f_offset f" "f_nfrag (inc_len f) = f_nfrag f" "f_len (inc_len f) = (f_len f + 1) mod 65536"
  "f_offset (dec_len f) = f_offset f" "f_nfrag (dec_len f) = f_nfrag f" "f_len (dec_len f) = (f_len f + 65535) mod 65536"
  by (simp_all add: inc_len_def dec_len_def)

lemma put_data_inv:
  assumes "table_inv env hp" and "open_line base hp" and "ah_pos hp < max_http_header_data env"
    and "hp' = hp\<lparr>ah_data := (ah_data hp)[ah_pos hp := c], ah_pos := ah_pos hp + 1\<rparr>"
  shows "table_inv env hp'" and "open_line base hp'" and "c = 0 \<Longrightarrow> closed_lines hp'"
proof -
  have frag: "frag_ok hp i" if "i \<in> {1..ah_nfrag hp}" for i using assms(1) that by (auto simp: table_inv_def)
  have base: "base \<le> ah_pos hp"
    using frag [of "ah_nfrag hp"] assms(2) by (simp add: frag_ok_def open_line_def)
  have le: "f_offset (ah_frags hp ! i) \<le> ah_pos hp" if "i \<in> {1..ah_nfrag hp}" for i
    using frag [OF that] by (simp add: frag_ok_def)
  show "table_inv env hp'"
    using assms frag by (fastforce simp: table_inv_def frag_ok_def)
  have same: "terminated hp' b i" if "terminated hp b i" "b \<le> ah_pos hp" for b i
    using that assms(4) by (force simp: terminated_def)
  show "open_line base hp'"
    using assms(2,4) same base by (auto simp: open_line_def)
  show "closed_lines hp'" if "c = 0"
    using le assms(1,3,4) that by (fastforce simp: closed_lines_def terminated_def table_inv_def)
qed

definition keeps :: "hp \<Rightarrow> hp \<Rightarrow> bool" where
  "keeps hp hp' \<longleftrightarrow> ah_nfrag hp' = ah_nfrag hp \<and> ah_frag_index hp' = ah_frag_index hp \<and>
     parser_state hp' = parser_state hp \<and> current_token_limit hp' = current_token_limit hp \<and>
     lextable_pos hp' = lextable_pos hp \<and> ups hp' = ups hp \<and> ues hp' = ues hp \<and>
     post_literal_equal hp' = post_literal_equal hp"

lemma keeps_refl [simp]: "keeps hp hp"
  by (simp add: keeps_def)

lemma keeps_trans: "keeps a b \<Longrightarrow> keeps b c \<Longrightarrow> keeps a c"
  by (simp add: keeps_def)

lemma set_len_inv:
  assumes "table_inv env hp" and "open_line base hp" and "i = ah_nfrag hp"
    and "f_offset f = f_offset (ah_frags hp ! i)" and "f_nfrag f = f_nfrag (ah_frags hp ! i)"
    and "f_offset f + f_len f \<le> ah_pos hp" and "f_len f < 65536" and "f_len f \<le> current_token_limit hp"
    and "hp' = hp\<lparr>ah_frags := (ah_frags hp)[i := f]\<rparr>"
  shows "table_inv env hp'" and "open_line base hp'" and "closed_lines hp \<Longrightarrow> closed_lines hp'"
proof -
  have len: "i < length (ah_frags hp)" using assms(1,3) by (simp add: table_inv_def)
  have same: "f_offset (ah_frags hp' ! j) = f_offset (ah_frags hp ! j)"
    "f_nfrag (ah_frags hp' ! j) = f_nfrag (ah_frags hp ! j)" for j
    using assms(4,5,9) len by (cases "j = i"; simp)+
  have ok: "frag_ok hp j" if "j \<in> {1..ah_nfrag hp}" for j using assms(1) that by (auto simp: table_inv_def)
  have "frag_ok hp' j" if "j \<in> {1..ah_nfrag hp}" for j
  proof (cases "j = i")
    case True
    then show ?thesis using ok [OF that] same [of j] assms len by (simp add: frag_ok_def)
  next
    case False
    then show ?thesis using ok [OF that] assms(9) by (simp add: frag_ok_def)
  qed
  then show "table_inv env hp'" using assms(1,9) by (simp add: table_inv_def)
  have nul: "terminated hp' b j = terminated hp b j" for b j using same assms(9) by (simp add: terminated_def)
  show "open_line base hp'" using assms(2,3,4,8,9) same nul len by (simp add: open_line_def)
  show "closed_lines hp \<Longrightarrow> closed_lines hp'" using nul assms(9) by (simp add: closed_lines_def)
qed

lemma issue_char_inv:
  assumes "table_inv env hp" and "open_line base hp"
  shows "returns (issue_char env c hp) (\<lambda>(r, hp'). r = -1 \<or>
     r \<in> {0, 1} \<and> table_inv env hp' \<and> open_line base hp' \<and> (c = 0 \<or> r = 1 \<longrightarrow> closed_lines hp') \<and> keeps hp hp' \<and>
       (c \<noteq> 0 \<longrightarrow> 0 < f_len (ah_frags hp' ! ah_nfrag hp')))"
proof (cases "ah_pos hp < max_http_header_data env")
  case False
  then have "ah_pos hp = max_http_header_data env" using assms(1) by (simp add: table_inv_def)
  then show ?thesis by (simp add: issue_char_def lws_pos_in_bounds_def)
next
  case True
  let ?f = "ah_frags hp ! ah_nfrag hp"
  let ?put = "\<lambda>c. hp\<lparr>ah_data := (ah_data hp)[ah_pos hp := c], ah_pos := ah_pos hp + 1\<rparr>"
  have bound: "ah_nfrag hp < length (ah_frags hp)" "ah_pos hp < length (ah_data hp)"
    using assms(1) True by (simp_all add: table_inv_def)
  have ok: "frag_ok hp (ah_nfrag hp)" using assms by (auto simp: table_inv_def open_line_def)
  have limit: "f_len ?f \<le> current_token_limit hp" using assms(2) by (simp add: open_line_def)
  note put = put_data_inv [OF assms True refl]
  have put': "table_inv env (?put c)" "open_line base (?put c)" "c = 0 \<Longrightarrow> closed_lines (?put c)" for c
    using put [of c] by simp_all
  show ?thesis
  proof (cases "f_len ?f < current_token_limit hp")
    case less: True
    have step: "table_inv env ((?put c)\<lparr>ah_frags := (ah_frags hp)[ah_nfrag hp := inc_len ?f]\<rparr>)"
      "open_line base ((?put c)\<lparr>ah_frags := (ah_frags hp)[ah_nfrag hp := inc_len ?f]\<rparr>)"
    proof -
      have len: "f_len (inc_len ?f) \<le> f_len ?f + 1" by simp
      have off: "f_offset ?f + f_len ?f \<le> ah_pos hp" using ok by (simp add: frag_ok_def)
      note set = set_len_inv [OF put'(1,2) [of c], of "ah_nfrag hp" "inc_len ?f"]
      show "table_inv env ((?put c)\<lparr>ah_frags := (ah_frags hp)[ah_nfrag hp := inc_len ?f]\<rparr>)"
        "open_line base ((?put c)\<lparr>ah_frags := (ah_frags hp)[ah_nfrag hp := inc_len ?f]\<rparr>)"
        using set(1,2) len off less by auto
    qed
    have "f_len ?f + 1 < 65536" using ok True assms(1) by (simp add: frag_ok_def table_inv_def)
    then show ?thesis
      using True less bound put' step by (simp add: issue_char_def lws_pos_in_bounds_def keeps_def)
  next
    case False
    moreover have "0 < f_len ?f" using False assms(2) by (simp add: open_line_def)
    ultimately show ?thesis
      using True bound put' [of 0] limit by (simp add: issue_char_def lws_pos_in_bounds_def keeps_def)
  qed
qed

subsection \<open>Backing up\<close>

lemma uri_back_loop_returns:
  "0 < len \<Longrightarrow> len \<le> pos \<Longrightarrow> pos \<le> length (ah_data hp) \<Longrightarrow>
   returns (uri_back_loop hp pos len) (\<lambda>(pos', len'). len' < len \<and> pos' + len = pos + len')"
proof (induction hp pos len rule: uri_back_loop.induct)
  case (1 hp pos len)
  show ?case
  proof (cases "1 < len - 1 \<and> ah_data hp ! (pos - 1) \<noteq> of_char CHR ''/''")
    case True
    have "data_at hp (pos - 1) = Some (ah_data hp ! (pos - 1))" using 1(2-4) by (simp add: data_at_def)
    then have "returns (uri_back_loop hp (pos - 1) (len - 1)) (\<lambda>(pos', len'). len' < len - 1 \<and> pos' + (len - 1) = pos - 1 + len')"
      using True 1(2-4) by (intro 1(1)) auto
    then show ?thesis
      using True 1(2-4) by (subst uri_back_loop.simps) (auto simp: data_at_def elim!: returns_mono)
  next
    case False
    then show ?thesis using 1(2-4) by (subst uri_back_loop.simps) (auto simp: data_at_def)
  qed
qed

lemma uri_back_up_inv:
  assumes "table_inv env hp" and "open_line base hp"
  shows "returns (uri_back_up hp) (\<lambda>hp'. table_inv env hp' \<and> open_line base hp' \<and> keeps hp hp')"
proof -
  let ?f = "ah_frags hp ! ah_nfrag hp"
  have bound: "ah_nfrag hp < length (ah_frags hp)" "ah_pos hp \<le> length (ah_data hp)"
    using assms(1) by (simp_all add: table_inv_def)
  have ok: "f_offset ?f + f_len ?f \<le> ah_pos hp" "f_len ?f < 65536"
    using assms by (auto simp: table_inv_def open_line_def frag_ok_def)
  show ?thesis
  proof (cases "2 < f_len ?f")
    case False
    then show ?thesis using assms bound by (simp add: uri_back_up_def)
  next
    case True
    have "table_inv env hp' \<and> open_line base hp' \<and> keeps hp hp'"
      if len: "len < f_len ?f - 1" "pos + (f_len ?f - 1) = ah_pos hp - 1 + len"
        and hp': "hp' = hp\<lparr>ah_pos := pos, ah_frags := (ah_frags hp)[ah_nfrag hp := ?f\<lparr>f_len := len\<rparr>]\<rparr>" for len pos hp'
    proof -
      have pos: "f_offset ?f + len \<le> pos" "pos \<le> ah_pos hp" using len ok True by simp_all
      have frags: "ah_frags hp' ! i = (if i = ah_nfrag hp then ?f\<lparr>f_len := len\<rparr> else ah_frags hp ! i)" for i
        using bound(1) by (simp add: hp')
      have "frag_ok hp' i" if "i \<in> {1..ah_nfrag hp}" for i
      proof -
        have "frag_ok hp i" using assms(1) that by (simp add: table_inv_def)
        moreover have "f_offset (ah_frags hp ! i) + f_len (ah_frags hp ! i) \<le> pos" if "i \<noteq> ah_nfrag hp"
        proof -
        have "i \<in> {1..<ah_nfrag hp}" using that \<open>i \<in> _\<close> by auto
        then have "f_offset (ah_frags hp ! i) + f_len (ah_frags hp ! i) \<le> f_offset ?f"
          using assms(2) unfolding open_line_def by blast
        then show ?thesis using pos(1) by linarith
      qed
        ultimately show ?thesis
          using pos ok(2) len(1) by (cases "i = ah_nfrag hp") (simp_all add: frag_ok_def frags, simp_all add: hp')
      qed
      then have "table_inv env hp'" using assms(1) pos(2) by (simp add: table_inv_def hp')
      moreover have "terminated hp' base i = terminated hp base i" for i
        by (simp add: terminated_def frags) (simp add: hp')
      then have "open_line base hp'"
        using assms(2) len(1) by (simp add: open_line_def frags) (auto simp: hp')
      ultimately show ?thesis by (simp add: keeps_def hp')
    qed
    note result = this [OF _ _ refl]
    have "returns (uri_back_loop hp (ah_pos hp - 1) (f_len ?f - 1))
       (\<lambda>(pos', len'). len' < f_len ?f - 1 \<and> pos' + (f_len ?f - 1) = ah_pos hp - 1 + len')"
      using True ok bound by (intro uri_back_loop_returns) auto
    then show ?thesis
      using True bound(1) ok result by (simp add: uri_back_up_def) (auto elim!: returns_mono)
  qed
qed

subsection \<open>Chains of fragments\<close>

definition chains_ok :: "hp \<Rightarrow> nat \<Rightarrow> bool" where
  "chains_ok hp k \<longleftrightarrow> k < length (ah_frags hp) \<and>
     (\<forall>i \<in> {1..k}. f_nfrag (ah_frags hp ! i) = 0 \<or> i < f_nfrag (ah_frags hp ! i) \<and> f_nfrag (ah_frags hp ! i) \<le> k)"

lemma table_chains: "table_inv env hp \<Longrightarrow> chains_ok hp (ah_nfrag hp)"
  by (auto simp: table_inv_def chains_ok_def frag_ok_def)

lemma chain_link:
  "chains_ok hp k \<Longrightarrow> n \<in> {1..k} \<Longrightarrow> f_nfrag (ah_frags hp ! n) \<noteq> 0 \<Longrightarrow>
     n < f_nfrag (ah_frags hp ! n) \<and> f_nfrag (ah_frags hp ! n) \<le> k"
  unfolding chains_ok_def by (elim conjE, drule (1) bspec) simp

lemma chain_end_returns:
  "chains_ok hp k \<Longrightarrow> n \<in> {1..k} \<Longrightarrow> k < n + fuel \<Longrightarrow>
   returns (chain_end fuel hp n) (\<lambda>e. e \<in> {n..k} \<and> f_nfrag (ah_frags hp ! e) = 0)"
proof (induction fuel arbitrary: n)
  case 0
  then show ?case by simp
next
  case (Suc fuel)
  show ?case
  proof (cases "f_nfrag (ah_frags hp ! n) = 0")
    case True
    then show ?thesis using Suc.prems by (simp add: chains_ok_def)
  next
    case False
    then have link: "n < f_nfrag (ah_frags hp ! n)" "f_nfrag (ah_frags hp ! n) \<le> k"
      using chain_link [OF Suc.prems(1,2)] by simp_all
    show ?thesis
      using False link Suc.prems Suc.IH [of "f_nfrag (ah_frags hp ! n)"]
      by (auto simp: chains_ok_def elim!: returns_mono)
  qed
qed

lemma total_length_returns:
  "chains_ok hp k \<Longrightarrow> n \<in> {1..k} \<Longrightarrow> k < n + fuel \<Longrightarrow> returns (total_length_loop fuel hp n) (\<lambda>_. True)"
proof (induction fuel arbitrary: n)
  case 0
  then show ?case by simp
next
  case (Suc fuel)
  show ?case
  proof (cases "f_nfrag (ah_frags hp ! n) = 0")
    case True
    then show ?thesis using Suc.prems by (simp add: chains_ok_def)
  next
    case False
    then have link: "n < f_nfrag (ah_frags hp ! n)" "f_nfrag (ah_frags hp ! n) \<le> k"
      using chain_link [OF Suc.prems(1,2)] by simp_all
    show ?thesis
      using False link Suc.prems Suc.IH [of "f_nfrag (ah_frags hp ! n)"]
      by (auto simp: chains_ok_def elim!: returns_mono)
  qed
qed

lemma lws_hdr_total_length_returns:
  assumes "table_inv env hp" and "h < WSI_TOKEN_COUNT"
  shows "returns (lws_hdr_total_length hp h) (\<lambda>n. n \<noteq> 0 \<longrightarrow> ah_frag_index hp ! h \<in> {1..ah_nfrag hp})"
proof -
  have index: "h < length (ah_frag_index hp)" "ah_frag_index hp ! h \<le> ah_nfrag hp"
    using assms by (auto simp: table_inv_def)
  show ?thesis
  proof (cases "ah_frag_index hp ! h = 0")
    case True
    then show ?thesis using index by (simp add: lws_hdr_total_length_def)
  next
    case False
    then have "returns (total_length_loop (length (ah_frags hp)) hp (ah_frag_index hp ! h)) (\<lambda>_. True)"
      using index assms(1) by (intro total_length_returns [OF table_chains]) (auto simp: table_inv_def)
    then show ?thesis using False index by (auto simp: lws_hdr_total_length_def elim: returns_mono)
  qed
qed

subsection \<open>New fragments\<close>

definition fresh :: "hp \<Rightarrow> fragment" where
  "fresh hp = \<lparr>f_offset = ah_pos hp, f_len = 0, f_nfrag = 0\<rparr>"

lemma fresh_simps [simp]: "f_offset (fresh hp) = ah_pos hp" "f_len (fresh hp) = 0" "f_nfrag (fresh hp) = 0"
  by (simp_all add: fresh_def)

text \<open>
  After a fragment was added: the older ones keep their places, and at most one of them was
  linked to the new one.
\<close>

lemma new_frag_inv:
  assumes inv: "table_inv env hp" and room: "Suc (ah_nfrag hp) < 172"
    and lines: "\<forall>i \<in> {1..ah_nfrag hp}. terminated hp base i \<or> base \<le> f_offset (ah_frags hp ! i)" "base \<le> ah_pos hp"
    and limit: "0 < current_token_limit hp'"
    and hp': "ah_nfrag hp' = Suc (ah_nfrag hp)" "ah_pos hp' = ah_pos hp" "ah_data hp' = ah_data hp"
      "length (ah_frags hp') = 172" "ah_frags hp' ! Suc (ah_nfrag hp) = fresh hp"
    and index: "length (ah_frag_index hp') = WSI_TOKEN_COUNT" "\<forall>t < WSI_TOKEN_COUNT. ah_frag_index hp' ! t \<le> Suc (ah_nfrag hp)"
    and old: "\<And>i. i \<in> {1..ah_nfrag hp} \<Longrightarrow> f_offset (ah_frags hp' ! i) = f_offset (ah_frags hp ! i) \<and>
       f_len (ah_frags hp' ! i) \<le> f_len (ah_frags hp ! i) \<and>
       f_nfrag (ah_frags hp' ! i) \<in> {f_nfrag (ah_frags hp ! i), Suc (ah_nfrag hp)}"
  shows "table_inv env hp'" and "open_line base hp'"
proof -
  have frag: "frag_ok hp i" if "i \<in> {1..ah_nfrag hp}" for i using inv that by (simp add: table_inv_def)
  have split: "i = Suc (ah_nfrag hp) \<or> i \<in> {1..ah_nfrag hp}" if "i \<in> {1..ah_nfrag hp'}" for i
    using that hp'(1) by auto
  have "frag_ok hp' i" if "i \<in> {1..ah_nfrag hp'}" for i
    using split [OF that]
  proof
    assume "i = Suc (ah_nfrag hp)"
    then show ?thesis using hp' by (simp add: frag_ok_def)
  next
    assume "i \<in> {1..ah_nfrag hp}"
    then show ?thesis using frag [of i] old [of i] hp' by (auto simp: frag_ok_def)
  qed
  then show "table_inv env hp'" using inv room hp' index by (simp add: table_inv_def)
  have "terminated hp' base i \<or> base \<le> f_offset (ah_frags hp' ! i)" if "i \<in> {1..ah_nfrag hp'}" for i
    using split [OF that]
  proof
    assume "i = Suc (ah_nfrag hp)"
    then show ?thesis using hp' lines(2) by simp
  next
    assume i: "i \<in> {1..ah_nfrag hp}"
    then have "terminated hp base i \<or> base \<le> f_offset (ah_frags hp ! i)" using lines(1) by blast
    then show ?thesis using old [OF i] hp'(3) by (simp add: terminated_def)
  qed
  moreover have "f_offset (ah_frags hp' ! i) + f_len (ah_frags hp' ! i) \<le> ah_pos hp" if "i \<in> {1..<ah_nfrag hp'}" for i
  proof -
    have "i \<in> {1..ah_nfrag hp}" using that hp'(1) by auto
    then show ?thesis using frag [of i] old [of i] by (fastforce simp: frag_ok_def)
  qed
  ultimately show "open_line base hp'" using hp' lines(2) limit by (simp add: open_line_def)
qed

lemma closed_to_lines:
  "closed_lines hp \<Longrightarrow> \<forall>i \<in> {1..ah_nfrag hp}. terminated hp (ah_pos hp) i \<or> ah_pos hp \<le> f_offset (ah_frags hp ! i)"
  by (simp add: closed_lines_def)

lemma open_base: "table_inv env hp \<Longrightarrow> open_line base hp \<Longrightarrow> base \<le> ah_pos hp"
proof -
  assume "table_inv env hp" "open_line base hp"
  then have "frag_ok hp (ah_nfrag hp)" "base \<le> f_offset (ah_frags hp ! ah_nfrag hp)"
    by (auto simp: table_inv_def open_line_def)
  then show ?thesis by (simp add: frag_ok_def)
qed

lemma parse_start_fragment_inv:
  assumes inv: "table_inv env hp" "closed_lines hp" and limit: "0 < current_token_limit hp"
    and state: "parser_state hp < WSI_TOKEN_COUNT"
  shows "returns (parse_start_fragment env hp) (\<lambda>(r, hp'). r = 0 \<longrightarrow>
     open_inv env hp' \<and> parser_state hp' = parser_state hp)"
proof (cases "Suc (ah_nfrag hp) = 172")
  case True
  then show ?thesis using inv(1) by (simp add: parse_start_fragment_def parse_excessive_def table_inv_def)
next
  case False
  let ?n = "Suc (ah_nfrag hp)" and ?i = "ah_frag_index hp ! parser_state hp"
  let ?hp = "hp\<lparr>ah_nfrag := ?n, ah_frags := (ah_frags hp)[?n := fresh hp]\<rparr>"
  have sizes: "length (ah_frags hp) = 172" "length (ah_frag_index hp) = WSI_TOKEN_COUNT" "?n < 172"
    "\<forall>t < WSI_TOKEN_COUNT. ah_frag_index hp ! t \<le> ah_nfrag hp"
    using inv(1) False by (simp_all add: table_inv_def)
  note new = new_frag_inv [OF inv(1) sizes(3) closed_to_lines [OF inv(2)] order_refl]
  show ?thesis
  proof (cases "?i = 0")
    case True
    let ?hp1 = "?hp\<lparr>ah_frag_index := (ah_frag_index hp)[parser_state hp := ?n]\<rparr>"
    have "\<forall>t < WSI_TOKEN_COUNT. ah_frag_index ?hp1 ! t \<le> ?n"
      using sizes state by (auto simp: nth_list_update le_SucI)
    then have "table_inv env ?hp1" "open_line (ah_pos hp) ?hp1"
      using sizes limit by (auto intro!: new)
    then show ?thesis using False True sizes state
      by (simp add: parse_start_fragment_def parse_excessive_def new_frag_def fresh_def) (auto simp: open_inv_def)
  next
    case chain: False
    have "chains_ok ?hp (ah_nfrag hp)"
      using table_chains [OF inv(1)] by (simp add: chains_ok_def)
    then have "returns (chain_end (length (ah_frags hp)) ?hp ?i)
       (\<lambda>e. e \<in> {?i..ah_nfrag hp} \<and> f_nfrag (ah_frags ?hp ! e) = 0)"
      using sizes state chain by (intro chain_end_returns) auto
    moreover have "returns (issue_char env 32 hp2) (\<lambda>x. 0 \<le> fst x \<longrightarrow>
       open_inv env (snd x) \<and> parser_state (snd x) = parser_state hp)"
      if e: "e \<in> {?i..ah_nfrag hp}" and hp2: "hp2 = ?hp\<lparr>ah_frags := (ah_frags ?hp)[e := (ah_frags hp ! e)\<lparr>f_nfrag := ?n\<rparr>]\<rparr>" for e hp2
    proof -
      have frags: "ah_frags hp2 ! i = (if i = e then (ah_frags hp ! e)\<lparr>f_nfrag := ?n\<rparr> else ah_frags hp ! i)"
        if "i \<in> {1..ah_nfrag hp}" for i
        using e that sizes by (auto simp: hp2 nth_list_update)
      have last: "ah_frags hp2 ! ?n = fresh hp" using e sizes by (simp add: hp2)
      have rest: "0 < current_token_limit hp2" "ah_nfrag hp2 = ?n" "ah_pos hp2 = ah_pos hp" "ah_data hp2 = ah_data hp"
        "length (ah_frags hp2) = 172" "length (ah_frag_index hp2) = WSI_TOKEN_COUNT"
        "\<forall>t < WSI_TOKEN_COUNT. ah_frag_index hp2 ! t \<le> ?n"
        using sizes limit by (auto simp: hp2 le_SucI)
      have "table_inv env hp2" "open_line (ah_pos hp) hp2"
        using frags by (auto intro!: new rest last)
      from issue_char_inv [OF this] show ?thesis
        by (rule returns_mono) (auto simp: open_inv_def keeps_def hp2)
    qed
    note issue = this [OF _ refl]
    have e_lt: "e < 172" "e \<noteq> ?n" if "e \<in> {?i..ah_nfrag hp}" for e using that sizes by auto
    ultimately show ?thesis
      using False chain sizes state issue [simplified]
      by (simp add: parse_start_fragment_def parse_excessive_def new_frag_def case_prod_beta flip: fresh_def)
        (auto elim!: returns_mono simp: not_less)
  qed
qed

end
