(* ===== verification/Http_Parse_Inv.thy ===== *)
theory Http_Parse_Inv
  imports Http_Table
begin

text \<open>
  \<^verbatim>\<open>lws_parse\<close> on any input: the invariant of the header table is kept and no access is outside of the
  arrays, the header name table included.
\<close>

subsection \<open>The URI steps\<close>

lemma inv_fields [simp]:
  "table_inv env (hp\<lparr>ups := a\<rparr>) = table_inv env hp" "open_line b (hp\<lparr>ups := a\<rparr>) = open_line b hp"
  "closed_lines (hp\<lparr>ups := a\<rparr>) = closed_lines hp"
  "table_inv env (hp\<lparr>ues := e\<rparr>) = table_inv env hp" "open_line b (hp\<lparr>ues := e\<rparr>) = open_line b hp"
  "closed_lines (hp\<lparr>ues := e\<rparr>) = closed_lines hp"
  "table_inv env (hp\<lparr>esc_stash := x\<rparr>) = table_inv env hp" "open_line b (hp\<lparr>esc_stash := x\<rparr>) = open_line b hp"
  "table_inv env (hp\<lparr>post_literal_equal := q\<rparr>) = table_inv env hp"
  "open_line b (hp\<lparr>post_literal_equal := q\<rparr>) = open_line b hp"
  "table_inv env (hp\<lparr>parser_state := s\<rparr>) = table_inv env hp" "open_line b (hp\<lparr>parser_state := s\<rparr>) = open_line b hp"
  "closed_lines (hp\<lparr>parser_state := s\<rparr>) = closed_lines hp"
  "table_inv env (hp\<lparr>lextable_pos := i\<rparr>) = table_inv env hp"
  "closed_lines (hp\<lparr>lextable_pos := i\<rparr>) = closed_lines hp"
  "table_inv env (hp\<lparr>current_token_limit := l\<rparr>) = table_inv env hp"
  "closed_lines (hp\<lparr>current_token_limit := l\<rparr>) = closed_lines hp"
  "table_inv env (hp\<lparr>spec_revision := v\<rparr>) = table_inv env hp"
  "closed_lines (hp\<lparr>spec_revision := v\<rparr>) = closed_lines hp"
  "table_inv env (hp\<lparr>hdr_completed := d\<rparr>) = table_inv env hp"
  "closed_lines (hp\<lparr>hdr_completed := d\<rparr>) = closed_lines hp"
  by (simp_all add: inv_defs)

lemma open_inv_fields [simp]:
  "open_inv env (hp\<lparr>ups := a\<rparr>) = open_inv env hp"
  "open_inv env (hp\<lparr>ues := e\<rparr>) = open_inv env hp"
  "open_inv env (hp\<lparr>esc_stash := x\<rparr>) = open_inv env hp"
  "open_inv env (hp\<lparr>post_literal_equal := q\<rparr>) = open_inv env hp"
  "open_inv env (hp\<lparr>parser_state := s\<rparr>) = open_inv env hp"
  by (simp_all add: open_inv_def)

lemma open_inv_frags [simp]:
  "open_inv env (hp\<lparr>post_literal_equal := q, ah_frags := fs\<rparr>) = open_inv env (hp\<lparr>ah_frags := fs\<rparr>)"
  "open_inv env (hp\<lparr>post_literal_equal := q, ah_frags := fs, ah_frag_index := ix\<rparr>) =
     open_inv env (hp\<lparr>ah_frags := fs, ah_frag_index := ix\<rparr>)"
  "open_inv env (hp\<lparr>ah_frags := fs, post_literal_equal := q, ah_frag_index := ix\<rparr>) =
     open_inv env (hp\<lparr>ah_frags := fs, ah_frag_index := ix\<rparr>)"
  by (simp_all add: open_inv_def inv_defs)

text \<open>The result of a step on a connection in state \<open>st\<close>.\<close>

definition uri_ok :: "hp_env \<Rightarrow> nat \<Rightarrow> uri_step \<Rightarrow> bool" where
  "uri_ok env st u \<longleftrightarrow>
     (case u of
        U_char c enc hp \<Rightarrow> open_inv env hp \<and> parser_state hp = st
      | U_swallow hp \<Rightarrow> open_inv env hp \<and> parser_state hp = st
      | U_excessive hp \<Rightarrow> ah_nfrag hp = length (ah_frags hp)
      | _ \<Rightarrow> True)"

lemma uri_ok_simps [simp]:
  "uri_ok env st (U_char c enc hp) \<longleftrightarrow> open_inv env hp \<and> parser_state hp = st"
  "uri_ok env st (U_swallow hp) \<longleftrightarrow> open_inv env hp \<and> parser_state hp = st"
  "uri_ok env st (U_excessive hp) \<longleftrightarrow> ah_nfrag hp = length (ah_frags hp)"
  "uri_ok env st (U_fail hp)" "uri_ok env st (U_forbid hp)"
  by (simp_all add: uri_ok_def)

lemma issue_char_open:
  assumes "open_inv env hp"
  shows "returns (issue_char env c hp) (\<lambda>x. fst x = -1 \<or>
     fst x \<in> {0, 1} \<and> open_inv env (snd x) \<and> (c = 0 \<or> fst x = 1 \<longrightarrow> closed_lines (snd x)) \<and> keeps hp (snd x) \<and>
     (c \<noteq> 0 \<longrightarrow> 0 < f_len (ah_frags (snd x) ! ah_nfrag (snd x))))"
proof -
  obtain base where "table_inv env hp" "open_line base hp" using assms by (auto simp: open_inv_def)
  from issue_char_inv [OF this] show ?thesis
    by (rule returns_mono) (auto simp: open_inv_def split: prod.splits)
qed

lemma uri_back_up_open:
  assumes "open_inv env hp"
  shows "returns (uri_back_up hp) (\<lambda>hp'. open_inv env hp' \<and> keeps hp hp')"
proof -
  obtain base where "table_inv env hp" "open_line base hp" using assms by (auto simp: open_inv_def)
  from uri_back_up_inv [OF this] show ?thesis by (rule returns_mono) (auto simp: open_inv_def)
qed

lemma open_inv_bounds:
  "open_inv env hp \<Longrightarrow> length (ah_frags hp) = 172 \<and> length (ah_frag_index hp) = 86 \<and> ah_nfrag hp < 172 \<and>
     1 \<le> ah_nfrag hp \<and> 0 < current_token_limit hp"
  by (auto simp: open_inv_def table_inv_def open_line_def)

lemma uri_unescape_ok: "open_inv env hp \<Longrightarrow> uri_ok env (parser_state hp) (uri_unescape c hp)"
  by (simp add: uri_unescape_def split: uri_esc_states.split)

text \<open>Starting the fragment behind an \<^verbatim>\<open>&\<close>.\<close>

lemma next_arg_inv:
  assumes "open_inv env hp" and "Suc (ah_nfrag hp) < 172"
    and pos: "0 < f_len (ah_frags hp ! ah_nfrag hp)"
    and "hp' = hp\<lparr>ah_nfrag := Suc (ah_nfrag hp), ah_frags := (ah_frags hp)[ah_nfrag hp :=
        (dec_len (ah_frags hp ! ah_nfrag hp))\<lparr>f_nfrag := Suc (ah_nfrag hp)\<rparr>, Suc (ah_nfrag hp) := fresh hp]\<rparr>"
  shows "open_inv env hp'"
proof -
  let ?f = "ah_frags hp ! ah_nfrag hp"
  obtain base where inv: "table_inv env hp" "open_line base hp" using assms(1) by (auto simp: open_inv_def)
  have ok: "f_len ?f < 65536" using inv by (auto simp: table_inv_def open_line_def frag_ok_def)
  have split: "f_len ?f + 65535 = f_len ?f - 1 + 65536" using pos by simp
  have len: "(f_len ?f + 65535) mod 65536 = f_len ?f - 1" unfolding split mod_add_self2 using ok by simp
  have lines: "\<forall>i \<in> {1..ah_nfrag hp}. terminated hp base i \<or> base \<le> f_offset (ah_frags hp ! i)"
    using inv(2) by (simp add: open_line_def)
  have sizes: "length (ah_frags hp) = 172" "ah_nfrag hp < 172" using inv(1) by (simp_all add: table_inv_def)
  have old: "f_offset (ah_frags hp' ! i) = f_offset (ah_frags hp ! i) \<and>
       f_len (ah_frags hp' ! i) \<le> f_len (ah_frags hp ! i) \<and>
       f_nfrag (ah_frags hp' ! i) \<in> {f_nfrag (ah_frags hp ! i), Suc (ah_nfrag hp)}" if "i \<in> {1..ah_nfrag hp}" for i
    using that sizes len by (cases "i = ah_nfrag hp") (auto simp: assms(4) nth_list_update)
  have rest: "0 < current_token_limit hp'" "ah_nfrag hp' = Suc (ah_nfrag hp)" "ah_pos hp' = ah_pos hp" "ah_data hp' = ah_data hp"
        "length (ah_frags hp') = 172" "length (ah_frag_index hp') = WSI_TOKEN_COUNT"
        "\<forall>t < WSI_TOKEN_COUNT. ah_frag_index hp' ! t \<le> Suc (ah_nfrag hp)"
        "ah_frags hp' ! Suc (ah_nfrag hp) = fresh hp"
    using inv assms(2) sizes by (auto simp: assms(4) table_inv_def open_line_def le_SucI)
  show ?thesis
    using new_frag_inv [OF inv(1) assms(2) lines open_base [OF inv] rest(1-5,8,6,7) old]
    unfolding open_inv_def by blast
qed

lemma uri_next_arg_ok:
  assumes inv: "open_inv env hp" and pos: "0 < f_len (ah_frags hp ! ah_nfrag hp)"
  shows "returns (uri_next_arg hp) (uri_ok env (parser_state hp))"
proof (cases "Suc (ah_nfrag hp) < 172")
  case True
  then show ?thesis
    using next_arg_inv [OF inv True pos refl] open_inv_bounds [OF inv]
    by (simp add: uri_next_arg_def new_frag_def fresh_def)
next
  case False
  then show ?thesis using open_inv_bounds [OF inv] by (simp add: uri_next_arg_def)
qed

text \<open>The new fragment of the URI arguments.\<close>

lemma start_args_inv:
  assumes "open_inv env hp" and "closed_lines hp" and "Suc (ah_nfrag hp) < 172"
    and "hp' = hp\<lparr>ah_nfrag := Suc (ah_nfrag hp), ah_frags := (ah_frags hp)[Suc (ah_nfrag hp) := fresh hp],
        ah_frag_index := (ah_frag_index hp)[WSI_TOKEN_HTTP_URI_ARGS := Suc (ah_nfrag hp)]\<rparr>"
  shows "open_inv env hp'"
proof -
  obtain base where inv: "table_inv env hp" "open_line base hp" using assms(1) by (auto simp: open_inv_def)
  have sizes: "length (ah_frags hp) = 172" "length (ah_frag_index hp) = 86" using inv(1) by (simp_all add: table_inv_def)
  have old: "f_offset (ah_frags hp' ! i) = f_offset (ah_frags hp ! i) \<and>
       f_len (ah_frags hp' ! i) \<le> f_len (ah_frags hp ! i) \<and>
       f_nfrag (ah_frags hp' ! i) \<in> {f_nfrag (ah_frags hp ! i), Suc (ah_nfrag hp)}" if "i \<in> {1..ah_nfrag hp}" for i
    using that by (simp add: assms(4))
  have "\<forall>t < 86. ah_frag_index hp' ! t \<le> Suc (ah_nfrag hp)"
    using inv(1) sizes by (auto simp: assms(4) table_inv_def nth_list_update le_SucI)
  moreover have "0 < current_token_limit hp'" "ah_nfrag hp' = Suc (ah_nfrag hp)" "ah_pos hp' = ah_pos hp" "ah_data hp' = ah_data hp"
        "length (ah_frags hp') = 172" "ah_frags hp' ! Suc (ah_nfrag hp) = fresh hp" "length (ah_frag_index hp') = WSI_TOKEN_COUNT"
    using inv assms(3) sizes by (auto simp: assms(4) open_line_def)
  ultimately show ?thesis
    using new_frag_inv [OF inv(1) assms(3) closed_to_lines [OF assms(2)] order_refl] old
    unfolding open_inv_def by blast
qed

lemma uri_first_arg_ok:
  assumes inv: "open_inv env hp" "closed_lines hp"
  shows "returns (uri_first_arg hp) (uri_ok env (parser_state hp))"
proof (cases "Suc (ah_nfrag hp) < 172")
  case True
  then show ?thesis
    using start_args_inv [OF inv True refl] open_inv_bounds [OF inv(1)]
    by (simp add: uri_first_arg_def new_frag_def fresh_def)
next
  case False
  then show ?thesis using open_inv_bounds [OF inv(1)] by (simp add: uri_first_arg_def)
qed

lemma uri_idle_ok:
  assumes inv: "open_inv env hp"
  shows "returns (uri_idle env c enc hp) (uri_ok env (parser_state hp))"
proof (cases "c \<noteq> 0 \<and> (c = of_char CHR ''&'' \<or> c = of_char CHR '';'') \<and> \<not> enc")
  case False
  then show ?thesis using inv open_inv_bounds [OF inv] by (auto simp: uri_idle_def Let_def)
next
  case True
  have "returns (issue_char env c hp) (\<lambda>x. returns
     (if fst x < 0 then Some (U_fail (snd x)) else uri_next_arg (snd x)) (uri_ok env (parser_state hp)))"
  proof (rule returns_mono [OF issue_char_open [OF inv]])
    fix x :: "int \<times> hp"
    assume x: "fst x = -1 \<or> fst x \<in> {0, 1} \<and> open_inv env (snd x) \<and> (c = 0 \<or> fst x = 1 \<longrightarrow> closed_lines (snd x)) \<and>
      keeps hp (snd x) \<and> (c \<noteq> 0 \<longrightarrow> 0 < f_len (ah_frags (snd x) ! ah_nfrag (snd x)))"
    show "returns (if fst x < 0 then Some (U_fail (snd x)) else uri_next_arg (snd x)) (uri_ok env (parser_state hp))"
      using x True uri_next_arg_ok [of env "snd x"] by (auto simp: keeps_def)
  qed
  then show ?thesis using True by (simp add: uri_idle_def case_prod_beta)
qed

lemma uri_path_ok:
  assumes inv: "open_inv env hp"
  shows "returns (uri_path env c enc hp) (uri_ok env (parser_state hp))"
proof (cases "ups hp")
  case URIPS_IDLE
  then show ?thesis using uri_idle_ok [OF inv] by (simp add: uri_path_def)
next
  case URIPS_SEEN_SLASH
  then show ?thesis using inv by (simp add: uri_path_def)
next
  case URIPS_SEEN_SLASH_DOT
  have "open_inv env (hp\<lparr>ups := URIPS_IDLE\<rparr>)" using inv by simp
  from issue_char_open [OF this, of "of_char CHR ''.''"]
  have "returns (issue_char env (of_char CHR ''.'') (hp\<lparr>ups := URIPS_IDLE\<rparr>))
     (\<lambda>x. uri_ok env (parser_state hp) (if fst x < 0 then U_fail (snd x) else U_char c enc (snd x)))"
    by (rule returns_mono) (auto simp: keeps_def)
  then show ?thesis using URIPS_SEEN_SLASH_DOT inv by (simp add: uri_path_def case_prod_beta)
next
  case URIPS_SEEN_SLASH_DOT_DOT
  show ?thesis
  proof (cases "c = of_char CHR ''/'' \<or> c = of_char CHR ''?''")
    case True
    have "returns (uri_back_up hp) (\<lambda>hp'. ah_nfrag hp' < length (ah_frags hp') \<and> open_inv env hp' \<and> keeps hp hp')"
      using uri_back_up_open [OF inv] by (rule returns_mono) (auto dest: open_inv_bounds)
    then have "returns (uri_back_up hp) (\<lambda>hp'. ah_nfrag hp' < length (ah_frags hp') \<and>
      uri_ok env (parser_state hp) (if 1 < f_len (ah_frags hp' ! ah_nfrag hp') then U_char c enc (hp'\<lparr>ups := URIPS_SEEN_SLASH\<rparr>)
        else U_swallow (hp'\<lparr>ups := URIPS_SEEN_SLASH\<rparr>)))"
      by (rule returns_mono) (simp add: keeps_def)
    then show ?thesis using True URIPS_SEEN_SLASH_DOT_DOT by (simp add: uri_path_def)
  next
    case False
    have dot: "returns (issue_char env 46 hp1)
       (\<lambda>x. \<not> fst x < 0 \<longrightarrow> open_inv env (snd x) \<and> parser_state (snd x) = parser_state hp)"
      if "open_inv env hp1" "keeps hp hp1" for hp1
      using issue_char_open [OF that(1)] by (rule returns_mono) (use that(2) in \<open>auto simp: keeps_def\<close>)
    have "returns (issue_char env 46 hp) (\<lambda>x. \<not> fst x < 0 \<longrightarrow> returns (issue_char env 46 (snd x))
       (\<lambda>x. \<not> fst x < 0 \<longrightarrow> open_inv env (snd x) \<and> parser_state (snd x) = parser_state hp))"
      using issue_char_open [OF inv] by (rule returns_mono) (auto intro!: dot)
    then show ?thesis using False URIPS_SEEN_SLASH_DOT_DOT by (simp add: uri_path_def case_prod_beta)
  qed
qed

lemma uri_start_args_ok:
  assumes inv: "open_inv env hp"
  shows "returns (uri_start_args env c enc hp) (uri_ok env (parser_state hp))"
proof -
  have "returns (issue_char env 0 hp) (\<lambda>x. returns (if fst x < 0 then Some (U_fail (snd x)) else uri_first_arg (snd x))
     (uri_ok env (parser_state hp)))"
    using issue_char_open [OF inv] by (rule returns_mono) (auto simp: keeps_def dest: uri_first_arg_ok)
  then show ?thesis using inv open_inv_bounds [OF inv] by (simp add: uri_start_args_def case_prod_beta)
qed

subsection \<open>The decoder stays in the table\<close>

definition lex_reach :: "nat \<Rightarrow> bool" where
  "lex_reach pos \<longleftrightarrow> (\<exists>k. lex_ok k True pos)"

lemma lex_reach_start: "lex_reach 0"
  unfolding lex_reach_def using lex_ok_all by blast

lemma lex_reach_bound:
  "lex_reach pos \<Longrightarrow> pos < length lextable"
  "lex_reach pos \<Longrightarrow> lextable_terminal pos \<Longrightarrow> pos + 1 < length lextable \<and> lextable_token pos < 80"
proof -
  have "pos < length lextable \<and> (lextable_terminal pos \<longrightarrow> pos + 1 < length lextable \<and> lextable_token pos < 80)"
    if "lex_ok k True pos" for k
    using that by (cases k) (auto split: if_splits)
  then show "lex_reach pos \<Longrightarrow> pos < length lextable"
    "lex_reach pos \<Longrightarrow> lextable_terminal pos \<Longrightarrow> pos + 1 < length lextable \<and> lextable_token pos < 80"
    unfolding lex_reach_def by blast+
qed

lemma lextable_scan_reach:
  "lex_ok k enter pos \<Longrightarrow> \<not> (enter \<and> lextable_terminal pos) \<Longrightarrow>
     returns (lextable_scan pos c) (\<lambda>i. 0 \<le> i \<longrightarrow> lex_reach (nat i))"
proof (induction k arbitrary: enter pos)
  case 0
  then show ?case by simp
next
  case (Suc k)
  have noterm: "(enter \<and> lextable_terminal pos) = False" using Suc.prems(2) by simp
  note ok = Suc.prems(1) [unfolded lex_ok.simps noterm if_False]
  have bound: "pos + 2 < length lextable" using ok by (simp split: if_splits)
  note scan = scan_entry [OF bound]
  let ?b = "lextable ! pos"
  show ?case
  proof (cases "0x80 \<le> ?b")
    case True
    show ?thesis
    proof (cases "c = ?b AND 0x7f \<and> lextable ! (pos + 1) \<noteq> FAIL_CHAR")
      case False
      then have "lextable_scan pos c = Some (-1)" by (intro scan(1) [OF True]) blast
      then show ?thesis by simp
    next
      case go: True
      have "lex_ok k True (pos + 1)" using ok True go bound by (simp split: if_splits)
      then have "lex_reach (nat (int (pos + 1)))" unfolding lex_reach_def nat_int by blast
      moreover have "lextable_scan pos c = Some (int (pos + 1))" using scan(2) [OF True] go by (simp only: simp_thms)
      ultimately show ?thesis by simp
    qed
  next
    case b: False
    show ?thesis
    proof (cases "?b = FAIL_CHAR")
      case True
      then show ?thesis using scan(3) [OF b] by simp
    next
      case nofail: False
      have ok: "\<not> ?b < FAIL_CHAR" "lex_ok k True (lex_goto pos)" "lex_ok k False (pos + 3)"
        using ok b nofail bound by (auto split: if_splits)
      show ?thesis
      proof (cases "c = ?b")
        case True
        have "lex_reach (nat (int (lex_goto pos)))" unfolding lex_reach_def nat_int using ok(2) by blast
        then show ?thesis using scan(4) [OF b nofail ok(1)] True by simp
      next
        case False
        then show ?thesis using scan(5) [OF b nofail ok(1)] Suc.IH [OF ok(3)] by simp
      qed
    qed
  qed
qed

lemma lextable_decode_reach:
  assumes "lex_reach pos"
  shows "returns (lextable_decode pos c) (\<lambda>i. 0 \<le> i \<longrightarrow> lex_reach (nat i))"
proof (cases "lextable_terminal pos")
  case True
  have "\<not> 0x80 \<le> lextable ! pos \<and> lextable ! pos \<noteq> FAIL_CHAR"
    using True by (auto simp: lextable_terminal_def FAIL_CHAR_def byte_simps)
  then have "lextable_scan pos (to_lower c) = Some (int pos)"
    using True lex_reach_bound(1) [OF assms] by (subst lextable_scan.simps) (simp add: lextable_terminal_def)
  then show ?thesis using assms by (simp add: lextable_decode_def)
next
  case False
  then show ?thesis using assms lextable_scan_reach by (auto simp: lex_reach_def lextable_decode_def)
qed

subsection \<open>The parser\<close>

definition parse_inv :: "hp_env \<Rightarrow> hp \<Rightarrow> bool" where
  "parse_inv env hp \<longleftrightarrow> table_inv env hp \<and>
     (parser_state hp < 80 \<and> parser_state hp \<noteq> WSI_TOKEN_CHALLENGE \<and> (\<exists>base. open_line base hp) \<or>
      parser_state hp \<in> {WSI_TOKEN_NAME_PART, WSI_TOKEN_SKIPPING, WSI_TOKEN_SKIPPING_SAW_CR, WSI_PARSING_COMPLETE} \<and>
      closed_lines hp) \<and>
     (parser_state hp = WSI_TOKEN_NAME_PART \<longrightarrow> 0 \<le> lextable_pos hp \<and> lex_reach (nat (lextable_pos hp)))"

definition parse_ok :: "hp_env \<Rightarrow> int \<times> hp \<Rightarrow> bool" where
  "parse_ok env x \<longleftrightarrow> (fst x = 0 \<longrightarrow> parse_inv env (snd x))"

lemma parse_ok_simps [simp]:
  "parse_ok env (-1, hp)" "parse_ok env (0, hp) = parse_inv env hp"
  by (simp_all add: parse_ok_def)

lemma open_parse_inv:
  "open_inv env hp \<Longrightarrow> parser_state hp < 80 \<Longrightarrow> parser_state hp \<noteq> WSI_TOKEN_CHALLENGE \<Longrightarrow> parse_inv env hp"
  by (simp add: open_inv_def parse_inv_def)

lemma closed_parse_inv:
  "table_inv env hp \<Longrightarrow> closed_lines hp \<Longrightarrow>
     parser_state hp \<in> {WSI_TOKEN_SKIPPING, WSI_TOKEN_SKIPPING_SAW_CR, WSI_PARSING_COMPLETE} \<Longrightarrow> parse_inv env hp"
  by (auto simp: parse_inv_def)

lemma parse_forbid_ok: "returns (parse_forbid hp) (parse_ok env)"
  by (simp add: parse_forbid_def)

lemma set_parsing_complete_ok:
  assumes "table_inv env hp" and "closed_lines hp"
  shows "returns (set_parsing_complete hp) (parse_ok env)"
proof -
  have inv: "parse_inv env (hp\<lparr>parser_state := WSI_PARSING_COMPLETE, hdr_completed := True\<rparr>)"
    "\<And>v. parse_inv env (hp\<lparr>spec_revision := v, parser_state := WSI_PARSING_COMPLETE, hdr_completed := True\<rparr>)"
    using assms by (auto intro!: closed_parse_inv)
  have version: "returns (c_string_at hp (f_offset (ah_frags hp ! (ah_frag_index hp ! 33)))) (\<lambda>_. True)"
    if index: "ah_frag_index hp ! 33 \<in> {1..ah_nfrag hp}"
  proof -
    let ?o = "f_offset (ah_frags hp ! (ah_frag_index hp ! 33))"
    have "terminated hp (ah_pos hp) (ah_frag_index hp ! 33)"
      using assms(2) index unfolding closed_lines_def by blast
    then obtain j where j: "j < ah_pos hp" "?o \<le> j" "ah_data hp ! j = 0"
      unfolding terminated_def by blast
    then have "j < length (ah_data hp)" using assms(1) by (simp add: table_inv_def)
    then have "j - ?o < length (drop ?o (ah_data hp))" "drop ?o (ah_data hp) ! (j - ?o) = 0" using j by simp_all
    then have "0 \<in> set (drop ?o (ah_data hp))" by (metis nth_mem)
    then show ?thesis by (simp add: c_string_at_def)
  qed
  have lens: "33 < length (ah_frag_index hp)" "length (ah_frags hp) = 172" "ah_nfrag hp < 172"
    using assms(1) by (simp_all add: table_inv_def)
  have "lws_hdr_simple_ptr hp 33 = Some (Some (f_offset (ah_frags hp ! (ah_frag_index hp ! 33))))"
    if "ah_frag_index hp ! 33 \<in> {1..ah_nfrag hp}"
    using that lens by (simp add: lws_hdr_simple_ptr_def index_at_def frag_at_def)
  then have "returns (read_version hp) (\<lambda>hp'. parse_inv env (hp'\<lparr>parser_state := WSI_PARSING_COMPLETE, hdr_completed := True\<rparr>))"
    using lws_hdr_total_length_returns [OF assms(1), of WSI_TOKEN_VERSION] version inv
    by (auto simp: read_version_def elim!: returns_mono)
  then show ?thesis
    using lws_hdr_total_length_returns [OF assms(1), of WSI_TOKEN_UPGRADE] inv(1)
    by (auto simp: set_parsing_complete_def parse_forbid_def elim!: returns_mono)
qed

lemma returns_issue:
  assumes "open_inv env hp"
    and "\<And>r hp'. r \<in> {0, 1} \<Longrightarrow> open_inv env hp' \<Longrightarrow> c = 0 \<or> r = 1 \<longrightarrow> closed_lines hp' \<Longrightarrow> keeps hp hp' \<Longrightarrow> Q (r, hp')"
    and "\<And>hp'. Q (-1, hp')"
  shows "returns (issue_char env c hp) Q"
proof (rule returns_mono [OF issue_char_open [OF assms(1)]])
  fix x :: "int \<times> hp"
  assume "fst x = -1 \<or> fst x \<in> {0, 1} \<and> open_inv env (snd x) \<and> (c = 0 \<or> fst x = 1 \<longrightarrow> closed_lines (snd x)) \<and>
    keeps hp (snd x) \<and> (c \<noteq> 0 \<longrightarrow> 0 < f_len (ah_frags (snd x) ! ah_nfrag (snd x)))"
  then show "Q x" using assms(2) [of "fst x" "snd x"] assms(3) [of "snd x"] by (cases x) auto
qed

lemma open_table: "open_inv env hp \<Longrightarrow> table_inv env hp"
  by (simp add: open_inv_def)

lemma parse_swallow_ok:
  "parse_inv env hp \<Longrightarrow> returns (parse_swallow hp) (parse_ok env)"
  by (auto simp: parse_swallow_def parse_inv_def)

lemma parse_check_eol_ok:
  assumes inv: "open_inv env hp" and state: "parser_state hp < 80" "parser_state hp \<noteq> WSI_TOKEN_CHALLENGE"
  shows "returns (parse_check_eol env c hp) (parse_ok env)"
proof (cases "c = 0x0d")
  case True
  have "returns (issue_char env 0 (hp\<lparr>parser_state := WSI_TOKEN_SKIPPING_SAW_CR\<rparr>))
    (\<lambda>x. returns (if fst x < 0 then Some (-1, snd x) else parse_swallow (if 0 < fst x then (snd x)\<lparr>parser_state := WSI_TOKEN_SKIPPING\<rparr> else snd x))
      (parse_ok env))"
  proof (rule returns_issue)
    show "open_inv env (hp\<lparr>parser_state := WSI_TOKEN_SKIPPING_SAW_CR\<rparr>)" using inv by simp
  next
    fix r :: int and hp'
    assume *: "r \<in> {0, 1}" "open_inv env hp'" "(0::byte) = 0 \<or> r = 1 \<longrightarrow> closed_lines hp'"
      "keeps (hp\<lparr>parser_state := WSI_TOKEN_SKIPPING_SAW_CR\<rparr>) hp'"
    then have "parse_inv env (if 0 < r then hp'\<lparr>parser_state := WSI_TOKEN_SKIPPING\<rparr> else hp')"
      by (auto intro!: closed_parse_inv dest: open_table simp: keeps_def)
    then show "returns (if fst (r, hp') < 0 then Some (-1, snd (r, hp'))
        else parse_swallow (if 0 < fst (r, hp') then (snd (r, hp'))\<lparr>parser_state := WSI_TOKEN_SKIPPING\<rparr> else snd (r, hp')))
      (parse_ok env)"
      using *(1) parse_swallow_ok by auto
  qed simp
  then show ?thesis using True state by (simp add: parse_check_eol_def parse_forbid_def case_prod_beta)
next
  case False
  have "returns (issue_char env c hp)
    (\<lambda>x. returns (if fst x < 0 then Some (-1, snd x) else parse_swallow (if 0 < fst x then (snd x)\<lparr>parser_state := WSI_TOKEN_SKIPPING\<rparr> else snd x))
      (parse_ok env))"
  proof (rule returns_issue [OF inv])
    fix r :: int and hp'
    assume *: "r \<in> {0, 1}" "open_inv env hp'" "c = 0 \<or> r = 1 \<longrightarrow> closed_lines hp'" "keeps hp hp'"
    then have "parse_inv env (if 0 < r then hp'\<lparr>parser_state := WSI_TOKEN_SKIPPING\<rparr> else hp')"
      using state closed_parse_inv [of env "hp'\<lparr>parser_state := WSI_TOKEN_SKIPPING\<rparr>"] open_parse_inv [of env hp']
      by (auto dest: open_table simp: keeps_def)
    then show "returns (if fst (r, hp') < 0 then Some (-1, snd (r, hp'))
        else parse_swallow (if 0 < fst (r, hp') then (snd (r, hp'))\<lparr>parser_state := WSI_TOKEN_SKIPPING\<rparr> else snd (r, hp')))
      (parse_ok env)"
      using *(1) parse_swallow_ok by auto
  qed simp
  then show ?thesis using False by (simp add: parse_check_eol_def case_prod_beta)
qed

lemma uri_then_ok:
  assumes "uri_ok env st u" and "st < 80" "st \<noteq> WSI_TOKEN_CHALLENGE"
    and "\<And>c enc hp. open_inv env hp \<Longrightarrow> parser_state hp = st \<Longrightarrow> returns (k c enc hp) (parse_ok env)"
  shows "returns (uri_then env u k) (parse_ok env)"
  using assms
  by (cases u) (auto simp: uri_then_def parse_forbid_def parse_excessive_def intro!: parse_swallow_ok open_parse_inv)

lemma parse_uri_char_ok:
  assumes inv: "open_inv env hp" and state: "parser_state hp < 80" "parser_state hp \<noteq> WSI_TOKEN_CHALLENGE"
  shows "returns (parse_uri_char env c hp) (parse_ok env)"
  unfolding parse_uri_char_def
proof (rule uri_then_ok [OF uri_unescape_ok [OF inv] state])
  fix c enc hp1
  assume hp1: "open_inv env hp1" "parser_state hp1 = parser_state hp"
  have "returns (uri_path env c enc hp1) (uri_ok env (parser_state hp))"
    using uri_path_ok [OF hp1(1)] hp1(2) by simp
  then show "returns (Option.bind (uri_path env c enc hp1) (\<lambda>u. uri_then env u (\<lambda>c enc hp.
      Option.bind (uri_start_args env c enc hp) (\<lambda>u. uri_then env u (\<lambda>c enc hp. parse_check_eol env c hp)))))
      (parse_ok env)"
    unfolding returns_simps
  proof (rule returns_mono)
    fix u
    assume "uri_ok env (parser_state hp) u"
    then show "returns (uri_then env u (\<lambda>c enc hp.
      Option.bind (uri_start_args env c enc hp) (\<lambda>u. uri_then env u (\<lambda>c enc hp. parse_check_eol env c hp)))) (parse_ok env)"
    proof (rule uri_then_ok [OF _ state])
      fix c enc hp2
      assume hp2: "open_inv env hp2" "parser_state hp2 = parser_state hp"
      have "returns (uri_start_args env c enc hp2) (uri_ok env (parser_state hp))"
        using uri_start_args_ok [OF hp2(1)] hp2(2) by simp
      then show "returns (Option.bind (uri_start_args env c enc hp2) (\<lambda>u. uri_then env u (\<lambda>c enc hp. parse_check_eol env c hp))) (parse_ok env)"
        unfolding returns_simps
        by (rule returns_mono) (auto intro!: uri_then_ok [OF _ state] parse_check_eol_ok simp: state)
    qed
  qed
qed

lemma parse_uri_end_ok:
  assumes inv: "open_inv env hp"
  shows "returns (parse_uri_end env hp) (parse_ok env)"
proof -
  have start: "returns (parse_start_fragment env (hp1\<lparr>parser_state := WSI_TOKEN_HTTP\<rparr>)) (parse_ok env)"
    if "open_inv env hp1" "closed_lines hp1" for hp1
  proof -
    have "returns (parse_start_fragment env (hp1\<lparr>parser_state := WSI_TOKEN_HTTP\<rparr>)) (\<lambda>(r, hp'). r = 0 \<longrightarrow>
        open_inv env hp' \<and> parser_state hp' = parser_state (hp1\<lparr>parser_state := WSI_TOKEN_HTTP\<rparr>))"
      using that open_inv_bounds [OF that(1)] by (intro parse_start_fragment_inv) (auto dest: open_table)
    then show ?thesis by (rule returns_mono) (auto simp: parse_ok_def intro!: open_parse_inv)
  qed
  have finish: "returns (issue_char env 0 hp1) (\<lambda>x. \<not> fst x < 0 \<longrightarrow> returns
     (parse_start_fragment env ((snd x)\<lparr>parser_state := WSI_TOKEN_HTTP\<rparr>)) (parse_ok env))"
    if "open_inv env hp1" for hp1
    by (rule returns_issue [OF that]) (auto intro!: start)
  have backed: "returns (if ups hp1 = URIPS_SEEN_SLASH_DOT_DOT then uri_back_up hp1 else Some hp1) (\<lambda>hp2.
      returns (issue_char env 0 hp2) (\<lambda>x. \<not> fst x < 0 \<longrightarrow> returns
        (parse_start_fragment env ((snd x)\<lparr>parser_state := WSI_TOKEN_HTTP\<rparr>)) (parse_ok env)))"
    if "open_inv env hp1" for hp1
    using uri_back_up_open [OF that] that by (auto elim!: returns_mono intro!: finish)
  have "returns (if f_len (ah_frags hp ! ah_nfrag hp) = 0 then issue_char env (of_char CHR ''/'') hp else Some (0, hp))
    (\<lambda>x. returns (if fst x < 0 then Some (-1, snd x)
       else Option.bind (if ups (snd x) = URIPS_SEEN_SLASH_DOT_DOT then uri_back_up (snd x) else Some (snd x))
         (\<lambda>hp. Option.bind (issue_char env 0 hp) (\<lambda>x. if fst x < 0 then Some (-1, snd x)
           else parse_start_fragment env ((snd x)\<lparr>parser_state := WSI_TOKEN_HTTP\<rparr>)))) (parse_ok env))"
  proof (cases "f_len (ah_frags hp ! ah_nfrag hp) = 0")
    case True
    show ?thesis
      unfolding if_P [OF True]
    proof (rule returns_issue [OF inv])
      fix r :: int and hp'
      assume "r \<in> {0, 1}" "open_inv env hp'"
      then show "returns (if fst (r, hp') < 0 then Some (-1, snd (r, hp'))
         else Option.bind (if ups (snd (r, hp')) = URIPS_SEEN_SLASH_DOT_DOT then uri_back_up (snd (r, hp')) else Some (snd (r, hp')))
           (\<lambda>hp. Option.bind (issue_char env 0 hp) (\<lambda>x. if fst x < 0 then Some (-1, snd x)
             else parse_start_fragment env ((snd x)\<lparr>parser_state := WSI_TOKEN_HTTP\<rparr>)))) (parse_ok env)"
        using backed [of hp'] by auto
    qed simp
  next
    case False
    then show ?thesis using backed [OF inv] by (auto split: if_splits)
  qed
  then show ?thesis
    using open_inv_bounds [OF inv] unfolding parse_uri_end_def case_prod_beta returns_simps returns_access by simp
qed

lemma parse_value_ok:
  assumes inv: "open_inv env hp" and state: "parser_state hp < 80" "parser_state hp \<noteq> WSI_TOKEN_CHALLENGE"
  shows "returns (parse_value env c hp) (parse_ok env)"
proof -
  have "ah_frag_index hp ! parser_state hp \<le> ah_nfrag hp"
    using open_table [OF inv] state by (simp add: table_inv_def)
  then show ?thesis
    using state open_inv_bounds [OF inv] parse_check_eol_ok [OF inv state] parse_uri_end_ok [OF inv]
      parse_uri_char_ok [OF inv state] open_parse_inv [OF inv state]
    by (simp add: parse_value_def)
qed

lemma any_index_returns:
  "length (ah_frag_index hp) = WSI_TOKEN_COUNT \<Longrightarrow> \<forall>m \<in> set ms. m < WSI_TOKEN_COUNT \<Longrightarrow>
     returns (any_index hp ms) (\<lambda>_. True)"
  by (induction ms) auto

lemma parse_known_name_ok:
  assumes env: "env_ok env" and inv: "table_inv env hp" "closed_lines hp" and n: "n < 80"
  shows "returns (parse_known_name env n hp) (parse_ok env)"
proof -
  let ?n = "if n = WSI_TOKEN_SWORIGIN then WSI_TOKEN_ORIGIN else n"
  have dup: "returns (any_index hp (filter (\<lambda>m. m = n) methods)) (\<lambda>_. True)"
    using inv(1) n by (intro any_index_returns) (auto simp: table_inv_def)
  have known: "?n < 80" using n by simp
  have step: "returns (if ?n = WSI_TOKEN_CHALLENGE then set_parsing_complete hp1 else parse_start_fragment env hp1) (parse_ok env)"
    if hp1: "table_inv env hp1" "closed_lines hp1" "0 < current_token_limit hp1" "parser_state hp1 = ?n" for hp1
  proof (cases "?n = WSI_TOKEN_CHALLENGE")
    case True
    then show ?thesis using set_parsing_complete_ok [OF hp1(1,2)] by simp
  next
    case False
    have "returns (parse_start_fragment env hp1) (\<lambda>(r, hp'). r = 0 \<longrightarrow> open_inv env hp' \<and> parser_state hp' = parser_state hp1)"
      using hp1 known by (intro parse_start_fragment_inv) auto
    then have "returns (parse_start_fragment env hp1) (parse_ok env)"
      by (rule returns_mono) (use False known hp1(4) in \<open>auto simp: parse_ok_def intro!: open_parse_inv\<close>)
    then show ?thesis using False by simp
  qed
  have limit: "returns (case token_limits env of Some ls \<Rightarrow> if ?n < length ls then Some (ls ! ?n) else None
       | None \<Rightarrow> Some (max_http_header_data env)) (\<lambda>limit. 0 < limit)"
    using env known by (auto simp: env_ok_def split: option.splits)
  have "returns (case token_limits env of Some ls \<Rightarrow> if ?n < length ls then Some (ls ! ?n) else None
       | None \<Rightarrow> Some (max_http_header_data env)) (\<lambda>limit. returns
     (if ?n = WSI_TOKEN_CHALLENGE then set_parsing_complete (hp\<lparr>parser_state := ?n, current_token_limit := limit\<rparr>)
      else parse_start_fragment env (hp\<lparr>parser_state := ?n, current_token_limit := limit\<rparr>)) (parse_ok env))"
    using limit by (rule returns_mono) (rule step; simp add: inv)
  then have rest: "returns (Option.bind (case token_limits env of Some ls \<Rightarrow> if ?n < length ls then Some (ls ! ?n) else None
       | None \<Rightarrow> Some (max_http_header_data env)) (\<lambda>limit.
     if ?n = WSI_TOKEN_CHALLENGE then set_parsing_complete (hp\<lparr>parser_state := ?n, current_token_limit := limit\<rparr>)
      else parse_start_fragment env (hp\<lparr>parser_state := ?n, current_token_limit := limit\<rparr>))) (parse_ok env)"
    unfolding returns_simps .
  show ?thesis
    unfolding parse_known_name_def returns_simps
    by (rule returns_mono [OF dup]) (use rest in \<open>simp del: returns_simps(3)\<close>)
qed

lemma parse_name_part_ok:
  assumes env: "env_ok env" and inv: "parse_inv env hp" and state: "parser_state hp = WSI_TOKEN_NAME_PART"
  shows "returns (parse_name_part env c hp) (parse_ok env)"
proof -
  have hp: "table_inv env hp" "closed_lines hp" "0 \<le> lextable_pos hp" "lex_reach (nat (lextable_pos hp))"
    using inv state by (auto simp: parse_inv_def)
  have unknown: "returns (any_index (hp\<lparr>lextable_pos := i\<rparr>) methods) (\<lambda>_. True)" for i
    using hp(1) by (intro any_index_returns) (auto simp: table_inv_def methods_def)
  have skip: "parse_inv env (hp\<lparr>lextable_pos := i, parser_state := WSI_TOKEN_SKIPPING\<rparr>)" for i
    using hp by (intro closed_parse_inv) auto
  have on: "parse_inv env (hp\<lparr>lextable_pos := i\<rparr>)" if "0 \<le> i" "lex_reach (nat i)" for i
    using hp that state by (simp add: parse_inv_def)
  have known: "returns (parse_known_name env n (hp\<lparr>lextable_pos := i\<rparr>)) (parse_ok env)" if "n < 80" for n i
    using hp that by (intro parse_known_name_ok [OF env]) auto
  have "returns (lextable_decode (nat (lextable_pos hp)) c) (\<lambda>i. returns
     (if i < 0 \<and> http_serving env then Option.bind (any_index (hp\<lparr>lextable_pos := i\<rparr>) methods) (\<lambda>had.
        if had then Some (0, hp\<lparr>lextable_pos := i, parser_state := WSI_TOKEN_SKIPPING\<rparr>) else parse_forbid (hp\<lparr>lextable_pos := i\<rparr>))
      else if i < 0 then Some (0, hp\<lparr>lextable_pos := i, parser_state := WSI_TOKEN_SKIPPING\<rparr>)
      else Option.bind (assert_opt (nat i < length lextable)) (\<lambda>_.
        if lextable_terminal (nat i) then Option.bind (assert_opt (nat i + 1 < length lextable)) (\<lambda>_.
          parse_known_name env (lextable_token (nat i)) (hp\<lparr>lextable_pos := i\<rparr>))
        else Some (0, hp\<lparr>lextable_pos := i\<rparr>))) (parse_ok env))"
  proof (rule returns_mono [OF lextable_decode_reach [OF hp(4)]])
    fix i assume i: "0 \<le> i \<longrightarrow> lex_reach (nat i)"
    show "returns (if i < 0 \<and> http_serving env then Option.bind (any_index (hp\<lparr>lextable_pos := i\<rparr>) methods) (\<lambda>had.
        if had then Some (0, hp\<lparr>lextable_pos := i, parser_state := WSI_TOKEN_SKIPPING\<rparr>) else parse_forbid (hp\<lparr>lextable_pos := i\<rparr>))
      else if i < 0 then Some (0, hp\<lparr>lextable_pos := i, parser_state := WSI_TOKEN_SKIPPING\<rparr>)
      else Option.bind (assert_opt (nat i < length lextable)) (\<lambda>_.
        if lextable_terminal (nat i) then Option.bind (assert_opt (nat i + 1 < length lextable)) (\<lambda>_.
          parse_known_name env (lextable_token (nat i)) (hp\<lparr>lextable_pos := i\<rparr>))
        else Some (0, hp\<lparr>lextable_pos := i\<rparr>))) (parse_ok env)"
    proof (cases "i < 0")
      case True
      then show ?thesis using skip unknown [of i] by (auto simp: parse_forbid_def elim!: returns_mono)
    next
      case False
      then show ?thesis
        using i lex_reach_bound [of "nat i"] known on by (cases "lextable_terminal (nat i)") auto
    qed
  qed
  then show ?thesis
    using hp(3) unfolding parse_name_part_def returns_simps returns_assert by simp
qed

lemma lws_parse_ok:
  assumes env: "env_ok env" and inv: "parse_inv env hp"
  shows "returns (lws_parse env c hp) (parse_ok env)"
proof -
  have table: "table_inv env hp" using inv by (simp add: parse_inv_def)
  consider (name) "parser_state hp = WSI_TOKEN_NAME_PART"
    | (skip) "parser_state hp \<in> {WSI_TOKEN_SKIPPING, WSI_TOKEN_SKIPPING_SAW_CR, WSI_PARSING_COMPLETE}" "closed_lines hp"
    | (val) "parser_state hp < 80" "parser_state hp \<noteq> WSI_TOKEN_CHALLENGE" "open_inv env hp"
    using inv by (auto simp: parse_inv_def open_inv_def)
  then show ?thesis
  proof cases
    case name
    then show ?thesis using parse_name_part_ok [OF env inv] by (simp add: lws_parse_def)
  next
    case skip
    have "parse_inv env (hp\<lparr>parser_state := WSI_TOKEN_NAME_PART, lextable_pos := 0\<rparr>)"
      using table skip(2) lex_reach_start by (simp add: parse_inv_def)
    then show ?thesis
      using skip inv table by (auto simp: lws_parse_def parse_forbid_def intro!: closed_parse_inv)
  next
    case val
    then show ?thesis using parse_value_ok by (simp add: lws_parse_def)
  qed
qed

lemma parse_bytes_ok:
  "env_ok env \<Longrightarrow> parse_inv env hp \<Longrightarrow> returns (parse_bytes env cs hp) (\<lambda>(r, hp', rest). r = 0 \<longrightarrow> parse_inv env hp')"
proof (induction cs arbitrary: hp)
  case (Cons c cs)
  have "returns (lws_parse env c hp) (\<lambda>x. returns (if fst x \<noteq> 0 then Some (-1, snd x, cs)
      else if parser_state (snd x) = WSI_PARSING_COMPLETE then Some (0, snd x, cs) else parse_bytes env cs (snd x))
      (\<lambda>(r, hp', rest). r = 0 \<longrightarrow> parse_inv env hp'))"
    using lws_parse_ok [OF Cons.prems] by (rule returns_mono) (auto simp: parse_ok_def intro: Cons.IH [OF Cons.prems(1)])
  then show ?case unfolding parse_bytes.simps case_prod_beta returns_simps .
qed simp

subsection \<open>Parsing received bytes\<close>

text \<open>What \<^verbatim>\<open>lws_read\<close> sets when the first bytes of a request arrive.\<close>

definition start_headers :: "hp \<Rightarrow> hp" where
  "start_headers hp = hp\<lparr>hdr_completed := False, parser_state := WSI_TOKEN_NAME_PART, lextable_pos := 0\<rparr>"

lemma start_inv:
  assumes "env_ok env" and "length (ah_data hp) = max_http_header_data env" and "length (ah_frags hp) = 172"
  shows "parse_inv env (start_headers (lws_header_table_reset hp))"
  using assms lex_reach_start
  by (simp add: parse_inv_def start_headers_def lws_header_table_reset_def table_inv_def closed_lines_def env_ok_def)

text \<open>C16: Whatever a client sends, \<^verbatim>\<open>lws_parse\<close> never reads or writes outside of the header data, the
  fragments, the index or the name table, fails no assertion, and ends: fed to a fresh table, any
  bytes have a result, and when it is not an error the table is in order (every fragment lies in the data
  received so far, the chains lead to later fragments only and have an end).\<close>

theorem parse_stays_in_bounds:
  assumes "env_ok env" and "length (ah_data hp) = max_http_header_data env" and "length (ah_frags hp) = 172"
  shows "\<exists>r hp' rest. parse_bytes env cs (start_headers (lws_header_table_reset hp)) = Some (r, hp', rest) \<and>
     (r = 0 \<longrightarrow> table_inv env hp')"
  using parse_bytes_ok [OF assms(1) start_inv [OF assms], of cs] by (auto simp: returns_def parse_inv_def)

definition plain_hp_env :: "nat \<Rightarrow> hp_env" where
  "plain_hp_env n = \<lparr>max_http_header_data = n, token_limits = None, http_serving = True\<rparr>"

definition empty_hp :: "nat \<Rightarrow> hp" where
  "empty_hp n = \<lparr>ah_data = replicate n 0, ah_frags = replicate 172 no_frag, ah_frag_index = replicate 86 0,
     ah_pos = 0, ah_nfrag = 0, ups = URIPS_IDLE, ues = URIES_IDLE, lextable_pos = 0, current_token_limit = 0,
     esc_stash = 0, post_literal_equal = False, parser_state = WSI_TOKEN_NAME_PART, spec_revision = 0,
     hdr_completed = False, sent_forbidden = False\<rparr>"

theorem parse_stays_in_bounds_witness:
  "\<exists>r hp' rest. parse_bytes (plain_hp_env 1024) (bytes_of ''GET /../%zz&&'')
       (start_headers (lws_header_table_reset (empty_hp 1024))) = Some (r, hp', rest) \<and>
     (r = 0 \<longrightarrow> table_inv (plain_hp_env 1024) hp')"
  by (rule parse_stays_in_bounds) (simp_all add: plain_hp_env_def empty_hp_def env_ok_def)

end
