(* ===== verification/Http_Header.thy ===== *)
theory Http_Header
  imports Http_Parse_Inv
begin

text \<open>
  What one header line does to the table: the value of a known header is stored where the accessors
  find it, and every other header stays as it was.
\<close>

subsection \<open>The name\<close>

text \<open>The parser state behind the name, and what follows.\<close>

lemma parse_name_run:
  assumes "lex_run pos w = Some t" and "lex_reach pos"
    and "parser_state hp = WSI_TOKEN_NAME_PART" and "lextable_pos hp = int pos"
  shows "\<exists>i. parse_bytes env (w @ rest) hp =
     do {
       (r, hp) \<leftarrow> parse_known_name env t (hp\<lparr>lextable_pos := i\<rparr>);
       if r \<noteq> 0 then Some (-1, hp, rest)
       else if parser_state hp = WSI_PARSING_COMPLETE then Some (0, hp, rest)
       else parse_bytes env rest hp
     }"
  using assms
proof (induction w arbitrary: pos hp)
  case Nil
  then show ?case by simp
next
  case (Cons c w)
  obtain i where i: "lextable_decode pos c = Some i" "0 \<le> i" using Cons.prems(1) by (auto split: option.splits if_splits)
  have reach: "lex_reach (nat i)" using lextable_decode_reach [OF Cons.prems(2), of c] i by simp
  have dec: "lextable_decode (nat (lextable_pos hp)) c = Some i" using i Cons.prems(4) by simp
  show ?case
  proof (cases "lextable_terminal (nat i)")
    case True
    then have t: "w = []" "t = lextable_token (nat i)" using Cons.prems(1) i by (auto split: if_splits)
    have "lws_parse env c hp = parse_known_name env t (hp\<lparr>lextable_pos := i\<rparr>)"
      using Cons.prems(3,4) i dec True lex_reach_bound [OF reach] t(2)
      by (simp add: lws_parse_def parse_name_part_def assert_opt_def)
    then show ?thesis using t(1) by auto
  next
    case False
    then have "lex_run (nat i) w = Some t" using Cons.prems(1) i by simp
    moreover have "lws_parse env c hp = Some (0, hp\<lparr>lextable_pos := i\<rparr>)"
      using Cons.prems(3,4) i dec False lex_reach_bound(1) [OF reach]
      by (simp add: lws_parse_def parse_name_part_def assert_opt_def)
    ultimately show ?thesis
      using Cons.IH [of "nat i" "hp\<lparr>lextable_pos := i\<rparr>"] Cons.prems(3) i(2) reach by auto
  qed
qed

subsection \<open>The value\<close>

definition splice :: "nat \<Rightarrow> 'a list \<Rightarrow> 'a list \<Rightarrow> 'a list" where
  "splice p w d = take p d @ w @ drop (p + length w) d"

lemma splice_Nil [simp]: "splice p [] d = d"
  by (simp add: splice_def)

lemma length_splice [simp]: "p + length w \<le> length d \<Longrightarrow> length (splice p w d) = length d"
  by (simp add: splice_def)

lemma splice_snoc: "p + length w < length d \<Longrightarrow> (splice p w d)[p + length w := c] = splice p (w @ [c]) d"
  by (simp add: splice_def list_update_append flip: Cons_nth_drop_Suc)

text \<open>A table whose last fragment holds the bytes \<open>w\<close>.\<close>

definition holding :: "byte list \<Rightarrow> hp \<Rightarrow> hp" where
  "holding w hp = hp\<lparr>ah_data := splice (ah_pos hp) w (ah_data hp), ah_pos := ah_pos hp + length w,
     ah_frags := (ah_frags hp)[ah_nfrag hp := \<lparr>f_offset = ah_pos hp, f_len = length w, f_nfrag = 0\<rparr>]\<rparr>"

text \<open>A table that waits for the value of a header that is not a method.\<close>

definition awaiting :: "hp_env \<Rightarrow> hp \<Rightarrow> bool" where
  "awaiting env hp \<longleftrightarrow> table_inv env hp \<and> parser_state hp < WSI_TOKEN_COUNT \<and>
     parser_state hp \<notin> set methods \<and> parser_state hp \<noteq> WSI_TOKEN_CHALLENGE \<and> ues hp = URIES_IDLE \<and>
     ah_frags hp ! ah_nfrag hp = \<lparr>f_offset = ah_pos hp, f_len = 0, f_nfrag = 0\<rparr> \<and>
     ah_frag_index hp ! parser_state hp = ah_nfrag hp"

lemma awaiting_bounds:
  "awaiting env hp \<Longrightarrow> ah_nfrag hp < length (ah_frags hp) \<and> length (ah_data hp) = max_http_header_data env \<and>
     length (ah_data hp) < 65536 \<and> parser_state hp < length (ah_frag_index hp)"
  by (simp add: awaiting_def table_inv_def)

lemma holding_Nil: "awaiting env hp \<Longrightarrow> holding [] hp = hp"
  by (simp add: holding_def awaiting_def list_update_same_conv table_inv_def)

lemma issue_holding:
  assumes "awaiting env hp" and "ah_pos hp + length w < max_http_header_data env" and "length w < current_token_limit hp"
    and "c \<noteq> 0"
  shows "issue_char env c (holding w hp) = Some (0, holding (w @ [c]) hp)"
  using assms awaiting_bounds [OF assms(1)]
  by (simp add: issue_char_def lws_pos_in_bounds_def holding_def frag_at_def put_data_def set_frag_def inc_len_def
      splice_snoc)

lemma parse_holding:
  assumes "awaiting env hp" and "ah_pos hp + length w < max_http_header_data env" and "length w < current_token_limit hp"
    and "c \<noteq> 0" "c \<noteq> 0x0d" "\<not> (w = [] \<and> c = 32)"
  shows "lws_parse env c (holding w hp) = Some (0, holding (w @ [c]) hp)"
proof -
  have "lws_parse env c (holding w hp) = parse_check_eol env c (holding w hp)"
    using assms awaiting_bounds [OF assms(1)]
    by (auto simp: lws_parse_def parse_value_def holding_def awaiting_def index_at_def frag_at_def)
  also have "\<dots> = Some (0, holding (w @ [c]) hp)"
    using assms(1,5) issue_holding [OF assms(1-4)]
    by (simp add: parse_check_eol_def parse_swallow_def) (simp add: holding_def awaiting_def)
  finally show ?thesis .
qed

lemma parse_value_bytes:
  assumes "awaiting env hp" and "ah_pos hp + length (w @ v) \<le> max_http_header_data env"
    and "length (w @ v) \<le> current_token_limit hp" and "set v \<inter> {0, 0x0d} = {}" and "\<not> (w = [] \<and> v \<noteq> [] \<and> hd v = 32)"
  shows "parse_bytes env (v @ rest) (holding w hp) = parse_bytes env rest (holding (w @ v) hp)"
  using assms
proof (induction v arbitrary: w)
  case (Cons c v)
  have "lws_parse env c (holding w hp) = Some (0, holding (w @ [c]) hp)"
    using Cons.prems by (intro parse_holding) auto
  moreover have "parser_state (holding (w @ [c]) hp) \<noteq> WSI_PARSING_COMPLETE"
    using Cons.prems(1) by (simp add: holding_def awaiting_def)
  ultimately show ?case using Cons.IH [of "w @ [c]"] Cons.prems by simp
qed simp

definition sealed :: "byte list \<Rightarrow> hp \<Rightarrow> hp" where
  "sealed w hp = (holding w hp)\<lparr>ah_data := splice (ah_pos hp) (w @ [0]) (ah_data hp), ah_pos := ah_pos hp + length w + 1,
     parser_state := WSI_TOKEN_NAME_PART, lextable_pos := 0\<rparr>"

lemma parse_eol:
  assumes "awaiting env hp" and "ah_pos hp + length w < max_http_header_data env" and "length w < current_token_limit hp"
  shows "parse_bytes env [0x0d, 0x0a] (holding w hp) = Some (0, sealed w hp, [])"
proof -
  let ?cr = "(holding w hp)\<lparr>ah_data := splice (ah_pos hp) (w @ [0]) (ah_data hp), ah_pos := ah_pos hp + length w + 1,
     parser_state := WSI_TOKEN_SKIPPING_SAW_CR\<rparr>"
  have "lws_parse env 0x0d (holding w hp) = parse_check_eol env 0x0d (holding w hp)"
    using assms awaiting_bounds [OF assms(1)]
    by (auto simp: lws_parse_def parse_value_def holding_def awaiting_def index_at_def frag_at_def)
  also have "\<dots> = Some (0, ?cr)"
    using assms awaiting_bounds [OF assms(1)]
    by (simp add: parse_check_eol_def parse_swallow_def issue_char_def lws_pos_in_bounds_def holding_def awaiting_def
        frag_at_def put_data_def splice_snoc)
  finally have "lws_parse env 0x0d (holding w hp) = Some (0, ?cr)" .
  moreover have "lws_parse env 0x0a ?cr = Some (0, sealed w hp)"
    using assms(1) by (simp add: lws_parse_def sealed_def) (simp add: holding_def awaiting_def)
  ultimately show ?thesis by (simp add: sealed_def)
qed

subsection \<open>From the name to the value\<close>

definition token_limit :: "hp_env \<Rightarrow> nat \<Rightarrow> nat" where
  "token_limit env t = (case token_limits env of Some ls \<Rightarrow> ls ! t | None \<Rightarrow> max_http_header_data env)"

definition opened :: "hp_env \<Rightarrow> nat \<Rightarrow> hp \<Rightarrow> hp" where
  "opened env t hp = hp\<lparr>parser_state := t, current_token_limit := token_limit env t, ah_nfrag := Suc (ah_nfrag hp),
     ah_frags := (ah_frags hp)[Suc (ah_nfrag hp) := fresh hp], ah_frag_index := (ah_frag_index hp)[t := Suc (ah_nfrag hp)]\<rparr>"

lemma any_index_same: "index_at hp t = Some 0 \<Longrightarrow> any_index hp (filter (\<lambda>m. m = t) ms) = Some False"
  by (induction ms) auto

lemma parse_known_opened:
  assumes "env_ok env" and "table_inv env hp" and "t < 80"
    and "t \<noteq> WSI_TOKEN_CHALLENGE" "t \<noteq> WSI_TOKEN_SWORIGIN" and "ah_frag_index hp ! t = 0" and "Suc (ah_nfrag hp) < 172"
  shows "parse_known_name env t hp = Some (0, opened env t hp)"
proof -
  have "index_at hp t = Some 0" using assms(2,3,6) by (simp add: index_at_def table_inv_def)
  note unused = any_index_same [OF this]
  show ?thesis
    using assms
    by (auto simp: parse_known_name_def unused parse_start_fragment_def parse_excessive_def new_frag_def set_frag_def
        index_at_def set_index_def table_inv_def opened_def fresh_def token_limit_def env_ok_def split: option.splits)
qed

lemma opened_awaiting:
  assumes "env_ok env" and "table_inv env hp" "closed_lines hp" and "t < 80" and "t \<notin> set methods"
    and "t \<noteq> WSI_TOKEN_CHALLENGE" "t \<noteq> WSI_TOKEN_SWORIGIN" and "ah_frag_index hp ! t = 0" and "Suc (ah_nfrag hp) < 172"
    and "ues hp = URIES_IDLE"
  shows "awaiting env (opened env t hp)"
proof -
  have "returns (parse_known_name env t hp) (parse_ok env)" by (rule parse_known_name_ok [OF assms(1-4)])
  then have "parse_inv env (opened env t hp)"
    using parse_known_opened [OF assms(1,2,4,6-9)] by simp
  then show ?thesis
    using assms by (auto simp: awaiting_def parse_inv_def opened_def table_inv_def fresh_def)
qed

subsection \<open>The headers that were there\<close>

definition same_upto :: "hp \<Rightarrow> hp \<Rightarrow> bool" where
  "same_upto hp hp' \<longleftrightarrow> length (ah_frags hp') = length (ah_frags hp) \<and> take (ah_pos hp) (ah_data hp') = take (ah_pos hp) (ah_data hp) \<and>
     (\<forall>i \<in> {1..ah_nfrag hp}. ah_frags hp' ! i = ah_frags hp ! i)"

lemma total_length_same:
  "chains_ok hp (ah_nfrag hp) \<Longrightarrow> same_upto hp hp' \<Longrightarrow> n \<in> {1..ah_nfrag hp} \<Longrightarrow>
     total_length_loop k hp' n = total_length_loop k hp n"
proof (induction k arbitrary: n)
  case (Suc k)
  have "ah_frags hp' ! n = ah_frags hp ! n" "length (ah_frags hp') = length (ah_frags hp)"
    using Suc.prems(2,3) unfolding same_upto_def by blast+
  then show ?case
    using Suc.IH [OF Suc.prems(1,2), of "f_nfrag (ah_frags hp ! n)"] chain_link [OF Suc.prems(1,3)]
    by (auto simp: frag_at_def)
qed simp

lemma c_str_prefix: "0 \<in> set xs \<Longrightarrow> c_str (xs @ ys) = c_str xs"
  by (simp add: c_str_def takeWhile_append1)

lemma c_string_same:
  assumes "terminated hp (ah_pos hp) n" and "same_upto hp hp'" and "ah_pos hp \<le> length (ah_data hp)"
  shows "c_string_at hp' (f_offset (ah_frags hp ! n)) = c_string_at hp (f_offset (ah_frags hp ! n))"
proof -
  let ?o = "f_offset (ah_frags hp ! n)" and ?p = "ah_pos hp"
  obtain j where j: "?o \<le> j" "j < ?p" "ah_data hp ! j = 0" using assms(1) by (auto simp: terminated_def)
  have "drop ?o d = drop ?o (take ?p d) @ drop ?p d" for d :: "byte list"
    using j(1,2) by (metis append_take_drop_id drop_append drop_drop diff_is_0_eq drop0 length_take
        min.coboundedI2 less_imp_le order_trans drop_take le_add_diff_inverse2)
  note split = this
  have "drop ?o (take ?p (ah_data hp)) ! (j - ?o) = 0" "j - ?o < length (drop ?o (take ?p (ah_data hp)))"
    using j assms(3) by simp_all
  then have nul: "0 \<in> set (drop ?o (take ?p (ah_data hp)))" by (metis nth_mem)
  moreover have "take ?p (ah_data hp') = take ?p (ah_data hp)" using assms(2) by (simp add: same_upto_def)
  ultimately show ?thesis
    unfolding c_string_at_def split [of "ah_data hp"] split [of "ah_data hp'"] by (simp add: c_str_prefix)
qed

lemma hdr_copy_same:
  assumes "closed_lines hp" and "same_upto hp hp'" and "ah_pos hp \<le> length (ah_data hp)" and "chains_ok hp (ah_nfrag hp)"
  shows "n \<in> {1..ah_nfrag hp} \<Longrightarrow> hdr_copy_loop k hp' n p dst = hdr_copy_loop k hp n p dst"
proof (induction k arbitrary: n p dst)
  case (Suc k)
  have frags: "ah_frags hp' ! n = ah_frags hp ! n" "length (ah_frags hp') = length (ah_frags hp)"
    using assms(2) Suc.prems unfolding same_upto_def by blast+
  have "terminated hp (ah_pos hp) n" using assms(1) Suc.prems unfolding closed_lines_def by blast
  note str = c_string_same [OF this assms(2,3)]
  show ?case
    using Suc.IH [of "f_nfrag (ah_frags hp ! n)"] chain_link [OF assms(4) Suc.prems] frags str
    by (auto simp: frag_at_def intro!: Option.bind_cong)
qed simp

subsection \<open>A header line\<close>

lemma sealed_same:
  assumes "table_inv env hp" and "Suc (ah_nfrag hp) < 172" and "ah_pos hp + length v < max_http_header_data env"
  shows "same_upto hp (sealed v (opened env t hp))"
  using assms by (auto simp: same_upto_def sealed_def holding_def opened_def splice_def table_inv_def)

lemma sealed_copy:
  assumes "awaiting env hp" and "ah_pos hp + length v < max_http_header_data env" and "0 \<notin> set v"
    and "t = parser_state hp" "0 < ah_nfrag hp" and "length v < len" "len \<le> length dst"
  shows "lws_hdr_copy (sealed v hp) dst len t = Some (int (length v), v @ 0 # drop (length v + 1) dst)"
proof -
  let ?hp = "sealed v hp"
  have frag: "ah_frags ?hp ! ah_nfrag hp = \<lparr>f_offset = ah_pos hp, f_len = length v, f_nfrag = 0\<rparr>"
    "ah_nfrag hp < length (ah_frags ?hp)" "length (ah_frags ?hp) = 172"
    using assms(1) by (simp_all add: sealed_def holding_def awaiting_def table_inv_def)
  have index: "index_at ?hp t = Some (ah_nfrag hp)"
    using assms(1,4) by (simp add: index_at_def sealed_def holding_def awaiting_def table_inv_def)
  have "drop (ah_pos hp) (ah_data ?hp) = v @ 0 # drop (ah_pos hp + length v + 1) (ah_data hp)"
    using assms(1,2) by (simp add: sealed_def splice_def awaiting_def table_inv_def)
  then have "c_string_at ?hp (ah_pos hp) = Some v" 
    using assms(3) by (simp add: c_string_at_def c_str_def) (subst takeWhile_append2; auto)
  moreover have "put_at dst 0 (v @ [0]) = Some (v @ 0 # drop (length v + 1) dst)" using assms(6,7) by (simp add: put_at_def)
  ultimately show ?thesis
    using frag index assms(5,6)
    by (simp add: lws_hdr_copy_def lws_hdr_total_length_def frag_at_def numeral_eq_Suc)
qed

text \<open>C17: A header line is stored and nothing else is disturbed. A line \<^verbatim>\<open>name value CRLF\<close> with a known name, in
  any case, that did not occur yet, fed to the parser at the start of a line, takes the parser to the start
  of the next line; \<^verbatim>\<open>lws_hdr_copy\<close> then gives the value, without the space, and gives for every
  other header what it gave before.\<close>

theorem header_line_stored:
  assumes env: "env_ok env" and inv: "parse_inv env hp" "parser_state hp = WSI_TOKEN_NAME_PART" "lextable_pos hp = 0" "ues hp = URIES_IDLE"
    and name: "t < 80" "map to_lower name = header_names ! t" "t \<notin> set methods" "t \<noteq> WSI_TOKEN_CHALLENGE" "t \<noteq> WSI_TOKEN_SWORIGIN"
    and first: "ah_frag_index hp ! t = 0" and "value": "set v \<inter> {0, 0x0d} = {}" "v = [] \<or> hd v \<noteq> 32"
    and room: "Suc (ah_nfrag hp) < 172" "length v < token_limit env t" "ah_pos hp + length v < max_http_header_data env"
  shows "\<exists>hp'. parse_bytes env (name @ 32 # v @ [0x0d, 0x0a]) hp = Some (0, hp', []) \<and>
     parser_state hp' = WSI_TOKEN_NAME_PART \<and> lextable_pos hp' = 0 \<and>
     (\<forall>len dst. length v < len \<and> len \<le> length dst \<longrightarrow>
        lws_hdr_copy hp' dst len t = Some (int (length v), v @ 0 # drop (length v + 1) dst)) \<and>
     (\<forall>h len dst. h < WSI_TOKEN_COUNT \<and> h \<noteq> t \<longrightarrow> lws_hdr_copy hp' dst len h = lws_hdr_copy hp dst len h)"
proof -
  have table: "table_inv env hp" and closed: "closed_lines hp" using inv by (auto simp: parse_inv_def)
  have run: "lex_run 0 name = Some t" using name(1,2) by (simp add: lex_run_names)
  obtain i where name_run: "parse_bytes env (name @ rest) hp =
     do {
       (r, hp) \<leftarrow> parse_known_name env t (hp\<lparr>lextable_pos := i\<rparr>);
       if r \<noteq> 0 then Some (-1, hp, rest)
       else if parser_state hp = WSI_PARSING_COMPLETE then Some (0, hp, rest)
       else parse_bytes env rest hp
     }" if "rest = 32 # v @ [0x0d, 0x0a]" for rest
    using parse_name_run [OF run lex_reach_start inv(2)] inv(3) by fastforce
  let ?named = "hp\<lparr>lextable_pos := i\<rparr>"
  let ?hp = "opened env t ?named"
  have known: "parse_known_name env t ?named = Some (0, ?hp)"
    using table first room(1) by (intro parse_known_opened [OF env _ name(1,4,5)]) auto
  have aw: "awaiting env ?hp"
    using table closed first room(1) inv(4) by (intro opened_awaiting [OF env _ _ name(1,3,4,5)]) auto
  have room': "ah_pos ?hp + length v < max_http_header_data env" "length v < current_token_limit ?hp"
    using room by (simp_all add: opened_def)
  have space: "lws_parse env 32 ?hp = Some (0, ?hp)"
    using aw awaiting_bounds [OF aw] by (simp add: awaiting_def lws_parse_def parse_value_def index_at_def frag_at_def)
  have "parse_bytes env (v @ [0x0d, 0x0a]) (holding [] ?hp) = parse_bytes env [0x0d, 0x0a] (holding v ?hp)"
    using parse_value_bytes [OF aw, of "[]" v "[0x0d, 0x0a]"] room' "value" by auto
  also have "\<dots> = Some (0, sealed v ?hp, [])" by (rule parse_eol [OF aw room'])
  finally have val: "parse_bytes env (v @ [0x0d, 0x0a]) ?hp = Some (0, sealed v ?hp, [])"
    unfolding holding_Nil [OF aw] .
  have state: "parser_state ?hp \<noteq> WSI_PARSING_COMPLETE" using name(1) by (simp add: opened_def)
  have "parse_bytes env (name @ 32 # v @ [0x0d, 0x0a]) hp = Some (0, sealed v ?hp, [])"
    unfolding name_run [OF refl] known using space val state by simp
  moreover have "parser_state (sealed v ?hp) = WSI_TOKEN_NAME_PART" "lextable_pos (sealed v ?hp) = 0"
    by (simp_all add: sealed_def)
  moreover have "lws_hdr_copy (sealed v ?hp) dst len t = Some (int (length v), v @ 0 # drop (length v + 1) dst)"
    if "length v < len" "len \<le> length dst" for len dst
    using that "value"(1) by (intro sealed_copy [OF aw room'(1)]) (auto simp: opened_def)
  moreover have "lws_hdr_copy (sealed v ?hp) dst len h = lws_hdr_copy hp dst len h" if "h < WSI_TOKEN_COUNT" "h \<noteq> t" for h len dst
  proof -
    have same: "same_upto hp (sealed v ?hp)"
      using sealed_same [of env ?named v t] table room by (simp add: same_upto_def)
    have index: "index_at (sealed v ?hp) h = index_at hp h" "ah_frag_index hp ! h \<le> ah_nfrag hp" "h < length (ah_frag_index hp)"
      using that table by (auto simp: index_at_def sealed_def holding_def opened_def table_inv_def)
    have here: "index_at hp h = Some (ah_frag_index hp ! h)" using index(3) by (simp add: index_at_def)
    have len: "length (ah_frags (sealed v ?hp)) = length (ah_frags hp)" using same by (simp add: same_upto_def)
    show ?thesis
    proof (cases "ah_frag_index hp ! h = 0")
      case True
      then show ?thesis using index here by (simp add: lws_hdr_copy_def lws_hdr_total_length_def)
    next
      case False
      then have "ah_frag_index hp ! h \<in> {1..ah_nfrag hp}" using index(2) by simp
      then have "total_length_loop k (sealed v ?hp) (ah_frag_index hp ! h) = total_length_loop k hp (ah_frag_index hp ! h)"
        "hdr_copy_loop k (sealed v ?hp) (ah_frag_index hp ! h) 0 dst = hdr_copy_loop k hp (ah_frag_index hp ! h) 0 dst" for k
        using total_length_same [OF table_chains [OF table] same] hdr_copy_same [OF closed same _ table_chains [OF table]] table
        by (auto simp: table_inv_def)
      then show ?thesis using index here len by (simp add: lws_hdr_copy_def lws_hdr_total_length_def cong: if_cong)
    qed
  qed
  ultimately show ?thesis by blast
qed

theorem header_line_stored_witness:
  "\<exists>hp'. parse_bytes (plain_hp_env 64) (bytes_of ''HoSt:'' @ 32 # bytes_of ''ab'' @ [0x0d, 0x0a])
       (start_headers (lws_header_table_reset (empty_hp 64))) = Some (0, hp', []) \<and>
     lws_hdr_copy hp' (replicate 5 1) 4 3 = Some (2, bytes_of ''ab'' @ [0, 1, 1])"
proof -
  have "parse_inv (plain_hp_env 64) (start_headers (lws_header_table_reset (empty_hp 64)))"
    by (rule start_inv) (simp_all add: plain_hp_env_def empty_hp_def env_ok_def)
  from header_line_stored [OF _ this, of 3 "bytes_of ''HoSt:''" "bytes_of ''ab''"] show ?thesis
    by (simp add: env_ok_def plain_hp_env_def start_headers_def lws_header_table_reset_def empty_hp_def header_names_def
        bytes_of_def to_lower_def methods_def token_limit_def no_frag_def) (auto simp: numeral_eq_Suc)
qed

end
