(* ===== verification/Hpack_Huffman.thy ===== *)
theory Hpack_Huffman
  imports Http_Lextable
begin

text \<open>
  The Huffman code of HPACK, the generated \<^verbatim>\<open>huftable.h\<close>: the table byte by byte (in rows of 64), the decoder step
  \<^verbatim>\<open>huftable_decode\<close> of \<^verbatim>\<open>hpack.c\<close>, and the proof that the table decodes exactly the code of RFC 7541, which is the
  table \<^verbatim>\<open>huf_literal\<close> of the generator \<^verbatim>\<open>minihuf.c\<close>.
\<close>

subsection \<open>The table\<close>

definition huf_row_0 :: "nat list" where
  "huf_row_0 =
    [66, 1, 92, 1, 102, 1, 116, 1, 140, 1, 70, 1, 117, 1, 64, 1, 69, 1, 64, 1, 1, 3, 1, 91, 0, 36,
     114, 1, 114, 1, 83, 1, 123, 1, 107, 1, 132, 1, 1, 6, 179, 1, 195, 1, 1, 140, 1, 138, 1, 135,
     142, 1, 15, 1, 164, 1, 183, 1, 200, 1, 1, 15, 1, 7]"

definition huf_row_1 :: "nat list" where
  "huf_row_1 =
    [1, 3, 254, 1, 2, 3, 1, 2, 4, 5, 6, 7, 1, 14, 1, 12, 8, 11, 167, 1, 1, 123, 239, 1, 9, 142, 10,
     1, 17, 1, 100, 1, 249, 1, 1, 10, 10, 13, 12, 14, 1, 2, 15, 16, 17, 18, 1, 5, 1, 2, 19, 20, 21,
     23, 22, 0, 1, 2, 24, 25, 26, 27, 1, 2]"

definition huf_row_2 :: "nat list" where
  "huf_row_2 =
    [28, 29, 30, 31, 19, 1, 1, 15, 75, 1, 1, 12, 32, 37, 1, 8, 33, 34, 124, 1, 35, 62, 1, 5, 38,
     42, 63, 1, 39, 43, 40, 41, 44, 59, 45, 46, 1, 8, 1, 6, 47, 51, 1, 45, 1, 2, 48, 49, 50, 97,
     52, 53, 1, 2, 54, 55, 56, 57, 6, 1, 44, 1, 47, 1]"

definition huf_row_3 :: "nat list" where
  "huf_row_3 =
    [1, 7, 58, 66, 60, 96, 1, 33, 1, 29, 61, 65, 64, 91, 67, 68, 1, 8, 1, 4, 1, 2, 69, 70, 71, 72,
     1, 2, 73, 74, 75, 76, 1, 4, 1, 2, 77, 78, 79, 80, 1, 2, 81, 82, 83, 84, 1, 17, 1, 2, 85, 86,
     87, 89, 88, 90, 1, 31, 1, 23, 92, 195, 93, 126]"

definition huf_row_4 :: "nat list" where
  "huf_row_4 =
    [94, 125, 95, 98, 1, 5, 99, 101, 1, 2, 100, 102, 103, 104, 105, 111, 1, 5, 106, 107, 1, 2, 108,
     109, 110, 112, 113, 118, 114, 117, 115, 116, 1, 2, 119, 120, 121, 122, 127, 220, 208, 1, 128,
     130, 46, 1, 1, 27, 1, 6, 230, 1, 129, 132, 1, 20, 1, 48, 131, 162, 1, 2, 133, 134]"

definition huf_row_5 :: "nat list" where
  "huf_row_5 =
    [136, 146, 137, 138, 1, 2, 139, 140, 141, 143, 1, 6, 144, 145, 1, 18, 1, 5, 1, 3, 147, 149,
     148, 159, 150, 151, 1, 8, 152, 155, 66, 1, 1, 12, 153, 161, 1, 5, 1, 3, 154, 156, 157, 158,
     160, 163, 1, 7, 164, 169, 1, 9, 1, 3, 165, 166, 167, 172, 168, 174, 170, 173, 1, 27]"

definition huf_row_6 :: "nat list" where
  "huf_row_6 =
    [1, 42, 171, 206, 1, 9, 175, 180, 1, 39, 1, 5, 176, 177, 1, 7, 1, 5, 178, 181, 179, 209, 182,
     183, 184, 194, 185, 186, 1, 4, 187, 189, 1, 7, 188, 191, 190, 196, 1, 13, 1, 10, 1, 8, 192,
     193, 197, 231, 1, 27, 198, 228, 27, 1, 1, 25, 199, 207, 200, 201, 1, 6, 202, 205]"

definition huf_row_7 :: "nat list" where
  "huf_row_7 =
    [13, 1, 23, 1, 255, 1, 203, 204, 210, 213, 1, 20, 1, 9, 1, 2, 211, 212, 214, 221, 215, 225, 1,
     7, 216, 217, 1, 9, 218, 219, 1, 8, 222, 223, 224, 226, 227, 229, 232, 233, 234, 235, 236, 237,
     238, 240, 241, 244, 242, 243, 1, 4, 1, 2, 245, 246, 247, 248, 1, 2, 250, 251, 252, 253]"

definition huf_terms :: "nat list" where
  "huf_terms =
    [0, 0, 0, 3, 1, 0, 3, 0, 52, 15, 67, 3, 241, 60, 252, 60, 15, 48, 55, 247, 15, 195, 207, 3, 60,
     252, 192, 243, 240, 60, 252, 240, 207, 252, 204, 255, 252, 13, 52, 204, 207, 51, 240, 51, 12,
     63, 195, 63, 204, 48, 252, 207, 60, 240, 12, 207, 208, 3, 63, 51, 255, 255, 195, 243]"

definition huf_rows :: "nat list list" where
  "huf_rows = [huf_row_0, huf_row_1, huf_row_2, huf_row_3, huf_row_4, huf_row_5, huf_row_6, huf_row_7]"

definition huf_lextable :: "nat list" where
  "huf_lextable = concat huf_rows"

text \<open>\<^verbatim>\<open>huftable_decode\<close>: a terminal entry is marked with bit 15, any other is the distance to the next pair.\<close>

definition huftable_decode :: "nat \<Rightarrow> bool \<Rightarrow> nat option" where
  "huftable_decode pos c =
     (let q = pos + of_bool c in
      if length huf_lextable \<le> q then None
      else if odd (huf_terms ! (q div 8) div 2 ^ (q mod 8)) then Some (huf_lextable ! q + 0x8000)
      else Some (pos + 2 * (huf_lextable ! q)))"

subsection \<open>The code\<close>

text \<open>Code and length of each byte, and of the end of a string (256).\<close>

definition huf_codes_0 :: "(nat \<times> nat) list" where
  "huf_codes_0 =
    [(8184, 13), (8388568, 23), (268435426, 28), (268435427, 28), (268435428, 28), (268435429, 28),
     (268435430, 28), (268435431, 28), (268435432, 28), (16777194, 24), (1073741820, 30),
     (268435433, 28), (268435434, 28), (1073741821, 30), (268435435, 28), (268435436, 28),
     (268435437, 28), (268435438, 28), (268435439, 28), (268435440, 28), (268435441, 28),
     (268435442, 28), (1073741822, 30), (268435443, 28), (268435444, 28), (268435445, 28),
     (268435446, 28), (268435447, 28), (268435448, 28), (268435449, 28), (268435450, 28),
     (268435451, 28), (20, 6), (1016, 10), (1017, 10), (4090, 12), (8185, 13), (21, 6), (248, 8),
     (2042, 11), (1018, 10), (1019, 10), (249, 8), (2043, 11), (250, 8), (22, 6), (23, 6), (24, 6),
     (0, 5), (1, 5), (2, 5), (25, 6), (26, 6), (27, 6), (28, 6), (29, 6), (30, 6), (31, 6),
     (92, 7), (251, 8), (32764, 15), (32, 6), (4091, 12), (1020, 10)]"

definition huf_codes_1 :: "(nat \<times> nat) list" where
  "huf_codes_1 =
    [(8186, 13), (33, 6), (93, 7), (94, 7), (95, 7), (96, 7), (97, 7), (98, 7), (99, 7), (100, 7),
     (101, 7), (102, 7), (103, 7), (104, 7), (105, 7), (106, 7), (107, 7), (108, 7), (109, 7),
     (110, 7), (111, 7), (112, 7), (113, 7), (114, 7), (252, 8), (115, 7), (253, 8), (8187, 13),
     (524272, 19), (8188, 13), (16380, 14), (34, 6), (32765, 15), (3, 5), (35, 6), (4, 5), (36, 6),
     (5, 5), (37, 6), (38, 6), (39, 6), (6, 5), (116, 7), (117, 7), (40, 6), (41, 6), (42, 6),
     (7, 5), (43, 6), (118, 7), (44, 6), (8, 5), (9, 5), (45, 6), (119, 7), (120, 7), (121, 7),
     (122, 7), (123, 7), (32766, 15), (2044, 11), (16381, 14), (8189, 13), (268435452, 28)]"

definition huf_codes_2 :: "(nat \<times> nat) list" where
  "huf_codes_2 =
    [(1048550, 20), (4194258, 22), (1048551, 20), (1048552, 20), (4194259, 22), (4194260, 22),
     (4194261, 22), (8388569, 23), (4194262, 22), (8388570, 23), (8388571, 23), (8388572, 23),
     (8388573, 23), (8388574, 23), (16777195, 24), (8388575, 23), (16777196, 24), (16777197, 24),
     (4194263, 22), (8388576, 23), (16777198, 24), (8388577, 23), (8388578, 23), (8388579, 23),
     (8388580, 23), (2097116, 21), (4194264, 22), (8388581, 23), (4194265, 22), (8388582, 23),
     (8388583, 23), (16777199, 24), (4194266, 22), (2097117, 21), (1048553, 20), (4194267, 22),
     (4194268, 22), (8388584, 23), (8388585, 23), (2097118, 21), (8388586, 23), (4194269, 22),
     (4194270, 22), (16777200, 24), (2097119, 21), (4194271, 22), (8388587, 23), (8388588, 23),
     (2097120, 21), (2097121, 21), (4194272, 22), (2097122, 21), (8388589, 23), (4194273, 22),
     (8388590, 23), (8388591, 23), (1048554, 20), (4194274, 22), (4194275, 22), (4194276, 22),
     (8388592, 23), (4194277, 22), (4194278, 22), (8388593, 23)]"

definition huf_codes_3 :: "(nat \<times> nat) list" where
  "huf_codes_3 =
    [(67108832, 26), (67108833, 26), (1048555, 20), (524273, 19), (4194279, 22), (8388594, 23),
     (4194280, 22), (33554412, 25), (67108834, 26), (67108835, 26), (67108836, 26),
     (134217694, 27), (134217695, 27), (67108837, 26), (16777201, 24), (33554413, 25),
     (524274, 19), (2097123, 21), (67108838, 26), (134217696, 27), (134217697, 27), (67108839, 26),
     (134217698, 27), (16777202, 24), (2097124, 21), (2097125, 21), (67108840, 26), (67108841, 26),
     (268435453, 28), (134217699, 27), (134217700, 27), (134217701, 27), (1048556, 20),
     (16777203, 24), (1048557, 20), (2097126, 21), (4194281, 22), (2097127, 21), (2097128, 21),
     (8388595, 23), (4194282, 22), (4194283, 22), (33554414, 25), (33554415, 25), (16777204, 24),
     (16777205, 24), (67108842, 26), (8388596, 23), (67108843, 26), (134217702, 27),
     (67108844, 26), (67108845, 26), (134217703, 27), (134217704, 27), (134217705, 27),
     (134217706, 27), (134217707, 27), (268435454, 28), (134217708, 27), (134217709, 27),
     (134217710, 27), (134217711, 27), (134217712, 27), (67108846, 26)]"

definition huf_codes_4 :: "(nat \<times> nat) list" where
  "huf_codes_4 =
    [(1073741823, 30)]"

definition huf_code_rows :: "(nat \<times> nat) list list" where
  "huf_code_rows = [huf_codes_0, huf_codes_1, huf_codes_2, huf_codes_3, huf_codes_4]"

definition huf_codes :: "(nat \<times> nat) list" where
  "huf_codes = concat huf_code_rows"

text \<open>The bits of a code, the most significant first.\<close>

fun low_bits :: "nat \<Rightarrow> nat \<Rightarrow> bool list" where
  "low_bits c 0 = []"
| "low_bits c (Suc n) = odd c # low_bits (c div 2) n"

definition huf_code :: "nat \<Rightarrow> bool list" where
  "huf_code s = (case huf_codes ! s of (c, n) \<Rightarrow> rev (low_bits c n))"

text \<open>All words that end in a terminal entry, with the byte it holds.\<close>

fun huf_words :: "nat \<Rightarrow> nat \<Rightarrow> (bool list \<times> nat) list" where
  "huf_words 0 pos = []"
| "huf_words (Suc k) pos =
     concat (map (\<lambda>b. case huftable_decode pos b of
         None \<Rightarrow> []
       | Some r \<Rightarrow> if 0x8000 \<le> r then [([b], r - 0x8000)] else map (apfst (Cons b)) (huf_words k r)) [False, True])"

text \<open>The symbols in the order of the tree.\<close>

definition huf_order :: "nat list" where
  "huf_order =
    [48, 49, 50, 97, 99, 101, 105, 111, 115, 116, 32, 37, 45, 46, 47, 51, 52, 53, 54, 55, 56, 57,
     61, 65, 95, 98, 100, 102, 103, 104, 108, 109, 110, 112, 114, 117, 58, 66, 67, 68, 69, 70, 71,
     72, 73, 74, 75, 76, 77, 78, 79, 80, 81, 82, 83, 84, 85, 86, 87, 89, 106, 107, 113, 118, 119,
     120, 121, 122, 38, 42, 44, 59, 88, 90, 33, 34, 40, 41, 63, 39, 43, 124, 35, 62, 0, 36, 64, 91,
     93, 126, 94, 125, 60, 96, 123, 92, 195, 208, 128, 130, 131, 162, 184, 194, 224, 226, 153, 161,
     167, 172, 176, 177, 179, 209, 216, 217, 227, 229, 230, 129, 132, 133, 134, 136, 146, 154, 156,
     160, 163, 164, 169, 170, 173, 178, 181, 185, 186, 187, 189, 190, 196, 198, 228, 232, 233, 1,
     135, 137, 138, 139, 140, 141, 143, 147, 149, 150, 151, 152, 155, 157, 158, 165, 166, 168, 174,
     175, 180, 182, 183, 188, 191, 197, 231, 239, 9, 142, 144, 145, 148, 159, 171, 206, 215, 225,
     236, 237, 199, 207, 234, 235, 192, 193, 200, 201, 202, 205, 210, 213, 218, 219, 238, 240, 242,
     243, 255, 203, 204, 211, 212, 214, 221, 222, 223, 241, 244, 245, 246, 247, 248, 250, 251, 252,
     253, 254, 2, 3, 4, 5, 6, 7, 8, 11, 12, 14, 15, 16, 17, 18, 19, 20, 21, 23, 24, 25, 26, 27, 28,
     29, 30, 31, 127, 220, 249, 10, 13, 22, 256]"

subsection \<open>Evaluating the table\<close>

lemma huf_rows_length: "length huf_rows = 8" "map length huf_rows = replicate 8 64"
  by (simp_all add: huf_rows_def huf_row_0_def huf_row_1_def huf_row_2_def huf_row_3_def huf_row_4_def huf_row_5_def huf_row_6_def
      huf_row_7_def numeral_eq_Suc)

lemma length_huf: "length huf_lextable = 512"
  by (simp add: huf_lextable_def length_concat huf_rows_length sum_list_replicate)

lemma huf_nth:
  assumes "n < 512"
  shows "huf_lextable ! n = huf_rows ! (n div 64) ! (n mod 64)"
proof -
  have len: "length (huf_rows ! k) = 64" if "k < 8" for k
    using that arg_cong [OF huf_rows_length(2), of "\<lambda>r. r ! k"] by (simp add: huf_rows_length(1))
  have "concat huf_rows ! (64 * (n div 64) + n mod 64) = huf_rows ! (n div 64) ! (n mod 64)"
    using assms len by (intro nth_concat64) (simp_all add: huf_rows_length(1))
  then show ?thesis by (simp add: huf_lextable_def)
qed

definition huf_row :: "nat \<Rightarrow> nat \<Rightarrow> nat" where
  "huf_row k j = huf_rows ! k ! j"

lemma huf_row_simps:
  "huf_row 0 j = huf_row_0 ! j" "huf_row (Suc 0) j = huf_row_1 ! j" "huf_row 2 j = huf_row_2 ! j" "huf_row 3 j = huf_row_3 ! j"
  "huf_row 4 j = huf_row_4 ! j" "huf_row 5 j = huf_row_5 ! j" "huf_row 6 j = huf_row_6 ! j" "huf_row 7 j = huf_row_7 ! j"
  by (simp_all add: huf_row_def huf_rows_def)

lemmas huf_row_lookup = huf_row_0_def [THEN arg_cong, of "\<lambda>r. r ! j"] huf_row_1_def [THEN arg_cong, of "\<lambda>r. r ! j"]
  huf_row_2_def [THEN arg_cong, of "\<lambda>r. r ! j"] huf_row_3_def [THEN arg_cong, of "\<lambda>r. r ! j"]
  huf_row_4_def [THEN arg_cong, of "\<lambda>r. r ! j"] huf_row_5_def [THEN arg_cong, of "\<lambda>r. r ! j"]
  huf_row_6_def [THEN arg_cong, of "\<lambda>r. r ! j"] huf_row_7_def [THEN arg_cong, of "\<lambda>r. r ! j"]
  huf_terms_def [THEN arg_cong, of "\<lambda>r. r ! j"] for j

text \<open>The entry as an argument, so that it is looked up once.\<close>

definition huf_step :: "nat \<Rightarrow> bool \<Rightarrow> nat \<Rightarrow> nat \<Rightarrow> nat" where
  "huf_step base t e q = (if t then e + 0x8000 else base + 2 * e)"

definition huf_entry :: "nat \<Rightarrow> nat \<Rightarrow> nat" where
  "huf_entry base q = huf_step base (odd (huf_terms ! (q div 8) div 2 ^ (q mod 8))) (huf_row (q div 64) (q mod 64)) q"

definition huf_arm :: "bool \<Rightarrow> nat \<Rightarrow> nat \<Rightarrow> (bool list \<times> nat) list" where
  "huf_arm b k r = (if 0x8000 \<le> r then [([b], r - 0x8000)] else map (apfst (Cons b)) (huf_words k r))"

lemma huftable_decode_entry: "pos + 1 < 512 \<Longrightarrow> huftable_decode pos b = Some (huf_entry pos (pos + of_bool b))"
  by (cases b) (simp_all add: huftable_decode_def Let_def length_huf huf_nth huf_entry_def huf_step_def huf_row_def)

lemma huf_words_Suc:
  "pos + 1 < 512 \<Longrightarrow> huf_words (Suc k) pos = huf_arm False k (huf_entry pos pos) @ huf_arm True k (huf_entry pos (pos + 1))"
  by (simp add: huftable_decode_entry huf_arm_def)

lemma huf_words_numeral:
  "pos + 1 < 512 \<Longrightarrow> huf_words (numeral v) pos =
    huf_arm False (pred_numeral v) (huf_entry pos pos) @ huf_arm True (pred_numeral v) (huf_entry pos (pos + 1))"
  by (subst numeral_eq_Suc) (rule huf_words_Suc)

lemmas huf_eval = huf_words_numeral huf_arm_def huf_entry_def huf_step_def huf_row_simps huf_row_lookup

lemma huf_code_rows_length: "length huf_code_rows = 5" "map length huf_code_rows = [64, 64, 64, 64, 1]"
  by (simp_all add: huf_code_rows_def huf_codes_0_def huf_codes_1_def huf_codes_2_def huf_codes_3_def huf_codes_4_def)

definition huf_code_row :: "nat \<Rightarrow> nat \<Rightarrow> nat \<times> nat" where
  "huf_code_row k j = huf_code_rows ! k ! j"

lemma huf_codes_nth:
  assumes "s < 257"
  shows "huf_codes ! s = huf_code_row (s div 64) (s mod 64)"
proof -
  have len: "length huf_codes_0 = 64" "length huf_codes_1 = 64" "length huf_codes_2 = 64" "length huf_codes_3 = 64" "length huf_codes_4 = 1"
    using huf_code_rows_length(2) by (simp_all add: huf_code_rows_def)
  have full: "length (huf_code_rows ! k) = 64" if "k < 4" for k
  proof -
    have "k = 0 \<or> k = 1 \<or> k = 2 \<or> k = 3" using that by linarith
    then show ?thesis by (elim disjE) (simp_all add: huf_code_rows_def len)
  qed
  have last: "length (huf_code_rows ! 4) = 1" by (simp add: huf_code_rows_def len)
  define k j where kj: "k = s div 64" "j = s mod 64"
  have eq: "s = 64 * k + j" "j < 64" by (simp_all add: kj)
  have k: "k < 5" and j: "4 \<le> k \<Longrightarrow> k = 4 \<and> j = 0" using assms eq by linarith+
  have below: "\<forall>i < k. length (huf_code_rows ! i) = 64" using full k by simp
  have "j < length (huf_code_rows ! k)"
  proof (cases "k < 4")
    case True
    then show ?thesis using full eq(2) by simp
  next
    case False
    then show ?thesis using last j by simp
  qed
  then have "concat huf_code_rows ! (64 * k + j) = huf_code_rows ! k ! j"
    using k below by (intro nth_concat64) (simp_all add: huf_code_rows_length(1))
  then show ?thesis unfolding huf_codes_def huf_code_row_def kj [symmetric] eq(1) [symmetric] .
qed

lemma huf_code_row_simps:
  "huf_code_row 0 j = huf_codes_0 ! j" "huf_code_row (Suc 0) j = huf_codes_1 ! j" "huf_code_row 2 j = huf_codes_2 ! j"
  "huf_code_row 3 j = huf_codes_3 ! j" "huf_code_row 4 j = huf_codes_4 ! j"
  by (simp_all add: huf_code_row_def huf_code_rows_def)

lemmas huf_code_lookup = huf_codes_0_def [THEN arg_cong, of "\<lambda>r. r ! j"] huf_codes_1_def [THEN arg_cong, of "\<lambda>r. r ! j"]
  huf_codes_2_def [THEN arg_cong, of "\<lambda>r. r ! j"] huf_codes_3_def [THEN arg_cong, of "\<lambda>r. r ! j"]
  huf_codes_4_def [THEN arg_cong, of "\<lambda>r. r ! j"] for j

lemma low_bits_numeral: "low_bits c (numeral v) = odd c # low_bits (c div 2) (pred_numeral v)"
  by (subst numeral_eq_Suc) simp

lemmas huf_code_eval = huf_code_def huf_codes_nth huf_code_row_simps huf_code_lookup low_bits_numeral

lemma huf_words_eval: "huf_words 31 0 = map (\<lambda>s. (huf_code s, s mod 256)) huf_order"
  by (simp add: huf_order_def huf_eval huf_code_eval del: list.inject cong: nth_index_cong)

lemma huf_order_all: "set huf_order = {..<257}"
  by (rule equalityI) (simp_all add: huf_order_def lessThan_nat_numeral lessThan_Suc)

subsection \<open>Decoding bits\<close>

text \<open>A run of the decoder: the symbols, and where it is in the tree.\<close>

definition behind :: "nat list \<Rightarrow> (nat list \<times> nat) option \<Rightarrow> (nat list \<times> nat) option" where
  "behind s m = map_option (apfst (append s)) m"

lemma behind_simps [simp]:
  "behind s None = None" "behind s (Some (t, p)) = Some (s @ t, p)" "behind [] m = m" "behind s (behind t m) = behind (s @ t) m"
  by (cases m; auto simp: behind_def)+

fun huf_bits :: "nat \<Rightarrow> bool list \<Rightarrow> (nat list \<times> nat) option" where
  "huf_bits pos [] = Some ([], pos)"
| "huf_bits pos (b # bs) =
     (case huftable_decode pos b of
        None \<Rightarrow> None
      | Some r \<Rightarrow> if 0x8000 \<le> r then behind [r - 0x8000] (huf_bits 0 bs) else huf_bits r bs)"

lemma huf_bits_append: "huf_bits pos xs = Some (s, pos') \<Longrightarrow> huf_bits pos (xs @ ys) = behind s (huf_bits pos' ys)"
proof (induction pos xs arbitrary: s pos' rule: huf_bits.induct)
  case (2 pos b bs)
  then obtain r where r: "huftable_decode pos b = Some r" by (auto split: option.splits)
  show ?case
  proof (cases "0x8000 \<le> r")
    case True
    then obtain t where t: "huf_bits 0 bs = Some (t, pos')" "s = (r - 0x8000) # t"
      using "2.prems" r by (cases "huf_bits 0 bs") (auto simp: behind_def)
    show ?thesis using "2.IH"(1) [OF r True t(1)] r True t(2) by simp
  qed (use "2.IH"(2) "2.prems" r in simp)
qed simp

lemma huf_words_bits: "(w, s) \<in> set (huf_words k pos) \<Longrightarrow> huf_bits pos (w @ bs) = behind [s] (huf_bits 0 bs)"
proof (induction k arbitrary: pos w)
  case (Suc k)
  then obtain b where b: "(w, s) \<in> set (case huftable_decode pos b of None \<Rightarrow> []
      | Some r \<Rightarrow> if 0x8000 \<le> r then [([b], r - 0x8000)] else map (apfst (Cons b)) (huf_words k r))"
    by auto
  then obtain r where r: "huftable_decode pos b = Some r" by (cases "huftable_decode pos b") auto
  have w: "(w, s) \<in> set (if 0x8000 \<le> r then [([b], r - 0x8000)] else map (apfst (Cons b)) (huf_words k r))"
    using b by (simp only: r option.case)
  show ?case
  proof (cases "0x8000 \<le> r")
    case False
    then obtain w' where "w = b # w'" "(w', s) \<in> set (huf_words k r)" using w by auto
    then show ?thesis using Suc.IH r False by simp
  qed (use r w in auto)
qed simp

lemma huf_word: "s < 257 \<Longrightarrow> (huf_code s, s mod 256) \<in> set (huf_words 31 0)"
proof -
  assume "s < 257"
  then have "s \<in> set huf_order" by (simp add: huf_order_all)
  then show ?thesis by (simp add: huf_words_eval)
qed

lemma huf_bits_code: "s < 257 \<Longrightarrow> huf_bits 0 (huf_code s @ bs) = behind [s mod 256] (huf_bits 0 bs)"
  by (rule huf_words_bits [OF huf_word])

lemma huf_bits_codes: "\<forall>s \<in> set ss. s < 256 \<Longrightarrow> huf_bits 0 (concat (map huf_code ss) @ bs) = behind ss (huf_bits 0 bs)"
  by (induction ss) (simp_all add: huf_bits_code)

text \<open>The padding: less than eight ones are a path inside of the tree.\<close>

lemma huf_ones: "i < 7 \<Longrightarrow> huftable_decode (2 * i) True = Some (2 * i + 2)"
proof -
  assume "i < 7"
  then consider "i = 0" | "i = 1" | "i = 2" | "i = 3" | "i = 4" | "i = 5" | "i = 6" by linarith
  then show ?thesis
    by cases (simp_all add: huftable_decode_entry huf_entry_def huf_step_def huf_row_simps huf_row_lookup cong: nth_index_cong)
qed

lemma huf_bits_padding: "i + k < 8 \<Longrightarrow> huf_bits (2 * i) (replicate k True) = Some ([], 2 * (i + k))"
proof (induction k arbitrary: i)
  case (Suc k)
  have "huf_bits (2 * Suc i) (replicate k True) = Some ([], 2 * (Suc i + k))" using Suc.prems by (intro Suc.IH) simp
  then show ?case using Suc.prems by (simp add: huf_ones)
qed simp

lemma huf_table_bytes: "\<forall>e \<in> set huf_lextable. e < 256"
proof -
  have "list_all (list_all (\<lambda>e. e < 256)) huf_rows"
    by (simp add: huf_rows_def huf_row_0_def huf_row_1_def huf_row_2_def huf_row_3_def huf_row_4_def huf_row_5_def huf_row_6_def huf_row_7_def)
  then show ?thesis by (auto simp: huf_lextable_def list_all_iff)
qed

lemma huftable_decode_range: "huftable_decode pos b = Some r \<Longrightarrow> r < 0x8100 \<and> pos < 512"
proof -
  assume r: "huftable_decode pos b = Some r"
  define q where "q = pos + of_bool b"
  have q: "q < 512" using r by (auto simp: huftable_decode_def Let_def q_def length_huf split: if_splits)
  then have "huf_lextable ! q < 256" using huf_table_bytes length_huf nth_mem by metis
  moreover have "pos \<le> q" by (simp add: q_def)
  ultimately show ?thesis
    using r q by (auto simp: huftable_decode_def Let_def q_def [symmetric] split: if_splits)
qed

text \<open>C32: The table decodes the Huffman code of RFC 7541, and nothing else: the words that lead from the start to a terminal entry
  are the codes of the 257 symbols, and the entry holds the symbol (the end of a string, 256, as a zero byte).\<close>

theorem huffman_table_rfc:
  "set (huf_words 31 0) = (\<lambda>s. (huf_code s, s mod 256)) ` {..<257}"
  by (simp add: huf_words_eval huf_order_all)

end
