(* ===== verification/Hpack.thy ===== *)
theory Hpack
  imports Http_Header Hpack_Huffman
begin

text \<open>
  The header decoder of HTTP/2, \<^verbatim>\<open>hpack.c\<close>: the static and the dynamic table, \<^verbatim>\<open>lws_hpack_interpret\<close>, which eats a
  header block byte by byte and stores it in the header table of the stream, and the encoder of response headers. The
  record \<open>h2\<close> holds the fields of \<^verbatim>\<open>u.http2\<close> the decoder uses, the header table of the stream, and the dynamic table
  of its connection. \<open>None\<close> is an access outside of an array, a read of memory that was never written, or a shift the
  language does not define.
\<close>

subsection \<open>The state\<close>

datatype http2_hpack_state =
    HPKS_OPT_PADDING | HKPS_OPT_E_DEPENDENCY | HKPS_OPT_WEIGHT | HPKS_TYPE | HPKS_IDX_EXT | HPKS_HLEN | HPKS_HLEN_EXT | HPKS_DATA
  | HKPS_OPT_DISCARD_PADDING

datatype http2_hpack_type =
    HPKT_INDEXED_HDR_7 | HPKT_INDEXED_HDR_6_VALUE_INCR | HPKT_LITERAL_HDR_VALUE_INCR | HPKT_INDEXED_HDR_4_VALUE
  | HPKT_LITERAL_HDR_VALUE | HPKT_SIZE_5

record hpack_dt_entry =
  dt_token :: nat
  dt_arg_offset :: nat
  dt_arg_len :: nat

record hpack_dynamic_table =
  dt_entries :: "hpack_dt_entry option list"   \<comment> \<open>\<open>None\<close>: never written\<close>
  dt_args :: "byte list"
  dt_pos :: nat
  dt_next :: nat

record h2 =
  h2_hp :: hp
  h2_dyn :: "hpack_dynamic_table option"
  hpack :: http2_hpack_state
  hpack_type :: http2_hpack_type
  header_index :: nat
  hpack_len :: nat
  hpack_e_dep :: nat
  hpack_pos :: nat
  hpack_m :: nat
  huff :: bool
  in_value :: bool             \<comment> \<open>\<^verbatim>\<open>value\<close>\<close>
  h2_padding :: nat
  h2_priority :: bool          \<comment> \<open>\<^verbatim>\<open>LWS_HTTP2_FLAG_PRIORITY\<close> in \<^verbatim>\<open>flags\<close>\<close>
  h2_count :: nat
  h2_length :: nat

record h2_env =
  h2_table :: hp_env
  h2_malloc :: "nat \<Rightarrow> bool"    \<comment> \<open>whether an allocation of this size succeeds\<close>

definition static_token :: "nat list" where
  "static_token =
    [0, 35, 36, 36, 37, 37, 38, 38, 39, 39, 39, 39, 39, 39, 39, 40, 21, 22, 41, 17, 42, 43, 44, 25, 24, 45, 46, 47, 27, 48, 49,
     28, 26, 29, 50, 51, 52, 53, 3, 54, 19, 20, 55, 56, 57, 58, 59, 60, 61, 62, 30, 31, 63, 64, 65, 66, 67, 68, 69, 70, 71, 72]"

definition http2_canned :: "byte list list" where
  "http2_canned = map bytes_of
    ['''', '''', ''GET'', ''POST'', ''/'', ''/index.html'', ''http'', ''https'', ''200'', ''204'', ''206'', ''304'', ''400'', ''404'',
     ''500'', '''', ''gzip, deflate'']"

definition wrap32 :: "nat \<Rightarrow> nat" where
  "wrap32 n = n mod 2 ^ 32"

subsection \<open>Fragments of the header table\<close>

type_synonym h2_result = "(int \<times> h2) option"

definition lws_frag_start :: "nat \<Rightarrow> h2 \<Rightarrow> h2_result" where
  "lws_frag_start tok h =
     (if tok = 0 then Some (1, h)
      else if length (ah_frag_index (h2_hp h)) \<le> ah_nfrag (h2_hp h) then Some (1, h)
      else do {
        hp \<leftarrow> new_frag (h2_hp h);
        hp \<leftarrow> set_index tok (ah_nfrag hp) hp;
        Some (0, h\<lparr>h2_hp := hp\<rparr>)
      })"

definition lws_frag_append :: "h2_env \<Rightarrow> byte \<Rightarrow> h2 \<Rightarrow> h2_result" where
  "lws_frag_append env c h =
     do {
       hp \<leftarrow> put_data c (h2_hp h);
       f \<leftarrow> frag_at hp (ah_nfrag hp);
       hp \<leftarrow> set_frag (ah_nfrag hp) (inc_len f) hp;
       Some (of_bool (max_http_header_data (h2_table env) \<le> ah_pos hp), h\<lparr>h2_hp := hp\<rparr>)
     }"

definition lws_frag_end :: "h2_env \<Rightarrow> h2 \<Rightarrow> h2_result" where
  "lws_frag_end env h =
     do {
       (r, h) \<leftarrow> lws_frag_append env 0 h;
       if r \<noteq> 0 then Some (1, h)
       else Some (0, h\<lparr>h2_hp := (h2_hp h)\<lparr>ah_nfrag := ah_nfrag (h2_hp h) + 1\<rparr>\<rparr>)
     }"

text \<open>\<^verbatim>\<open>lws_dump_header\<close> copies the header to 200 bytes of the stack and ends it at \<^verbatim>\<open>s[len]\<close>, where \<^verbatim>\<open>len\<close> is -1 if it does not fit.\<close>

definition lws_dump_header :: "nat \<Rightarrow> h2 \<Rightarrow> unit option" where
  "lws_dump_header hdr h =
     do {
       (len, s) \<leftarrow> lws_hdr_copy (h2_hp h) (replicate 200 0) 199 hdr;
       assert_opt (0 \<le> len \<and> len < 200)
     }"

subsection \<open>The tables of indexed headers\<close>

text \<open>
  \<^verbatim>\<open>lws_token_from_index\<close>. The index is an \<^verbatim>\<open>int\<close>, the length of the static table is unsigned: a negative index is
  taken for one of the dynamic table and passes the check against \<^verbatim>\<open>num_entries\<close>.
\<close>

definition lws_token_from_index :: "nat \<Rightarrow> h2 \<Rightarrow> nat option" where
  "lws_token_from_index index h =
     (if index < length static_token then Some (static_token ! index)
      else case h2_dyn h of
        None \<Rightarrow> Some 0
      | Some dyn \<Rightarrow>
          let i = wrap32 (index + 2 ^ 32 - length static_token) in
          if 2 ^ 31 \<le> i then None
          else if length (dt_entries dyn) \<le> i then Some 0
          else map_option dt_token (dt_entries dyn ! i))"

definition new_dyn_table :: "h2_env \<Rightarrow> hpack_dynamic_table option" where
  "new_dyn_table env =
     (if h2_malloc env 32 \<and> h2_malloc env 1024 \<and> h2_malloc env 240
      then Some \<lparr>dt_entries = replicate 20 None, dt_args = replicate 1024 0, dt_pos = 0, dt_next = 0\<rparr> else None)"

definition lws_hpack_add_dynamic_header :: "h2_env \<Rightarrow> nat \<Rightarrow> byte list \<Rightarrow> h2 \<Rightarrow> h2_result" where
  "lws_hpack_add_dynamic_header env token arg h =
     (case (case h2_dyn h of None \<Rightarrow> new_dyn_table env | Some dyn \<Rightarrow> Some dyn) of
        None \<Rightarrow> Some (1, h)
      | Some dyn \<Rightarrow>
          let h = h\<lparr>h2_dyn := Some dyn\<rparr> in
          if dt_next dyn = length (dt_entries dyn) then Some (1, h)
          else if length (dt_args dyn) - dt_pos dyn < length arg then Some (1, h)
          else if length (dt_entries dyn) < dt_next dyn then None
          else Some (0, h\<lparr>h2_dyn := Some (dyn\<lparr>
            dt_entries := (dt_entries dyn)[dt_next dyn := Some \<lparr>dt_token = token, dt_arg_offset = dt_pos dyn, dt_arg_len = length arg\<rparr>],
            dt_args := take (dt_pos dyn) (dt_args dyn) @ arg @ drop (dt_pos dyn + length arg) (dt_args dyn),
            dt_pos := dt_pos dyn + length arg, dt_next := dt_next dyn + 1\<rparr>)\<rparr>))"

fun append_all :: "h2_env \<Rightarrow> byte list \<Rightarrow> h2 \<Rightarrow> h2_result" where
  "append_all env [] h = Some (0, h)"
| "append_all env (c # cs) h = do { (r, h) \<leftarrow> lws_frag_append env c h; if r \<noteq> 0 then Some (1, h) else append_all env cs h }"

definition lws_write_indexed_hdr :: "h2_env \<Rightarrow> nat \<Rightarrow> h2 \<Rightarrow> h2_result" where
  "lws_write_indexed_hdr env idx h =
     do {
       tok \<leftarrow> lws_token_from_index idx h;
       (r, h) \<leftarrow> lws_frag_start tok h;
       if r \<noteq> 0 then Some (1, h)
       else do {
         (r, h) \<leftarrow> append_all env (if idx < length http2_canned then http2_canned ! idx else []) h;
         if r \<noteq> 0 then Some (1, h)
         else do {
           (r, h) \<leftarrow> lws_frag_end env h;
           if r \<noteq> 0 then Some (1, h)
           else do { lws_dump_header tok h; Some (0, h) }
         }
       }
     }"

subsection \<open>The decoder\<close>

text \<open>The integer of RFC 7541, seven bits in each further byte.\<close>

definition hpack_extend :: "byte \<Rightarrow> h2 \<Rightarrow> h2 option" where
  "hpack_extend c h =
     (if 32 \<le> hpack_m h then None
      else Some (h\<lparr>hpack_len := wrap32 (hpack_len h + wrap32 (unat (c AND 0x7f) * 2 ^ hpack_m h)), hpack_m := (hpack_m h + 7) mod 256\<rparr>))"

definition extend_from :: "byte \<Rightarrow> h2 \<Rightarrow> h2" where
  "extend_from c h = h\<lparr>hpack_len := unat c, hpack_m := 0, hpack := HPKS_IDX_EXT\<rparr>"

definition hpack_type_byte :: "h2_env \<Rightarrow> byte \<Rightarrow> h2 \<Rightarrow> h2_result" where
  "hpack_type_byte env c h =
     (if wrap32 (h2_length h + 2 ^ 32 - h2_padding h) < h2_count h then Some (0, h)
      else if c AND 0x80 \<noteq> 0 then
        let h = h\<lparr>hpack_type := HPKT_INDEXED_HDR_7, header_index := unat (c AND 0x7f)\<rparr> in
        if c AND 0x7f = 0x7f then Some (0, extend_from (c AND 0x7f) h)
        else lws_write_indexed_hdr env (unat (c AND 0x7f)) h
      else if c AND 0x40 \<noteq> 0 then
        let h = h\<lparr>header_index := 0\<rparr> in
        if c = 0x40 then Some (0, h\<lparr>hpack_type := HPKT_LITERAL_HDR_VALUE_INCR, in_value := False, hpack := HPKS_HLEN\<rparr>)
        else let h = h\<lparr>hpack_type := HPKT_INDEXED_HDR_6_VALUE_INCR\<rparr> in
          if c AND 0x3f = 0x3f then Some (0, extend_from (c AND 0x3f) h)
          else Some (0, h\<lparr>header_index := unat (c AND 0x3f), in_value := True, hpack := HPKS_HLEN\<rparr>)
      else if c AND 0xf0 = 0x10 \<or> c AND 0xf0 = 0 then
        if c = 0 then Some (0, h\<lparr>hpack_type := HPKT_LITERAL_HDR_VALUE, hpack := HPKS_HLEN, in_value := False\<rparr>)
        else let h = h\<lparr>hpack_type := HPKT_INDEXED_HDR_4_VALUE, header_index := 0\<rparr> in
          if c AND 0xf = 0xf then Some (0, extend_from (c AND 0xf) h)
          else Some (0, h\<lparr>header_index := unat (c AND 0xf), in_value := True, hpack := HPKS_HLEN\<rparr>)
      else
        let h = h\<lparr>hpack_type := HPKT_SIZE_5\<rparr> in
        if c AND 0x1f = 0x1f then Some (0, extend_from (c AND 0x1f) h) else Some (0, h))"

definition hpack_idx_ext :: "h2_env \<Rightarrow> byte \<Rightarrow> h2 \<Rightarrow> h2_result" where
  "hpack_idx_ext env c h =
     do {
       h \<leftarrow> hpack_extend c h;
       if c AND 0x80 \<noteq> 0 then Some (0, h)
       else if hpack_type h = HPKT_INDEXED_HDR_7 then do {
         (r, h) \<leftarrow> lws_write_indexed_hdr env (hpack_len h) h;
         if r \<noteq> 0 then Some (1, h) else Some (0, h\<lparr>hpack := HPKS_TYPE\<rparr>)
       }
       else Some (0, h\<lparr>header_index := hpack_len h, in_value := True, hpack := HPKS_HLEN\<rparr>)
     }"

definition hpack_pre_data :: "h2 \<Rightarrow> h2_result" where
  "hpack_pre_data h =
     (if in_value h then
        if header_index h \<noteq> 0 then do {
          tok \<leftarrow> lws_token_from_index (header_index h) h;
          (r, h) \<leftarrow> lws_frag_start tok h;
          if r \<noteq> 0 then Some (1, h) else Some (0, h\<lparr>hpack := HPKS_DATA\<rparr>)
        }
        else Some (0, h\<lparr>hpack := HPKS_DATA\<rparr>)
      else Some (0, h\<lparr>h2_hp := (h2_hp h)\<lparr>parser_state := WSI_TOKEN_NAME_PART\<rparr>, hpack := HPKS_DATA\<rparr>))"

definition hpack_hlen :: "byte \<Rightarrow> h2 \<Rightarrow> h2_result" where
  "hpack_hlen c h =
     (let h = h\<lparr>huff := c AND 0x80 \<noteq> 0, hpack_pos := 0, hpack_len := unat (c AND 0x7f)\<rparr> in
      if hpack_len h < 0x7f then hpack_pre_data h
      else Some (0, h\<lparr>hpack_m := 0, hpack := HPKS_HLEN_EXT\<rparr>))"

definition hpack_hlen_ext :: "byte \<Rightarrow> h2 \<Rightarrow> h2_result" where
  "hpack_hlen_ext c h = do { h \<leftarrow> hpack_extend c h; if c AND 0x80 \<noteq> 0 then Some (0, h) else hpack_pre_data h }"

text \<open>One decoded byte of a name or a value.\<close>

definition hpack_emit :: "h2_env \<Rightarrow> byte \<Rightarrow> h2 \<Rightarrow> h2_result" where
  "hpack_emit env c1 h =
     (if in_value h then
        if header_index h \<noteq> 0 then do { (r, h) \<leftarrow> lws_frag_append env c1 h; Some (if r \<noteq> 0 then 1 else 0, h) } else Some (0, h)
      else do { (r, hp) \<leftarrow> lws_parse (h2_table env) c1 (h2_hp h); Some (if r \<noteq> 0 then 1 else 0, h\<lparr>h2_hp := hp\<rparr>) })"

text \<open>The eight bits of a byte, or the byte itself. The end of a string is a terminal entry with a zero, which is emitted.\<close>

fun hpack_bits :: "h2_env \<Rightarrow> nat \<Rightarrow> byte \<Rightarrow> h2 \<Rightarrow> h2_result" where
  "hpack_bits env 0 c h = Some (0, h)"
| "hpack_bits env (Suc n) c h =
     (if huff h then do {
        pos \<leftarrow> huftable_decode (hpack_pos h) (bit c 7);
        let h = h\<lparr>hpack_pos := pos\<rparr>;
        if pos = 0xffff then Some (1, h)
        else if pos < 0x8000 then hpack_bits env n (push_bit 1 c) h
        else do {
          (r, h) \<leftarrow> hpack_emit env (of_nat (pos - 0x8000)) (h\<lparr>hpack_pos := 0\<rparr>);
          if r \<noteq> 0 then Some (1, h) else hpack_bits env n (push_bit 1 c) h
        }
      }
      else hpack_emit env c h)"

definition hpack_data_end :: "h2_env \<Rightarrow> h2 \<Rightarrow> h2_result" where
  "hpack_data_end env h =
     do {
       (r, h) \<leftarrow> (if hpack_type h = HPKT_LITERAL_HDR_VALUE_INCR \<or> hpack_type h = HPKT_INDEXED_HDR_6_VALUE_INCR
         then do { tok \<leftarrow> lws_token_from_index (header_index h) h; lws_hpack_add_dynamic_header env tok [] h } else Some (0, h));
       if r \<noteq> 0 then Some (1, h)
       else if in_value h then do {
         (r, h) \<leftarrow> lws_frag_end env h;
         if r \<noteq> 0 then Some (1, h)
         else do {
           tok \<leftarrow> lws_token_from_index (header_index h) h;
           lws_dump_header tok h;
           Some (0, h\<lparr>hpack := if wrap32 (h2_count h + h2_padding h) = h2_length h then HKPS_OPT_DISCARD_PADDING else HPKS_TYPE\<rparr>)
         }
       }
       else Some (0, h\<lparr>in_value := True, hpack := HPKS_HLEN\<rparr>)
     }"

definition hpack_data :: "h2_env \<Rightarrow> byte \<Rightarrow> h2 \<Rightarrow> h2_result" where
  "hpack_data env c h =
     do {
       (r, h) \<leftarrow> hpack_bits env 8 c h;
       if r \<noteq> 0 then Some (1, h)
       else
         let h = h\<lparr>hpack_len := wrap32 (hpack_len h + 2 ^ 32 - 1)\<rparr> in
         if hpack_len h = 0 then hpack_data_end env h else Some (0, h)
     }"

definition lws_hpack_interpret :: "h2_env \<Rightarrow> byte \<Rightarrow> h2 \<Rightarrow> h2_result" where
  "lws_hpack_interpret env c h =
     (case hpack h of
        HPKS_OPT_PADDING \<Rightarrow>
          let h = h\<lparr>h2_padding := unat c\<rparr> in
          Some (0, if h2_priority h then h\<lparr>hpack := HKPS_OPT_E_DEPENDENCY, hpack_m := 4\<rparr> else h\<lparr>hpack := HPKS_TYPE\<rparr>)
      | HKPS_OPT_E_DEPENDENCY \<Rightarrow>
          let h = h\<lparr>hpack_e_dep := wrap32 (hpack_e_dep h * 256 + unat c), hpack_m := (hpack_m h + 255) mod 256\<rparr> in
          Some (0, if hpack_m h = 0 then h\<lparr>hpack := HKPS_OPT_WEIGHT\<rparr> else h)
      | HKPS_OPT_WEIGHT \<Rightarrow> Some (0, h\<lparr>hpack := HPKS_TYPE\<rparr>)
      | HPKS_TYPE \<Rightarrow> hpack_type_byte env c h
      | HPKS_IDX_EXT \<Rightarrow> hpack_idx_ext env c h
      | HPKS_HLEN \<Rightarrow> hpack_hlen c h
      | HPKS_HLEN_EXT \<Rightarrow> hpack_hlen_ext c h
      | HPKS_DATA \<Rightarrow> hpack_data env c h
      | HKPS_OPT_DISCARD_PADDING \<Rightarrow>
          let h = h\<lparr>h2_padding := (h2_padding h + 255) mod 256\<rparr> in
          Some (0, if h2_padding h = 0 then h\<lparr>hpack := HPKS_TYPE\<rparr> else h))"

text \<open>A header block, as \<^verbatim>\<open>lws_http2_parser\<close> feeds it; \<^verbatim>\<open>count\<close> is the number of bytes seen.\<close>

fun hpack_run :: "h2_env \<Rightarrow> byte list \<Rightarrow> h2 \<Rightarrow> h2_result" where
  "hpack_run env [] h = Some (0, h)"
| "hpack_run env (c # cs) h =
     do {
       (r, h) \<leftarrow> lws_hpack_interpret env c (h\<lparr>h2_count := wrap32 (h2_count h + 1)\<rparr>);
       if r \<noteq> 0 then Some (1, h) else hpack_run env cs h
     }"

subsection \<open>The encoder\<close>

text \<open>A buffer with a position; a write behind its end is outside of it.\<close>

definition put_or :: "byte \<Rightarrow> nat \<times> byte list \<Rightarrow> (nat \<times> byte list) option" where
  "put_or v = (\<lambda>(p, buf). if p < length buf then Some (p + 1, buf[p := buf ! p OR v]) else None)"

definition put_set :: "byte \<Rightarrow> nat \<times> byte list \<Rightarrow> (nat \<times> byte list) option" where
  "put_set v = (\<lambda>(p, buf). if p < length buf then Some (p + 1, buf[p := v]) else None)"

definition zero_here :: "nat \<times> byte list \<Rightarrow> (nat \<times> byte list) option" where
  "zero_here = (\<lambda>(p, buf). if p < length buf then Some (p, buf[p := 0]) else None)"

definition put_block :: "byte list \<Rightarrow> nat \<times> byte list \<Rightarrow> (nat \<times> byte list) option" where
  "put_block bs = (\<lambda>(p, buf). map_option (Pair (p + length bs)) (put_at buf p bs))"

fun http2_num_loop :: "nat \<Rightarrow> nat \<Rightarrow> nat \<times> byte list \<Rightarrow> (int \<times> nat \<times> byte list) option" where
  "http2_num_loop end num out =
     (if num < 128 then Some (0, out)
      else do {
        out \<leftarrow> put_set (0x80 OR of_nat (num mod 128)) out;
        if end \<le> fst out then Some (1, out) else http2_num_loop end (num div 128) out
      })"

declare http2_num_loop.simps [simp del]

definition lws_http2_num :: "nat \<Rightarrow> nat \<Rightarrow> nat \<Rightarrow> nat \<times> byte list \<Rightarrow> (int \<times> nat \<times> byte list) option" where
  "lws_http2_num starting_bits num end out =
     (let mask = 2 ^ starting_bits - 1 in
      if num < mask then do { out \<leftarrow> put_or (of_nat num) out; Some (of_bool (end \<le> fst out), out) }
      else do {
        out \<leftarrow> put_or (of_nat mask) out;
        if end \<le> fst out then Some (1, out) else http2_num_loop end (num - mask) out
      })"

definition lws_add_http2_header_by_name :: "byte list \<Rightarrow> byte list \<Rightarrow> nat \<Rightarrow> nat \<times> byte list \<Rightarrow> (int \<times> nat \<times> byte list) option" where
  "lws_add_http2_header_by_name name val end out =
     (let name = (if name \<noteq> [] \<and> last name = of_char CHR '':'' then butlast name else name) in
      if int end - int (fst out) < int (length name + length val + 8) then Some (1, out)
      else do {
        out \<leftarrow> put_set 0 out;
        out \<leftarrow> zero_here out;
        (r, out) \<leftarrow> lws_http2_num 7 (length name) end out;
        if r \<noteq> 0 then Some (1, out)
        else do {
          out \<leftarrow> put_block name out;
          out \<leftarrow> zero_here out;
          (r, out) \<leftarrow> lws_http2_num 7 (length val) end out;
          if r \<noteq> 0 then Some (1, out)
          else do { out \<leftarrow> put_block val out; Some (0, out) }
        }
      })"

definition lws_token_to_string :: "nat \<Rightarrow> byte list option" where
  "lws_token_to_string token =
     (if token < length header_names then Some (header_names ! token) else if token = length header_names then Some [] else None)"

definition lws_add_http2_header_by_token :: "nat \<Rightarrow> byte list \<Rightarrow> nat \<Rightarrow> nat \<times> byte list \<Rightarrow> (int \<times> nat \<times> byte list) option" where
  "lws_add_http2_header_by_token token val end out =
     (case lws_token_to_string token of None \<Rightarrow> Some (1, out) | Some name \<Rightarrow> lws_add_http2_header_by_name name val end out)"

text \<open>\<^verbatim>\<open>sprintf\<close> of an unsigned number.\<close>

fun decimal :: "nat \<Rightarrow> byte list" where
  "decimal n = (if n < 10 then [] else decimal (n div 10)) @ [of_nat (48 + n mod 10)]"

declare decimal.simps [simp del]

text \<open>Besides the header, \<^verbatim>\<open>send_END_STREAM\<close> is set for an error.\<close>

definition lws_add_http2_header_status :: "nat \<Rightarrow> nat \<Rightarrow> nat \<times> byte list \<Rightarrow> bool \<times> (int \<times> nat \<times> byte list) option" where
  "lws_add_http2_header_status code end out = (400 \<le> code, lws_add_http2_header_by_token 39 (decimal code) end out)"

end
