(* ===== verification/Hpack_Block.thy ===== *)
theory Hpack_Block
  imports Hpack
begin

text \<open>
  Properties of the HPACK decoder: a header value, plain or Huffman coded, is stored in the header table (\<open>h2_stored\<close>), and what
  happens to a first header, to an empty value and to long values.
\<close>

subsection \<open>The static table\<close>

text \<open>The static table of RFC 7541, the comment in front of \<^verbatim>\<open>static_token\<close>.\<close>

definition rfc_static_table :: "(string \<times> string) list" where
  "rfc_static_table =
    [('':authority'', ''''), ('':method'', ''GET''), ('':method'', ''POST''), ('':path'', ''/''), ('':path'', ''/index.html''),
     ('':scheme'', ''http''), ('':scheme'', ''https''), ('':status'', ''200''), ('':status'', ''204''), ('':status'', ''206''),
     ('':status'', ''304''), ('':status'', ''400''), ('':status'', ''404''), ('':status'', ''500''), (''accept-charset'', ''''),
     (''accept-encoding'', ''gzip, deflate''), (''accept-language'', ''''), (''accept-ranges'', ''''), (''accept'', ''''),
     (''access-control-allow-origin'', ''''), (''age'', ''''), (''allow'', ''''), (''authorization'', ''''),
     (''cache-control'', ''''), (''content-disposition'', ''''), (''content-encoding'', ''''), (''content-language'', ''''),
     (''content-length'', ''''), (''content-location'', ''''), (''content-range'', ''''), (''content-type'', ''''),
     (''cookie'', ''''), (''date'', ''''), (''etag'', ''''), (''expect'', ''''), (''expires'', ''''), (''from'', ''''),
     (''host'', ''''), (''if-match'', ''''), (''if-modified-since'', ''''), (''if-none-match'', ''''), (''if-range'', ''''),
     (''if-unmodified-since'', ''''), (''last-modified'', ''''), (''link'', ''''), (''location'', ''''),
     (''max-forwards'', ''''), (''proxy-authenticate'', ''''), (''proxy-authorization'', ''''), (''range'', ''''),
     (''referer'', ''''), (''refresh'', ''''), (''retry-after'', ''''), (''server'', ''''), (''set-cookie'', ''''),
     (''strict-transport-security'', ''''), (''transfer-encoding'', ''''), (''user-agent'', ''''), (''vary'', ''''),
     (''via'', ''''), (''www-authenticate'', '''')]"

text \<open>The token of an index has the name of the standard, up to its colon, and the canned value is the one of the standard.\<close>

definition without_colon :: "byte list \<Rightarrow> byte list" where
  "without_colon s = (if s \<noteq> [] \<and> last s = of_char CHR '':'' then butlast s else s)"

lemma static_table_names:
  "map (\<lambda>t. without_colon (header_names ! t)) (tl static_token) = map (bytes_of \<circ> fst) rfc_static_table"
  by (simp add: static_token_def header_names_def rfc_static_table_def without_colon_def bytes_of_def)

lemma static_table_values:
  "tl http2_canned @ replicate 45 [] = map (bytes_of \<circ> snd) rfc_static_table"
  by (simp add: http2_canned_def rfc_static_table_def bytes_of_def numeral_eq_Suc)

subsection \<open>A value\<close>

text \<open>The bits of a byte, the most significant first, as the decoder shifts them out.\<close>

fun top_bits :: "nat \<Rightarrow> byte \<Rightarrow> bool list" where
  "top_bits 0 c = []"
| "top_bits (Suc n) c = bit c 7 # top_bits n (push_bit 1 c)"

definition byte_bits :: "byte \<Rightarrow> bool list" where
  "byte_bits c = top_bits 8 c"

lemma top_bits_shift: "n + k \<le> 8 \<Longrightarrow> top_bits n (push_bit k c) = map (\<lambda>i. bit c (7 - (k + i))) [0..<n]"
proof (induction n arbitrary: k)
  case (Suc n)
  have "push_bit 1 (push_bit k c) = push_bit (Suc k) c" by (simp only: push_bit_push_bit) simp
  moreover have "bit (push_bit k c) 7 = bit c (7 - k)" using Suc.prems by (simp add: bit_push_bit_iff)
  ultimately show ?case
    using Suc.IH [of "Suc k"] Suc.prems by (simp del: upt_Suc add: upt_conv_Cons map_Suc_upt [symmetric] comp_def)
qed simp

lemma byte_bits_msb: "byte_bits c = map (bit c) [7, 6, 5, 4, 3, 2, 1, 0]"
  using top_bits_shift [of 8 0 c] by (simp add: byte_bits_def upt_rec)

text \<open>What a byte of a value decodes to, at a place in the tree.\<close>

definition decode_byte :: "bool \<Rightarrow> nat \<Rightarrow> byte \<Rightarrow> (nat list \<times> nat) option" where
  "decode_byte coded pos c = (if coded then huf_bits pos (byte_bits c) else Some ([unat c], pos))"

fun decode_bytes :: "bool \<Rightarrow> nat \<Rightarrow> byte list \<Rightarrow> (nat list \<times> nat) option" where
  "decode_bytes coded pos [] = Some ([], pos)"
| "decode_bytes coded pos (c # cs) = (case decode_byte coded pos c of None \<Rightarrow> None | Some (s, p) \<Rightarrow> behind s (decode_bytes coded p cs))"

lemma decode_plain: "decode_bytes False pos cs = Some (map unat cs, pos)"
  by (induction cs) (simp_all add: decode_byte_def)

lemma decode_coded: "huf_bits pos (concat (map byte_bits cs)) = Some (s, p) \<Longrightarrow> decode_bytes True pos cs = Some (s, p)"
proof (induction cs arbitrary: pos s)
  case (Cons c cs)
  have "\<exists>t q. huf_bits pos xs = Some (t, q)" if "huf_bits pos (xs @ ys) = Some (s, p)" for xs ys pos s
    using that
  proof (induction pos xs arbitrary: s rule: huf_bits.induct)
    case (2 pos b bs)
    then show ?case by (auto simp: behind_def split: option.splits if_splits) blast+
  qed simp
  from this [of pos "byte_bits c" "concat (map byte_bits cs)" s] Cons.prems
  obtain t q where t: "huf_bits pos (byte_bits c) = Some (t, q)" by auto
  have "behind t (huf_bits q (concat (map byte_bits cs))) = Some (s, p)"
    using Cons.prems huf_bits_append [OF t, of "concat (map byte_bits cs)"] by simp
  then obtain u where "huf_bits q (concat (map byte_bits cs)) = Some (u, p)" "s = t @ u"
    by (cases "huf_bits q (concat (map byte_bits cs))") auto
  then show ?case using Cons.IH t by (simp add: decode_byte_def)
qed simp

text \<open>The table with the bytes \<open>w\<close> in its last fragment, and what the decoder does with one more.\<close>

definition started :: "nat \<Rightarrow> hp \<Rightarrow> hp" where
  "started tok hp = hp\<lparr>ah_frags := (ah_frags hp)[ah_nfrag hp := \<lparr>f_offset = ah_pos hp, f_len = 0, f_nfrag = 0\<rparr>],
     ah_frag_index := (ah_frag_index hp)[tok := ah_nfrag hp]\<rparr>"

definition h2_room :: "h2_env \<Rightarrow> nat \<Rightarrow> hp \<Rightarrow> bool" where
  "h2_room env n hp \<longleftrightarrow> table_inv (h2_table env) hp \<and> ah_nfrag hp < WSI_TOKEN_COUNT \<and> ah_pos hp + n < max_http_header_data (h2_table env)"

lemma append_holding:
  assumes "h2_room env (length w + 1) hp" "h2_hp h = holding w (started tok hp)"
  shows "lws_frag_append env c h = Some (0, h\<lparr>h2_hp := holding (w @ [c]) (started tok hp)\<rparr>)"
  using assms
  by (simp add: lws_frag_append_def h2_room_def table_inv_def holding_def started_def put_data_def frag_at_def set_frag_def inc_len_def splice_snoc)

lemma frag_start:
  assumes "h2_room env 1 (h2_hp h)" "0 < tok" "tok < WSI_TOKEN_COUNT"
  shows "lws_frag_start tok h = Some (0, h\<lparr>h2_hp := started tok (h2_hp h)\<rparr>)"
  using assms
  by (simp add: lws_frag_start_def h2_room_def table_inv_def new_frag_def set_frag_def set_index_def started_def)

definition value_state :: "bool \<Rightarrow> nat \<Rightarrow> nat \<Rightarrow> byte list \<Rightarrow> hp \<Rightarrow> h2 \<Rightarrow> h2" where
  "value_state coded tok pos w hp h = h\<lparr>huff := coded, hpack_pos := pos, h2_hp := holding w (started tok hp)\<rparr>"

lemma emit_value:
  assumes "h2_room env (length w + 1) hp" "in_value h" "header_index h \<noteq> 0"
  shows "hpack_emit env c (value_state coded tok pos w hp h) = Some (0, value_state coded tok pos (w @ [c]) hp h)"
  using assms append_holding [OF assms(1), of "value_state coded tok pos w hp h" tok c]
  by (simp add: hpack_emit_def value_state_def)

lemma bits_value:
  assumes "huf_bits pos (top_bits n c) = Some (s, pos')" "h2_room env (length w + length s) hp" "in_value h" "header_index h \<noteq> 0"
  shows "hpack_bits env n c (value_state True tok pos w hp h) = Some (0, value_state True tok pos' (w @ map of_nat s) hp h)"
  using assms
proof (induction n arbitrary: pos c w s)
  case (Suc n)
  then obtain r where r: "huftable_decode pos (bit c 7) = Some r" by (auto split: option.splits)
  have range: "r \<noteq> 0xffff" using huftable_decode_range [OF r] by simp
  have pos: "value_state True tok pos w hp h\<lparr>hpack_pos := q\<rparr> = value_state True tok q w hp h" for q w pos
    by (simp add: value_state_def)
  have fields: "huff (value_state True tok pos w hp h)" "hpack_pos (value_state True tok pos w hp h) = pos" for pos w
    by (simp_all add: value_state_def)
  show ?case
  proof (cases "0x8000 \<le> r")
    case True
    then obtain t where t: "huf_bits 0 (top_bits n (push_bit 1 c)) = Some (t, pos')" "s = (r - 0x8000) # t"
      using Suc.prems(1) r by (cases "huf_bits 0 (top_bits n (push_bit 1 c))") auto
    have "hpack_emit env (of_nat (r - 0x8000)) (value_state True tok 0 w hp h) = Some (0, value_state True tok 0 (w @ [of_nat (r - 0x8000)]) hp h)"
      using Suc.prems(2-4) t(2) by (intro emit_value) (auto simp: h2_room_def)
    moreover have "hpack_bits env n (push_bit 1 c) (value_state True tok 0 (w @ [of_nat (r - 0x8000)]) hp h) =
        Some (0, value_state True tok pos' ((w @ [of_nat (r - 0x8000)]) @ map of_nat t) hp h)"
      using Suc.prems(2-4) t by (intro Suc.IH) auto
    ultimately show ?thesis using r True range by (simp add: fields pos Let_def t(2))
  next
    case False
    then have "huf_bits r (top_bits n (push_bit 1 c)) = Some (s, pos')" using Suc.prems(1) r by simp
    from Suc.IH [OF this Suc.prems(2-4)] show ?thesis using r False range by (simp add: fields pos Let_def)
  qed
qed simp

lemma byte_value:
  assumes "decode_byte coded pos c = Some (s, pos')" "h2_room env (length w + length s) hp" "in_value h" "header_index h \<noteq> 0"
  shows "hpack_bits env 8 c (value_state coded tok pos w hp h) = Some (0, value_state coded tok pos' (w @ map of_nat s) hp h)"
proof (cases coded)
  case True
  then show ?thesis using assms by (auto simp: decode_byte_def byte_bits_def intro: bits_value)
next
  case False
  have "hpack_bits env (Suc 7) c (value_state coded tok pos w hp h) = hpack_emit env c (value_state coded tok pos w hp h)"
    using False by (simp only: hpack_bits.simps) (simp add: value_state_def)
  moreover have "s = [unat c]" "pos' = pos" using assms(1) False by (simp_all add: decode_byte_def)
  ultimately show ?thesis using emit_value [of env w hp h c coded tok pos] assms(2-4) False by simp
qed


text \<open>The bytes of a value but the last, and the last.\<close>

definition in_data :: "nat \<Rightarrow> nat \<Rightarrow> h2 \<Rightarrow> h2" where
  "in_data count len h = h\<lparr>h2_count := count, hpack_len := len, hpack := HPKS_DATA\<rparr>"

lemma in_data_fields [simp]: "h2_count (in_data n len h) = n" "hpack_len (in_data n len h) = len" "hpack (in_data n len h) = HPKS_DATA"
  by (simp_all add: in_data_def)

lemma in_data_value: "value_state coded tok pos w hp (in_data n len h) = in_data n len (value_state coded tok pos w hp h)"
  by (simp add: value_state_def in_data_def)

lemma data_step:
  assumes "decode_byte coded pos c = Some (s, pos')" "h2_room env (length w + length s) hp" "in_value h" "header_index h \<noteq> 0"
    and "0 < len" "len < 2 ^ 32"
  shows "lws_hpack_interpret env c ((in_data n len (value_state coded tok pos w hp h))\<lparr>h2_count := m\<rparr>) =
    (let h' = in_data m (len - 1) (value_state coded tok pos' (w @ map of_nat s) hp h) in if len = 1 then hpack_data_end env h' else Some (0, h'))"
proof -
  have bits: "hpack_bits env 8 c (value_state coded tok pos w hp (in_data m len h)) = Some (0, value_state coded tok pos' (w @ map of_nat s) hp (in_data m len h))"
    using assms by (intro byte_value) (simp_all add: in_data_def)
  have wrap: "wrap32 (len + 2 ^ 32 - 1) = len - 1"
  proof -
    obtain k where "len = Suc k" using assms(5) by (cases len) auto
    then show ?thesis using assms(6) by (simp add: wrap32_def)
  qed
  have state: "(in_data n len (value_state coded tok pos w hp h))\<lparr>h2_count := m\<rparr> = value_state coded tok pos w hp (in_data m len h)"
    "(value_state coded tok q v hp (in_data m l h))\<lparr>hpack_len := k\<rparr> = in_data m k (value_state coded tok q v hp h)"
    "hpack_len (value_state coded tok q v hp (in_data m l h)) = l" "hpack (value_state coded tok pos w hp (in_data m len h)) = HPKS_DATA" for q v k l
    by (simp_all add: in_data_def value_state_def)
  have "lws_hpack_interpret env c (value_state coded tok pos w hp (in_data m len h)) = hpack_data env c (value_state coded tok pos w hp (in_data m len h))"
    by (simp add: lws_hpack_interpret_def state)
  also have "\<dots> = (let h' = in_data m (len - 1) (value_state coded tok pos' (w @ map of_nat s) hp h) in if len = 1 then hpack_data_end env h' else Some (0, h'))"
    using assms(5) wrap by (simp add: hpack_data_def bits Let_def state) (simp add: wrap32_def)
  finally show ?thesis by (simp only: state)
qed

lemma data_run:
  assumes "decode_bytes coded pos cs = Some (s, pos')" "h2_room env (length w + length s) hp" "in_value h" "header_index h \<noteq> 0"
    and "cs \<noteq> []" "length cs < 2 ^ 32"
  shows "\<exists>m. hpack_run env cs (in_data n (length cs) (value_state coded tok pos w hp h)) =
    (case hpack_data_end env (in_data m 0 (value_state coded tok pos' (w @ map of_nat s) hp h)) of
       None \<Rightarrow> None | Some (r, h') \<Rightarrow> Some (of_bool (r \<noteq> 0), h'))"
  using assms
proof (induction cs arbitrary: pos w s n)
  case (Cons c cs)
  obtain t q where t: "decode_byte coded pos c = Some (t, q)" using Cons.prems(1) by (auto split: option.splits)
  obtain u where u: "decode_bytes coded q cs = Some (u, pos')" "s = t @ u"
    using Cons.prems(1) t by (cases "decode_bytes coded q cs") auto
  have room: "h2_room env (length w + length t) hp" using Cons.prems(2) u(2) by (auto simp: h2_room_def)
  let ?m = "wrap32 (n + 1)"
  note step = data_step [OF t room Cons.prems(3,4), where len = "length (c # cs)" and n = n and tok = tok and m = ?m]
  show ?case
  proof (cases "cs = []")
    case True
    then have "pos' = q" "u = []" using u(1) by simp_all
    then show ?thesis
      using step True u(2) by (intro exI [of _ ?m]) (simp add: Let_def split: option.split)
  next
    case False
    have "\<exists>m. hpack_run env cs (in_data ?m (length cs) (value_state coded tok q (w @ map of_nat t) hp h)) =
      (case hpack_data_end env (in_data m 0 (value_state coded tok pos' ((w @ map of_nat t) @ map of_nat u) hp h)) of
         None \<Rightarrow> None | Some (r, h') \<Rightarrow> Some (of_bool (r \<noteq> 0), h'))"
      using Cons.prems u False by (intro Cons.IH) (auto simp: add.assoc)
    then show ?thesis using step False Cons.prems(6) by (simp add: Let_def u(2))
  qed
qed simp

subsection \<open>A header field\<close>

text \<open>The table with the value behind \<open>hp\<close>: the fragment counts the zero as well.\<close>

definition h2_stored :: "nat \<Rightarrow> byte list \<Rightarrow> hp \<Rightarrow> hp" where
  "h2_stored tok v hp = (holding (v @ [0]) (started tok hp))\<lparr>ah_nfrag := ah_nfrag hp + 1\<rparr>"

lemma h2_stored_fields:
  assumes "h2_room env (length v + 1) hp" "tok < WSI_TOKEN_COUNT"
  shows "ah_frag_index (h2_stored tok v hp) ! tok = ah_nfrag hp"
    and "ah_frags (h2_stored tok v hp) ! ah_nfrag hp = \<lparr>f_offset = ah_pos hp, f_len = length v + 1, f_nfrag = 0\<rparr>"
    and "drop (ah_pos hp) (ah_data (h2_stored tok v hp)) = v @ 0 # drop (ah_pos hp + length v + 1) (ah_data hp)"
    and "length (ah_frags (h2_stored tok v hp)) = 172" "tok < length (ah_frag_index (h2_stored tok v hp))"
  using assms by (simp_all add: h2_stored_def holding_def started_def h2_room_def table_inv_def splice_def)

lemma stored_copy:
  assumes "h2_room env (length v + 1) hp" "tok < WSI_TOKEN_COUNT" "length v + 1 < len" "len \<le> length dst"
  shows "\<exists>dst'. lws_hdr_copy (h2_stored tok v hp) dst len tok = Some (if ah_nfrag hp = 0 then 0 else int (length v + 1), dst')"
proof (cases "ah_nfrag hp = 0")
  case True
  then show ?thesis using assms h2_stored_fields [OF assms(1,2)] by (simp add: lws_hdr_copy_def lws_hdr_total_length_def index_at_def)
next
  case False
  note f = h2_stored_fields [OF assms(1,2)]
  have n: "ah_nfrag hp < 172" using assms(1) by (simp add: h2_room_def)
  have str: "c_string_at (h2_stored tok v hp) (ah_pos hp) = Some (c_str (v @ [0]))"
    using f(3) c_str_prefix [of "v @ [0]"] by (simp add: c_string_at_def)
  have "length (c_str (v @ [0])) \<le> length v" by (simp add: c_str_def takeWhile_append length_takeWhile_le)
  then have "put_at dst 0 (c_str (v @ [0]) @ [0]) \<noteq> None" using assms(3,4) by (simp add: put_at_def)
  then show ?thesis
    using False assms(3) f n str
    by (auto simp: lws_hdr_copy_def lws_hdr_total_length_def index_at_def frag_at_def numeral_eq_Suc)
qed

lemma data_end:
  assumes "h2_room env (length v + 1) hp" "in_value h" "hpack_type h = HPKT_INDEXED_HDR_4_VALUE"
    and "lws_token_from_index (header_index h) h = Some tok" "tok < WSI_TOKEN_COUNT" "length v < 198"
  shows "\<exists>h'. hpack_data_end env (in_data m 0 (value_state coded tok pos v hp h)) = Some (0, h') \<and>
    h2_hp h' = h2_stored tok v hp \<and> hpack h' \<in> {HPKS_TYPE, HKPS_OPT_DISCARD_PADDING}"
proof -
  let ?h = "in_data m 0 (value_state coded tok pos v hp h)"
  let ?h' = "?h\<lparr>h2_hp := h2_stored tok v hp\<rparr>"
  have "lws_frag_append env 0 ?h = Some (0, ?h\<lparr>h2_hp := holding (v @ [0]) (started tok hp)\<rparr>)"
    using assms(1) by (intro append_holding) (simp_all add: in_data_def value_state_def)
  then have end_eq: "lws_frag_end env ?h = Some (0, ?h')"
    by (simp add: lws_frag_end_def h2_stored_def) (simp add: holding_def started_def)
  have "lws_token_from_index i ?h' = lws_token_from_index i h" for i
    by (simp add: lws_token_from_index_def in_data_def value_state_def)
  then have tok: "lws_token_from_index (header_index ?h') ?h' = Some tok"
    using assms(4) by (simp add: in_data_def value_state_def)
  obtain dst where "lws_hdr_copy (h2_stored tok v hp) (replicate 200 0) 199 tok = Some (if ah_nfrag hp = 0 then 0 else int (length v + 1), dst)"
    using stored_copy [OF assms(1,5), of 199 "replicate 200 0"] assms(6) by auto
  then have dump: "lws_dump_header tok ?h' = Some ()" using assms(6) by (simp add: lws_dump_header_def assert_opt_def)
  have f: "in_value ?h" "hpack_type ?h = HPKT_INDEXED_HDR_4_VALUE" using assms(2,3) by (simp_all add: in_data_def value_state_def)
  show ?thesis
    unfolding hpack_data_end_def using f tok dump end_eq by simp
qed

text \<open>The bytes of a value, as it is or in the Huffman code with its padding.\<close>

definition value_bytes :: "bool \<Rightarrow> byte list \<Rightarrow> byte list \<Rightarrow> bool" where
  "value_bytes coded v cs \<longleftrightarrow>
     (if coded then \<exists>k < 8. concat (map byte_bits cs) = concat (map (huf_code \<circ> unat) v) @ replicate k True else cs = v)"

lemma value_decodes: "value_bytes coded v cs \<Longrightarrow> \<exists>pos. decode_bytes coded 0 cs = Some (map unat v, pos)"
proof (cases coded)
  case True
  assume "value_bytes coded v cs"
  then obtain k where k: "k < 8" "concat (map byte_bits cs) = concat (map huf_code (map unat v)) @ replicate k True"
    using True by (auto simp: value_bytes_def)
  have "huf_bits 0 (concat (map byte_bits cs)) = behind (map unat v) (huf_bits 0 (replicate k True))"
    unfolding k(2) by (intro huf_bits_codes) auto
  then have "huf_bits 0 (concat (map byte_bits cs)) = Some (map unat v, 2 * k)"
    using huf_bits_padding [of 0 k] k(1) by simp
  from decode_coded [OF this] show ?thesis using True by auto
qed (simp add: value_bytes_def decode_plain)

lemma length_byte:
  assumes "n < 128"
  shows "((of_nat n OR (if coded then 0x80 else 0) :: byte) AND 0x80 \<noteq> 0) = coded"
    "unat ((of_nat n OR (if coded then 0x80 else 0) :: byte) AND 0x7f) = n"
proof -
  have eq: "unat (of_nat n :: u64) = n" "ucast (of_nat n :: u64) = (of_nat n :: byte)"
    using assms by (simp_all add: unat_of_nat unsigned_of_nat take_bit_nat_eq_self)
  have "unat (of_nat n :: byte) = n" using assms by simp
  then show "((of_nat n OR (if coded then 0x80 else 0) :: byte) AND 0x80 \<noteq> 0) = coded"
    "unat ((of_nat n OR (if coded then 0x80 else 0) :: byte) AND 0x7f) = n"
    using len7_bits(1-4) [of "of_nat n"] assms unfolding eq by simp_all
qed

lemma static_tokens: "0 < i \<Longrightarrow> i < length static_token \<Longrightarrow> 0 < static_token ! i \<and> static_token ! i < WSI_TOKEN_COUNT"
proof -
  assume i: "0 < i" "i < length static_token"
  have "\<forall>t \<in> set (tl static_token). 0 < t \<and> t < WSI_TOKEN_COUNT" by (simp add: static_token_def)
  moreover have "static_token ! i = tl static_token ! (i - 1)" "i - 1 < length (tl static_token)" using i by (simp_all add: nth_tl)
  ultimately show ?thesis by (metis nth_mem)
qed

lemma holding_started: "table_inv env hp \<Longrightarrow> holding [] (started tok hp) = started tok hp"
  by (simp add: holding_def started_def table_inv_def)

lemma value_run:
  assumes h: "hpack h = HPKS_HLEN" "in_value h" "hpack_type h = HPKT_INDEXED_HDR_4_VALUE" "0 < header_index h" "header_index h < length static_token"
    and tok: "tok = static_token ! header_index h"
    and room: "h2_room env (length v + 1) (h2_hp h)" "length v < 198"
    and cs: "value_bytes coded v cs" "cs \<noteq> []" "length cs < 127"
  shows "\<exists>h'. hpack_run env ((of_nat (length cs) OR (if coded then 0x80 else 0)) # cs) h = Some (0, h') \<and>
    h2_hp h' = h2_stored tok v (h2_hp h) \<and> hpack h' \<in> {HPKS_TYPE, HKPS_OPT_DISCARD_PADDING}"
proof -
  let ?l = "of_nat (length cs) OR (if coded then 0x80 else 0) :: byte" and ?m = "wrap32 (h2_count h + 1)"
  let ?s = "in_data ?m (length cs) (value_state coded tok 0 [] (h2_hp h) h)"
  have toks: "0 < tok" "tok < WSI_TOKEN_COUNT" "lws_token_from_index (header_index h) h' = Some tok" for h'
    using static_tokens h(4,5) by (simp_all add: tok lws_token_from_index_def)
  have l: "(?l AND 0x80 \<noteq> 0) = coded" "unat (?l AND 0x7f) = length cs" using length_byte [of "length cs"] cs(3) by simp_all
  let ?h = "h\<lparr>h2_count := ?m, huff := coded, hpack_pos := 0, hpack_len := length cs\<rparr>"
  have "lws_frag_start tok ?h = Some (0, ?h\<lparr>h2_hp := started tok (h2_hp h)\<rparr>)"
    using frag_start [of env ?h tok] room toks(1,2) by (auto simp: h2_room_def)
  moreover have "?h\<lparr>h2_hp := started tok (h2_hp h), hpack := HPKS_DATA\<rparr> = ?s"
    using room(1) by (simp add: in_data_def value_state_def h2_room_def holding_started [of "h2_table env"])
  ultimately have "hpack_pre_data ?h = Some (0, ?s)" using h(2,4) toks(3) by (simp add: hpack_pre_data_def)
  then have "hpack_hlen ?l (h\<lparr>h2_count := ?m\<rparr>) = Some (0, ?s)" using cs(3) by (simp add: hpack_hlen_def l Let_def)
  then have first: "hpack_run env (?l # cs) h = hpack_run env cs ?s" using h(1) by (simp add: lws_hpack_interpret_def)
  obtain pos where dec: "decode_bytes coded 0 cs = Some (map unat v, pos)" using value_decodes [OF cs(1)] by blast
  have "h2_room env (length v) (h2_hp h)" using room(1) by (simp add: h2_room_def)
  then obtain m where run: "hpack_run env cs ?s =
      (case hpack_data_end env (in_data m 0 (value_state coded tok pos v (h2_hp h) h)) of
         None \<Rightarrow> None | Some (r, h') \<Rightarrow> Some (of_bool (r \<noteq> 0), h'))"
    using data_run [OF dec, where w = "[]" and hp = "h2_hp h" and h = h and env = env and n = ?m and tok = tok] cs h(2,4) by (auto simp: comp_def)
  obtain h' where "hpack_data_end env (in_data m 0 (value_state coded tok pos v (h2_hp h) h)) = Some (0, h')"
      "h2_hp h' = h2_stored tok v (h2_hp h)" "hpack h' \<in> {HPKS_TYPE, HKPS_OPT_DISCARD_PADDING}"
    using data_end [OF room(1) h(2,3) toks(3,2) room(2)] by blast
  then show ?thesis unfolding first run by simp
qed

text \<open>The whole field: the byte with the index of the name, and the value.\<close>

definition field_bytes :: "nat \<Rightarrow> bool \<Rightarrow> byte list \<Rightarrow> byte list" where
  "field_bytes i coded cs = of_nat i # (of_nat (length cs) OR (if coded then 0x80 else 0)) # cs"

lemma index_byte:
  assumes "0 < i" "i < 15"
  shows "(of_nat i :: byte) AND 0x80 = 0" "(of_nat i :: byte) AND 0x40 = 0" "(of_nat i :: byte) AND 0xf0 = 0" "(of_nat i :: byte) \<noteq> 0"
    "(of_nat i :: byte) AND 0xf \<noteq> 0xf" "unat ((of_nat i :: byte) AND 0xf) = i"
proof -
  have "\<forall>j \<in> set [1..<15]. let b = of_nat j :: byte in b AND 0x80 = 0 \<and> b AND 0x40 = 0 \<and> b AND 0xf0 = 0 \<and> b \<noteq> 0 \<and>
      b AND 0xf \<noteq> 0xf \<and> unat (b AND 0xf) = j"
    by code_simp
  moreover have "i \<in> set [1..<15]" using assms by simp
  ultimately show "(of_nat i :: byte) AND 0x80 = 0" "(of_nat i :: byte) AND 0x40 = 0" "(of_nat i :: byte) AND 0xf0 = 0" "(of_nat i :: byte) \<noteq> 0"
    "(of_nat i :: byte) AND 0xf \<noteq> 0xf" "unat ((of_nat i :: byte) AND 0xf) = i"
    unfolding Let_def by blast+
qed

text \<open>A decoder at the start of a field, which is inside of the block.\<close>

definition at_field :: "h2 \<Rightarrow> bool" where
  "at_field h \<longleftrightarrow> hpack h = HPKS_TYPE \<and> wrap32 (h2_count h + 1) \<le> wrap32 (h2_length h + 2 ^ 32 - h2_padding h)"

lemma field_start:
  assumes "at_field h" "0 < i" "i < 15"
  shows "hpack_run env (of_nat i # bs) h = hpack_run env bs (h\<lparr>h2_count := wrap32 (h2_count h + 1),
    hpack_type := HPKT_INDEXED_HDR_4_VALUE, header_index := i, in_value := True, hpack := HPKS_HLEN\<rparr>)" (is "_ = hpack_run env bs ?h")
proof -
  have "hpack_type_byte env (of_nat i) (h\<lparr>h2_count := wrap32 (h2_count h + 1)\<rparr>) = Some (0, ?h)"
    using assms index_byte [OF assms(2,3)] by (simp add: hpack_type_byte_def at_field_def Let_def)
  then show ?thesis using assms(1) by (simp add: lws_hpack_interpret_def at_field_def)
qed

lemma field_run:
  assumes h: "at_field h" and i: "0 < i" "i < 15"
    and room: "h2_room env (length v + 1) (h2_hp h)" "length v < 198"
    and cs: "value_bytes coded v cs" "cs \<noteq> []" "length cs < 127"
  shows "\<exists>h'. hpack_run env (field_bytes i coded cs) h = Some (0, h') \<and>
    h2_hp h' = h2_stored (static_token ! i) v (h2_hp h) \<and> hpack h' \<in> {HPKS_TYPE, HKPS_OPT_DISCARD_PADDING}"
proof -
  let ?h = "h\<lparr>h2_count := wrap32 (h2_count h + 1), hpack_type := HPKT_INDEXED_HDR_4_VALUE, header_index := i, in_value := True, hpack := HPKS_HLEN\<rparr>"
  have first: "hpack_run env (of_nat i # bs) h = hpack_run env bs ?h" for bs by (rule field_start [OF h i])
  have "i < length static_token" using i(2) by (simp add: static_token_def)
  then show ?thesis
    using value_run [of ?h "static_token ! i" env v coded cs] i(1) room cs unfolding field_bytes_def first by simp
qed

lemma total_stored:
  assumes "h2_room env (length v + 1) hp" "tok < WSI_TOKEN_COUNT"
  shows "lws_hdr_total_length (h2_stored tok v hp) tok = Some (if ah_nfrag hp = 0 then 0 else length v + 1)"
  using h2_stored_fields [OF assms] assms(1)
  by (auto simp: lws_hdr_total_length_def index_at_def frag_at_def h2_room_def numeral_eq_Suc)

text \<open>A stream whose header block of \<open>n\<close> bytes starts, to evaluate, and its table.\<close>

definition h2_stream :: "nat \<Rightarrow> h2" where
  "h2_stream n = \<lparr>h2_hp = start_headers (lws_header_table_reset (empty_hp 64)), h2_dyn = None, hpack = HPKS_TYPE,
     hpack_type = HPKT_INDEXED_HDR_7, header_index = 0, hpack_len = 0, hpack_e_dep = 0, hpack_pos = 0, hpack_m = 0,
     huff = False, in_value = False, h2_padding = 0, h2_priority = False, h2_count = 0, h2_length = n\<rparr>"

definition h2_plain :: h2_env where
  "h2_plain = \<lparr>h2_table = plain_hp_env 64, h2_malloc = (\<lambda>n. True)\<rparr>"

lemma h2_stream_room: "n < 64 \<Longrightarrow> h2_room h2_plain n (h2_hp (h2_stream m))"
proof -
  assume n: "n < 64"
  have "parse_inv (plain_hp_env 64) (start_headers (lws_header_table_reset (empty_hp 64)))"
    by (rule start_inv) (simp_all add: plain_hp_env_def empty_hp_def env_ok_def)
  then show ?thesis using n
    by (simp add: h2_room_def h2_plain_def h2_stream_def parse_inv_def plain_hp_env_def start_headers_def lws_header_table_reset_def empty_hp_def)
qed

lemma h2_stream_start: "0 < n \<Longrightarrow> n < 4294967296 \<Longrightarrow> at_field (h2_stream n) \<and> ah_nfrag (h2_hp (h2_stream n)) = 0 \<and> ah_pos (h2_hp (h2_stream n)) = 0"
  by (simp add: at_field_def h2_stream_def wrap32_def start_headers_def lws_header_table_reset_def empty_hp_def)

text \<open>The letter a is 00011 in the Huffman code.\<close>

lemma letter_a_coded: "value_bytes True [97] [0x1f]"
proof -
  have "concat (map byte_bits [0x1f]) = concat (map (huf_code \<circ> unat) [97 :: byte]) @ replicate 3 True"
    by (simp add: byte_bits_msb huf_code_eval numeral_3_eq_3)
  then show ?thesis unfolding value_bytes_def if_True by (intro exI [of _ 3] conjI) simp_all
qed

subsection \<open>The properties\<close>



text \<open>C99: The first field of the first header block is lost. Its fragment has the number 0, which in the index means that there
  is no such header: its bytes are stored, but asked for the header the table says that it is empty.\<close>

theorem hpack_first_field_lost:
  assumes "at_field h" and "0 < i" "i < 15" and "ah_nfrag (h2_hp h) = 0"
    and "h2_room env (length v + 1) (h2_hp h)" "length v < 198"
    and "value_bytes coded v cs" "cs \<noteq> []" "length cs < 127"
  shows "\<exists>h'. hpack_run env (field_bytes i coded cs) h = Some (0, h') \<and>
    take (length v + 1) (drop (ah_pos (h2_hp h)) (ah_data (h2_hp h'))) = v @ [0] \<and>
    lws_hdr_total_length (h2_hp h') (static_token ! i) = Some 0"
proof -
  obtain h' where run: "hpack_run env (field_bytes i coded cs) h = Some (0, h')" "h2_hp h' = h2_stored (static_token ! i) v (h2_hp h)"
    using field_run [OF assms(1-3,5-9)] by blast
  have "static_token ! i < WSI_TOKEN_COUNT" using static_tokens [of i] assms(2,3) by (simp add: static_token_def)
  then show ?thesis
    using run h2_stored_fields [OF assms(5)] total_stored [OF assms(5)] assms(4) by (intro exI [of _ h']) simp
qed

theorem hpack_first_field_lost_witness:
  "\<exists>h'. hpack_run h2_plain (field_bytes 4 True [0x1f]) (h2_stream 3) = Some (0, h') \<and>
    take 2 (ah_data (h2_hp h')) = [97, 0] \<and> lws_hdr_total_length (h2_hp h') 37 = Some 0"
  using hpack_first_field_lost [where h = "h2_stream 3" and i = 4 and env = h2_plain and v = "[97]" and coded = True and cs = "[0x1f]"]
    h2_stream_room [of 2 3] h2_stream_start [of 3] letter_a_coded by (auto simp: static_token_def numeral_2_eq_2)


subsection \<open>An empty value\<close>

lemma data_part:
  assumes "h2_room env (length w + length ds) hp" "in_value h" "header_index h \<noteq> 0" "length ds < len" "len < 2 ^ 32"
  shows "\<exists>m. hpack_run env ds (in_data n len (value_state False tok 0 w hp h)) =
    Some (0, in_data m (len - length ds) (value_state False tok 0 (w @ ds) hp h))"
  using assms
proof (induction ds arbitrary: w n len)
  case (Cons c ds)
  have "decode_byte False 0 c = Some ([unat c], 0)" "h2_room env (length w + length [unat c]) hp"
    using Cons.prems(1) by (auto simp: decode_byte_def h2_room_def)
  note step = data_step [OF this Cons.prems(2,3), where len = len and n = n and tok = tok and m = "wrap32 (n + 1)"]
  have "\<exists>m. hpack_run env ds (in_data (wrap32 (n + 1)) (len - 1) (value_state False tok 0 (w @ [c]) hp h)) =
    Some (0, in_data m (len - 1 - length ds) (value_state False tok 0 ((w @ [c]) @ ds) hp h))"
    using Cons.prems by (intro Cons.IH) auto
  then show ?case using step Cons.prems(4,5) by (simp add: Let_def)
qed auto

lemma empty_step:
  assumes "h2_room env 1 hp" "in_value h" "header_index h \<noteq> 0"
  shows "lws_hpack_interpret env c ((in_data n 0 (value_state False tok 0 [] hp h))\<lparr>h2_count := m\<rparr>) =
    Some (0, in_data m (2 ^ 32 - 1) (value_state False tok 0 [c] hp h))"
proof -
  have "hpack_bits env 8 c (value_state False tok 0 [] hp (in_data m 0 h)) = Some (0, value_state False tok 0 [c] hp (in_data m 0 h))"
    using byte_value [of False 0 c "[unat c]" 0 env "[]" hp "in_data m 0 h" tok] assms by (simp add: decode_byte_def in_data_def)
  moreover have "(in_data n 0 (value_state False tok 0 [] hp h))\<lparr>h2_count := m\<rparr> = value_state False tok 0 [] hp (in_data m 0 h)"
    "(value_state False tok 0 [c] hp (in_data m 0 h))\<lparr>hpack_len := k\<rparr> = in_data m k (value_state False tok 0 [c] hp h)"
    "hpack_len (value_state False tok 0 [c] hp (in_data m 0 h)) = 0" "hpack (value_state False tok 0 [] hp (in_data m 0 h)) = HPKS_DATA" for k
    by (simp_all add: in_data_def value_state_def)
  ultimately show ?thesis by (simp add: lws_hpack_interpret_def hpack_data_def wrap32_def)
qed

text \<open>C99: An empty value is not ended: the count of its bytes goes below zero, and everything behind it in the block is taken for
  its bytes.\<close>

theorem hpack_empty_value_swallows:
  assumes "at_field h" and "0 < i" "i < 15" and "h2_room env (length ds) (h2_hp h)" "ds \<noteq> []" "length ds < 2 ^ 32"
  shows "\<exists>h'. hpack_run env (field_bytes i False [] @ ds) h = Some (0, h') \<and> hpack h' = HPKS_DATA \<and>
    take (length ds) (drop (ah_pos (h2_hp h)) (ah_data (h2_hp h'))) = ds"
proof -
  obtain d ds' where ds: "ds = d # ds'" using assms(5) by (cases ds) auto
  let ?tok = "static_token ! i" and ?m = "wrap32 (wrap32 (h2_count h + 1) + 1)"
  let ?h = "h\<lparr>h2_count := wrap32 (h2_count h + 1), hpack_type := HPKT_INDEXED_HDR_4_VALUE, header_index := i, in_value := True, hpack := HPKS_HLEN\<rparr>"
  let ?s = "in_data ?m 0 (value_state False ?tok 0 [] (h2_hp h) ?h)"
  have tok: "lws_token_from_index i h' = Some ?tok" "0 < ?tok" "?tok < WSI_TOKEN_COUNT" for h'
    using static_tokens [of i] assms(2,3) by (simp_all add: lws_token_from_index_def static_token_def)
  have room: "h2_room env 1 (h2_hp h)" using assms(4) ds by (simp add: h2_room_def)
  have "hpack_pre_data (?h\<lparr>h2_count := ?m, huff := False, hpack_pos := 0, hpack_len := 0\<rparr>) = Some (0, ?s)"
    using frag_start [of env "?h\<lparr>h2_count := ?m, huff := False, hpack_pos := 0, hpack_len := 0\<rparr>" ?tok] room tok assms(2)
    by (simp add: hpack_pre_data_def in_data_def value_state_def holding_started [of "h2_table env"] h2_room_def)
  then have "lws_hpack_interpret env 0 (?h\<lparr>h2_count := ?m\<rparr>) = Some (0, ?s)" by (simp add: lws_hpack_interpret_def hpack_hlen_def)
  then have first: "hpack_run env (field_bytes i False [] @ ds) h = hpack_run env ds ?s"
    using field_start [OF assms(1-3), of env "0 # ds"] by (simp add: field_bytes_def)
  obtain m where "hpack_run env ds' (in_data (wrap32 (?m + 1)) (2 ^ 32 - 1) (value_state False ?tok 0 [d] (h2_hp h) ?h)) =
      Some (0, in_data m (2 ^ 32 - 1 - length ds') (value_state False ?tok 0 ([d] @ ds') (h2_hp h) ?h))"
    using data_part [of env "[d]" ds' "h2_hp h" ?h "2 ^ 32 - 1" "wrap32 (?m + 1)" ?tok] assms(2,4,6) by (auto simp: ds)
  moreover have "lws_hpack_interpret env d (?s\<lparr>h2_count := wrap32 (?m + 1)\<rparr>) =
      Some (0, in_data (wrap32 (?m + 1)) (2 ^ 32 - 1) (value_state False ?tok 0 [d] (h2_hp h) ?h))"
    using empty_step [where env = env and hp = "h2_hp h" and h = ?h and c = d and n = ?m and tok = ?tok and m = "wrap32 (?m + 1)"] room assms(2) by simp
  moreover have "h2_count ?s = ?m" by simp
  ultimately have "hpack_run env ds ?s = Some (0, in_data m (2 ^ 32 - 1 - length ds') (value_state False ?tok 0 ds (h2_hp h) ?h))"
    unfolding ds hpack_run.simps by simp
  moreover have "take (length ds) (drop (ah_pos (h2_hp h)) (ah_data (holding ds (started ?tok (h2_hp h))))) = ds"
    using assms(4) by (simp add: holding_def started_def splice_def h2_room_def table_inv_def)
  ultimately show ?thesis unfolding first by (simp add: in_data_def value_state_def)
qed

theorem hpack_empty_value_swallows_witness:
  "\<exists>h'. hpack_run h2_plain (field_bytes 4 False [] @ field_bytes 1 False [97]) (h2_stream 5) = Some (0, h') \<and> hpack h' = HPKS_DATA \<and>
    take 3 (ah_data (h2_hp h')) = [1, 1, 97]"
  using hpack_empty_value_swallows [where h = "h2_stream 5" and i = 4 and env = h2_plain and ds = "field_bytes 1 False [97]"]
    h2_stream_room [of 3 5] h2_stream_start [of 5] by (simp add: field_bytes_def numeral_3_eq_3 del: hpack_run.simps)

subsection \<open>The encoder\<close>

lemma put_set_splice:
  "p + length w < length buf \<Longrightarrow> put_set c (p + length w, splice p w buf) = Some (p + length (w @ [c]), splice p (w @ [c]) buf)"
  by (simp add: put_set_def splice_snoc)

lemma zero_or:
  "p + length w < length buf \<Longrightarrow> Option.bind (zero_here (p + length w, splice p w buf)) (put_or c) = put_set c (p + length w, splice p w buf)"
  by (simp add: zero_here_def put_or_def put_set_def)

lemma put_block_splice:
  "p + length w + length bs \<le> length buf \<Longrightarrow> put_block bs (p + length w, splice p w buf) = Some (p + length (w @ bs), splice p (w @ bs) buf)"
  by (simp add: put_block_def put_at_def) (simp add: splice_def add_ac)

definition length_prefix :: "nat \<Rightarrow> byte list" where
  "length_prefix n = [if n < 127 then of_nat n else 0x7f]"

lemma num_splice:
  assumes "n < 255" "p + length w + 1 < end" "end \<le> length buf"
  shows "Option.bind (zero_here (p + length w, splice p w buf)) (lws_http2_num 7 n end) =
    Some (0, p + length (w @ length_prefix n), splice p (w @ length_prefix n) buf)"
proof -
  have put: "zero_here (p + length w, splice p w buf) = Some (p + length w, (splice p w buf)[p + length w := 0])"
    "put_or c (p + length w, (splice p w buf)[p + length w := 0]) = Some (p + length w + 1, splice p (w @ [c]) buf)" for c
    using assms(2,3) by (simp_all add: zero_here_def put_or_def) (simp add: splice_snoc)
  show ?thesis
  proof (cases "n < 127")
    case True
    then show ?thesis using assms put by (simp add: lws_http2_num_def length_prefix_def)
  next
    case False
    have "n - 127 < 128" using assms(1) by linarith
    then have "http2_num_loop end (n - 127) out = Some (0, out)" for out by (subst http2_num_loop.simps) simp
    then show ?thesis using False assms put by (simp add: lws_http2_num_def length_prefix_def)
  qed
qed

lemma num_then:
  assumes "n < 255" "p + length w + 1 < end" "end \<le> length buf"
  shows "Option.bind (zero_here (p + length w, splice p w buf)) (\<lambda>out. Option.bind (lws_http2_num 7 n end out) g) =
    g (0, p + length (w @ length_prefix n), splice p (w @ length_prefix n) buf)"
  using num_splice [OF assms] by (cases "zero_here (p + length w, splice p w buf)") auto

text \<open>C99: A header of a response: a name, a value and their lengths. A length of 127 to 254 is sent as the byte 0x7f alone, without
  the rest that has to follow it, so the peer takes the first byte of the value for it.\<close>

theorem http2_header_written:
  assumes "length name < 127" "name = [] \<or> last name \<noteq> of_char CHR '':''" "length val < 255"
    and "p + length name + length val + 8 \<le> end" "end \<le> length buf"
  shows "lws_add_http2_header_by_name name val end (p, buf) =
    Some (0, p + length name + length val + 3, splice p (0 # of_nat (length name) # name @ length_prefix (length val) @ val) buf)"
proof -
  have start: "put_set 0 (p, buf) = Some (p + length [0 :: byte], splice p [0] buf)"
    using put_set_splice [of p "[]" buf 0] assms(4,5) by simp
  have name: "Option.bind (zero_here (p + length [0 :: byte], splice p [0] buf)) (\<lambda>out. Option.bind (lws_http2_num 7 (length name) end out) g) =
      g (0, p + length ([0 :: byte] @ length_prefix (length name)), splice p ([0 :: byte] @ length_prefix (length name)) buf)"
    for g :: "int \<times> nat \<times> byte list \<Rightarrow> (int \<times> nat \<times> byte list) option"
    using assms by (intro num_then) simp_all
  let ?w = "([0 :: byte] @ length_prefix (length name)) @ name"
  have "put_block name (p + length ([0 :: byte] @ length_prefix (length name)), splice p ([0 :: byte] @ length_prefix (length name)) buf) = Some (p + length ?w, splice p ?w buf)"
    using assms by (intro put_block_splice) (simp add: length_prefix_def)
  moreover have "Option.bind (zero_here (p + length ?w, splice p ?w buf)) (\<lambda>out. Option.bind (lws_http2_num 7 (length val) end out) g) =
      g (0, p + length (?w @ length_prefix (length val)), splice p (?w @ length_prefix (length val)) buf)"
    for g :: "int \<times> nat \<times> byte list \<Rightarrow> (int \<times> nat \<times> byte list) option"
    using assms by (intro num_then) (simp_all add: length_prefix_def)
  moreover have "put_block val (p + length (?w @ length_prefix (length val)), splice p (?w @ length_prefix (length val)) buf) =
      Some (p + length ((?w @ length_prefix (length val)) @ val), splice p ((?w @ length_prefix (length val)) @ val) buf)"
    using assms by (intro put_block_splice) (simp add: length_prefix_def)
  moreover have "length_prefix (length name) = [of_nat (length name)]" "length (length_prefix (length val)) = 1"
    using assms(1) by (simp_all add: length_prefix_def)
  moreover have "(if name \<noteq> [] \<and> last name = of_char CHR '':'' then butlast name else name) = name" using assms(2) by auto
  ultimately show ?thesis
    using start name assms(4) unfolding lws_add_http2_header_by_name_def by (simp del: of_char_Char)
qed

theorem http2_header_written_witness:
  "\<exists>buf. lws_add_http2_header_by_name [97] (replicate 130 98) 140 (0, replicate 140 0) = Some (0, 134, buf) \<and> take 4 buf = [0, 1, 97, 0x7f]"
  using http2_header_written [of "[97]" "replicate 130 98" 0 140 "replicate 140 0"] by (simp add: length_prefix_def splice_def)

end
