(* ===== verification/Lejp.thy ===== *)
theory Lejp
  imports Lws_Prelude "HOL-Library.Monad_Syntax"
begin

text \<open>
  The streaming JSON parser \<^verbatim>\<open>lejp.c\<close>: a state machine with a stack of 12 levels that calls the application for names, values
  and brackets, and keeps the path of names in 128 bytes. \<open>None\<close> is an access outside of an array of the context. The
  application's callback is a function of the context with the log of its calls, so that it may answer differently every time.
\<close>

subsection \<open>The context\<close>

datatype lejp_states =
    LEJP_IDLE | LEJP_MEMBERS | LEJP_M_P | LEJP_MP_STRING | LEJP_MP_STRING_ESC
  | LEJP_MP_STRING_ESC_U1 | LEJP_MP_STRING_ESC_U2 | LEJP_MP_STRING_ESC_U3 | LEJP_MP_STRING_ESC_U4
  | LEJP_MP_DELIM | LEJP_MP_VALUE | LEJP_MP_VALUE_NUM_INT | LEJP_MP_VALUE_NUM_EXP | LEJP_MP_VALUE_TOK
  | LEJP_MP_COMMA_OR_END | LEJP_MP_ARRAY_END

datatype lejp_reasons =
    LEJP_REJECT_IDLE_NO_BRACE | LEJP_REJECT_MEMBERS_NO_CLOSE | LEJP_REJECT_MP_NO_OPEN_QUOTE | LEJP_REJECT_MP_STRING_UNDERRUN
  | LEJP_REJECT_MP_ILLEGAL_CTRL | LEJP_REJECT_MP_STRING_ESC_ILLEGAL_ESC | LEJP_REJECT_ILLEGAL_HEX
  | LEJP_REJECT_MP_DELIM_MISSING_COLON | LEJP_REJECT_MP_DELIM_BAD_VALUE_START | LEJP_REJECT_MP_VAL_NUM_INT_NO_FRAC
  | LEJP_REJECT_MP_VAL_NUM_FORMAT | LEJP_REJECT_MP_VAL_NUM_EXP_BAD_EXP | LEJP_REJECT_MP_VAL_TOK_UNKNOWN
  | LEJP_REJECT_MP_C_OR_E_UNDERF | LEJP_REJECT_MP_C_OR_E_NOTARRAY | LEJP_REJECT_MP_ARRAY_END_MISSING | LEJP_REJECT_STACK_OVERFLOW
  | LEJP_REJECT_MP_DELIM_ISTACK | LEJP_REJECT_NUM_TOO_LONG | LEJP_REJECT_MP_C_OR_E_NEITHER | LEJP_REJECT_CALLBACK

fun lejp_reason_code :: "lejp_reasons \<Rightarrow> int" where
  "lejp_reason_code LEJP_REJECT_IDLE_NO_BRACE = -2"
| "lejp_reason_code LEJP_REJECT_MEMBERS_NO_CLOSE = -3"
| "lejp_reason_code LEJP_REJECT_MP_NO_OPEN_QUOTE = -4"
| "lejp_reason_code LEJP_REJECT_MP_STRING_UNDERRUN = -5"
| "lejp_reason_code LEJP_REJECT_MP_ILLEGAL_CTRL = -6"
| "lejp_reason_code LEJP_REJECT_MP_STRING_ESC_ILLEGAL_ESC = -7"
| "lejp_reason_code LEJP_REJECT_ILLEGAL_HEX = -8"
| "lejp_reason_code LEJP_REJECT_MP_DELIM_MISSING_COLON = -9"
| "lejp_reason_code LEJP_REJECT_MP_DELIM_BAD_VALUE_START = -10"
| "lejp_reason_code LEJP_REJECT_MP_VAL_NUM_INT_NO_FRAC = -11"
| "lejp_reason_code LEJP_REJECT_MP_VAL_NUM_FORMAT = -12"
| "lejp_reason_code LEJP_REJECT_MP_VAL_NUM_EXP_BAD_EXP = -13"
| "lejp_reason_code LEJP_REJECT_MP_VAL_TOK_UNKNOWN = -14"
| "lejp_reason_code LEJP_REJECT_MP_C_OR_E_UNDERF = -15"
| "lejp_reason_code LEJP_REJECT_MP_C_OR_E_NOTARRAY = -16"
| "lejp_reason_code LEJP_REJECT_MP_ARRAY_END_MISSING = -17"
| "lejp_reason_code LEJP_REJECT_STACK_OVERFLOW = -18"
| "lejp_reason_code LEJP_REJECT_MP_DELIM_ISTACK = -19"
| "lejp_reason_code LEJP_REJECT_NUM_TOO_LONG = -20"
| "lejp_reason_code LEJP_REJECT_MP_C_OR_E_NEITHER = -21"
| "lejp_reason_code LEJP_REJECT_CALLBACK = -23"

datatype lejp_callbacks =
    LEJPCB_CONSTRUCTED | LEJPCB_DESTRUCTED | LEJPCB_START | LEJPCB_COMPLETE | LEJPCB_FAILED | LEJPCB_PAIR_NAME
  | LEJPCB_VAL_TRUE | LEJPCB_VAL_FALSE | LEJPCB_VAL_NULL | LEJPCB_VAL_NUM_INT | LEJPCB_VAL_NUM_FLOAT
  | LEJPCB_VAL_STR_START | LEJPCB_VAL_STR_CHUNK | LEJPCB_VAL_STR_END
  | LEJPCB_ARRAY_START | LEJPCB_ARRAY_END | LEJPCB_OBJECT_START | LEJPCB_OBJECT_END

text \<open>The flag \<^verbatim>\<open>LEJP_FLAG_WS_COMMENTLINE\<close> is a field of its own; \<^verbatim>\<open>LEJP_FLAG_WS_KEEP\<close> belongs to the state.\<close>

record lejp_stack =
  ls_s :: lejp_states
  ls_comment :: bool
  ls_p :: nat
  ls_i :: nat

definition ws_keep :: "lejp_states \<Rightarrow> bool" where
  "ws_keep s \<longleftrightarrow> s \<in> {LEJP_MP_STRING, LEJP_MP_STRING_ESC, LEJP_MP_STRING_ESC_U1, LEJP_MP_STRING_ESC_U2, LEJP_MP_STRING_ESC_U3,
     LEJP_MP_STRING_ESC_U4, LEJP_MP_VALUE_NUM_INT, LEJP_MP_VALUE_NUM_EXP, LEJP_MP_VALUE_TOK}"

abbreviation (input) "LEJP_MAX_DEPTH \<equiv> 12 :: nat"
abbreviation (input) "LEJP_MAX_INDEX_DEPTH \<equiv> 5 :: nat"
abbreviation (input) "LEJP_MAX_PATH \<equiv> 128 :: nat"
abbreviation (input) "LEJP_STRING_CHUNK \<equiv> 255 :: nat"

record lejp_ctx =
  lst :: "lejp_stack list"
  lidx :: "nat list"          \<comment> \<open>\<^verbatim>\<open>i\<close>, 16 bits each\<close>
  lwild :: "nat list"
  lpath :: "byte list"
  lbuf :: "byte list"
  lline :: nat
  luni :: u16
  npos :: nat
  dcount :: nat
  seen_minus :: bool           \<comment> \<open>the bits of \<^verbatim>\<open>f\<close>\<close>
  seen_point :: bool
  seen_post_point :: bool
  seen_exp :: bool
  sp :: nat
  ipos :: nat
  ppos :: nat
  lpaths :: "byte list list"
  path_match :: nat
  path_match_len :: nat
  wildcount :: nat
  llog :: "(lejp_callbacks \<times> byte list \<times> byte list) list"
    \<comment> \<open>each call, with the path and the \<open>npos\<close> first bytes of \<^verbatim>\<open>buf\<close>\<close>

type_synonym lejp_cb = "lejp_ctx \<Rightarrow> lejp_callbacks \<Rightarrow> int"

definition lejp_call :: "lejp_cb \<Rightarrow> lejp_callbacks \<Rightarrow> lejp_ctx \<Rightarrow> int \<times> lejp_ctx" where
  "lejp_call cb r ctx = (cb ctx r, ctx\<lparr>llog := llog ctx @ [(r, take (ppos ctx) (lpath ctx), take (npos ctx) (lbuf ctx))]\<rparr>)"

definition lejp_construct :: "lejp_cb \<Rightarrow> byte list list \<Rightarrow> lejp_ctx \<Rightarrow> lejp_ctx option" where
  "lejp_construct cb paths ctx =
     (case lst ctx of
        [] \<Rightarrow> None
      | _ # ls \<Rightarrow>
          if lpath ctx = [] then None
          else Some (snd (lejp_call cb LEJPCB_CONSTRUCTED (ctx\<lparr>
            lst := \<lparr>ls_s = LEJP_IDLE, ls_comment = False, ls_p = 0, ls_i = 0\<rparr> # ls, sp := 0, ipos := 0, ppos := 0,
            path_match := 0, lpath := (lpath ctx)[0 := 0], lpaths := paths, lline := 1\<rparr>))))"

definition lejp_destruct :: "lejp_cb \<Rightarrow> lejp_ctx \<Rightarrow> lejp_ctx" where
  "lejp_destruct cb ctx = snd (lejp_call cb LEJPCB_DESTRUCTED ctx)"

definition lejp_change_callback :: "lejp_cb \<Rightarrow> lejp_cb \<Rightarrow> lejp_ctx \<Rightarrow> lejp_ctx" where
  "lejp_change_callback old new ctx =
     snd (lejp_call new LEJPCB_START (snd (lejp_call new LEJPCB_CONSTRUCTED (snd (lejp_call old LEJPCB_DESTRUCTED ctx)))))"

subsection \<open>Checked access\<close>

definition top :: "lejp_ctx \<Rightarrow> lejp_stack option" where
  "top ctx = (if sp ctx < length (lst ctx) then Some (lst ctx ! sp ctx) else None)"

text \<open>\<^verbatim>\<open>st[sp - 1]\<close>, which is in front of the array at level 0.\<close>

definition below :: "lejp_ctx \<Rightarrow> lejp_stack option" where
  "below ctx = (if 0 < sp ctx \<and> sp ctx \<le> length (lst ctx) then Some (lst ctx ! (sp ctx - 1)) else None)"

definition set_top :: "(lejp_stack \<Rightarrow> lejp_stack) \<Rightarrow> lejp_ctx \<Rightarrow> lejp_ctx option" where
  "set_top f ctx = (if sp ctx < length (lst ctx) then Some (ctx\<lparr>lst := (lst ctx)[sp ctx := f (lst ctx ! sp ctx)]\<rparr>) else None)"

definition goto :: "lejp_states \<Rightarrow> lejp_ctx \<Rightarrow> lejp_ctx option" where
  "goto s ctx = set_top (\<lambda>l. l\<lparr>ls_s := s, ls_comment := False\<rparr>) ctx"

definition path_put :: "byte \<Rightarrow> lejp_ctx \<Rightarrow> lejp_ctx option" where
  "path_put c ctx = (if ppos ctx < length (lpath ctx)
     then Some (ctx\<lparr>lpath := (lpath ctx)[ppos ctx := c], ppos := (ppos ctx + 1) mod 256\<rparr>) else None)"

definition path_end :: "lejp_ctx \<Rightarrow> lejp_ctx option" where
  "path_end ctx = (if ppos ctx < length (lpath ctx) then Some (ctx\<lparr>lpath := (lpath ctx)[ppos ctx := 0]\<rparr>) else None)"

definition buf_set :: "nat \<Rightarrow> byte \<Rightarrow> lejp_ctx \<Rightarrow> lejp_ctx option" where
  "buf_set i c ctx = (if i < length (lbuf ctx) then Some (ctx\<lparr>lbuf := (lbuf ctx)[i := c]\<rparr>) else None)"

definition index_up :: "lejp_ctx \<Rightarrow> lejp_ctx option" where
  "index_up ctx =
     (if ipos ctx = 0 then Some ctx
      else if ipos ctx \<le> length (lidx ctx)
      then Some (ctx\<lparr>lidx := (lidx ctx)[ipos ctx - 1 := (lidx ctx ! (ipos ctx - 1) + 1) mod 65536]\<rparr>) else None)"

subsection \<open>Paths\<close>

text \<open>\<^verbatim>\<open>lejp_check_path_match\<close>: a walk along the path and a pattern, where a star eats up to the next dot, or everything.\<close>

function path_walk :: "nat \<Rightarrow> byte list \<Rightarrow> byte list \<Rightarrow> nat list \<Rightarrow> nat \<Rightarrow> (bool \<times> nat list \<times> nat) option" where
  "path_walk off p q wild wc =
     (if p = [] \<or> q = [] then Some (p = [] \<and> q = [], wild, wc)
      else if hd q \<noteq> of_char CHR ''*'' then
        (if hd p \<noteq> hd q then Some (False, wild, wc) else path_walk (off + 1) (tl p) (tl q) wild wc)
      else if length wild \<le> wc then None
      else
        let skip = length (takeWhile (\<lambda>c. c \<noteq> of_char CHR ''.'' \<or> tl q = []) p)
        in path_walk (off + skip) (drop skip p) (tl q) (wild[wc := off]) (wc + 1))"
  by pat_completeness auto
termination by (relation "measure (\<lambda>(off, p, q, wild, wc). length q)") auto

declare path_walk.simps [simp del]

fun match_loop :: "byte list list \<Rightarrow> nat \<Rightarrow> lejp_ctx \<Rightarrow> lejp_ctx option" where
  "match_loop [] n ctx = Some (ctx\<lparr>wildcount := 0\<rparr>)"
| "match_loop (q # qs) n ctx =
     do {
       (hit, wild, wc) \<leftarrow> path_walk 0 (c_str (lpath ctx)) q (lwild ctx) 0;
       let ctx = ctx\<lparr>lwild := wild, wildcount := wc\<rparr>;
       if hit then Some (ctx\<lparr>path_match := n + 1, path_match_len := ppos ctx\<rparr>) else match_loop qs (n + 1) ctx
     }"

definition lejp_check_path_match :: "lejp_ctx \<Rightarrow> lejp_ctx option" where
  "lejp_check_path_match ctx = (if path_match ctx \<noteq> 0 then Some ctx else match_loop (lpaths ctx) 0 ctx)"

text \<open>\<^verbatim>\<open>lejp_get_wildcard\<close>: the part of the path a star stood for, copied up to the next dot; the result is what was written.\<close>

fun wildcard_copy :: "lejp_ctx \<Rightarrow> nat \<Rightarrow> nat \<Rightarrow> nat \<Rightarrow> byte list option" where
  "wildcard_copy ctx w n 0 = Some []"
| "wildcard_copy ctx w n (Suc len) =
     (if len = 0 \<or> ppos ctx \<le> n then Some []
      else if length (lpath ctx) \<le> n then None
      else if n \<noteq> w \<and> lpath ctx ! n = of_char CHR ''.'' then Some []
      else map_option ((#) (lpath ctx ! n)) (wildcard_copy ctx w (n + 1) len))"

definition lejp_get_wildcard :: "lejp_ctx \<Rightarrow> nat \<Rightarrow> nat \<Rightarrow> (nat \<times> byte list) option" where
  "lejp_get_wildcard ctx wildcard len =
     (if wildcount ctx \<le> wildcard \<or> len = 0 then Some (0, [])
      else if length (lwild ctx) \<le> wildcard then None
      else do {
        dest \<leftarrow> wildcard_copy ctx (lwild ctx ! wildcard) (lwild ctx ! wildcard) len;
        Some (length dest + 1, dest @ [0])
      })"

lemma wildcard_fits: "lejp_get_wildcard ctx wildcard len = Some (n, dest) \<Longrightarrow> length dest = n \<and> n \<le> len"
proof -
  have "wildcard_copy ctx w n len = Some dest \<Longrightarrow> 0 < len \<Longrightarrow> length dest < len" for w n len dest
    by (induction ctx w n len arbitrary: dest rule: wildcard_copy.induct) (auto split: if_splits)
  then show "lejp_get_wildcard ctx wildcard len = Some (n, dest) \<Longrightarrow> length dest = n \<and> n \<le> len"
    by (auto simp: lejp_get_wildcard_def Suc_le_eq split: if_splits option.splits bind_splits)
qed

definition shrunk :: "lejp_ctx \<Rightarrow> lejp_ctx" where
  "shrunk ctx = (if path_match ctx \<noteq> 0 \<and> ppos ctx \<le> path_match_len ctx then ctx\<lparr>path_match := 0\<rparr> else ctx)"

subsection \<open>One character\<close>

text \<open>\<open>Go\<close> is \<^verbatim>\<open>continue\<close>, \<open>Redo\<close> is \<^verbatim>\<open>redo_character\<close>.\<close>

datatype lejp_out = Go lejp_ctx | Redo lejp_ctx | Reject lejp_reasons lejp_ctx | Complete lejp_ctx

text \<open>A call whose result other than zero rejects the input.\<close>

definition ask :: "lejp_cb \<Rightarrow> lejp_callbacks \<Rightarrow> lejp_ctx \<Rightarrow> (lejp_ctx \<Rightarrow> lejp_out option) \<Rightarrow> lejp_out option" where
  "ask cb r ctx k = (case lejp_call cb r ctx of (n, ctx) \<Rightarrow> if n \<noteq> 0 then Some (Reject LEJP_REJECT_CALLBACK ctx) else k ctx)"

definition emit_string_char :: "lejp_cb \<Rightarrow> byte \<Rightarrow> lejp_ctx \<Rightarrow> lejp_out option" where
  "emit_string_char cb c ctx =
     do {
       name \<leftarrow> (if sp ctx = 0 then Some False else do { b \<leftarrow> below ctx; Some (ls_s b = LEJP_MP_DELIM) });
       if name then do { ctx \<leftarrow> path_put c ctx; Some (Go ctx) }
       else do {
         ctx \<leftarrow> buf_set (npos ctx) c ctx;
         let ctx = ctx\<lparr>npos := (npos ctx + 1) mod 256\<rparr>;
         if npos ctx = LEJP_STRING_CHUNK - 1
         then ask cb LEJPCB_VAL_STR_CHUNK ctx (\<lambda>ctx. Some (Go (ctx\<lparr>npos := 0\<rparr>)))
         else Some (Go ctx)
       }
     }"

definition add_stack_level :: "lejp_states \<Rightarrow> lejp_ctx \<Rightarrow> lejp_out option" where
  "add_stack_level s ctx =
     do {
       t \<leftarrow> top ctx;
       ctx \<leftarrow> (if ppos ctx \<noteq> 0 \<and> ls_s t \<noteq> LEJP_MP_COMMA_OR_END \<and> ls_s t \<noteq> LEJP_MP_ARRAY_END
               then path_put (of_char CHR ''.'') ctx else Some ctx);
       ctx \<leftarrow> set_top (\<lambda>l. l\<lparr>ls_p := ppos ctx, ls_i := ipos ctx\<rparr>) ctx;
       let ctx = ctx\<lparr>sp := sp ctx + 1\<rparr>;
       if sp ctx = LEJP_MAX_DEPTH then Some (Reject LEJP_REJECT_STACK_OVERFLOW ctx)
       else do { ctx \<leftarrow> path_end ctx; ctx \<leftarrow> goto s ctx; Some (Go ctx) }
     }"

definition append_npos :: "byte \<Rightarrow> lejp_ctx \<Rightarrow> lejp_out option" where
  "append_npos c ctx =
     (if LEJP_STRING_CHUNK \<le> npos ctx then Some (Reject LEJP_REJECT_NUM_TOO_LONG ctx)
      else do { ctx \<leftarrow> buf_set (npos ctx) c ctx; Some (Go (ctx\<lparr>npos := (npos ctx + 1) mod 256\<rparr>)) })"

text \<open>Strings, their escapes and the four hexadecimal digits.\<close>

definition esc_chars :: "(byte \<times> byte) list" where
  "esc_chars = [(0x22, 0x22), (0x5c, 0x5c), (0x2f, 0x2f), (of_char CHR ''b'', 8), (of_char CHR ''f'', 12),
     (of_char CHR ''n'', 10), (of_char CHR ''r'', 13), (of_char CHR ''t'', 9), (0, 0)]"

definition lejp_string :: "lejp_cb \<Rightarrow> byte \<Rightarrow> lejp_ctx \<Rightarrow> lejp_out option" where
  "lejp_string cb c ctx =
     (if c = 0x22 then
        if sp ctx = 0 then Some (Reject LEJP_REJECT_MP_STRING_UNDERRUN ctx)
        else do {
          b \<leftarrow> below ctx;
          if ls_s b \<noteq> LEJP_MP_DELIM then do {
            ctx \<leftarrow> buf_set (npos ctx) 0 ctx;
            case lejp_call cb LEJPCB_VAL_STR_END ctx of (n, ctx) \<Rightarrow>
              if n < 0 then Some (Reject LEJP_REJECT_CALLBACK ctx) else Some (Go (ctx\<lparr>sp := sp ctx - 1\<rparr>))
          }
          else Some (Go (ctx\<lparr>sp := sp ctx - 1\<rparr>))
        }
      else if c = 0x5c then do { ctx \<leftarrow> goto LEJP_MP_STRING_ESC ctx; Some (Go ctx) }
      else if c < 32 then Some (Reject LEJP_REJECT_MP_ILLEGAL_CTRL ctx)
      else emit_string_char cb c ctx)"

definition lejp_string_esc :: "lejp_cb \<Rightarrow> byte \<Rightarrow> lejp_ctx \<Rightarrow> lejp_out option" where
  "lejp_string_esc cb c ctx =
     (if c = of_char CHR ''u'' then do { ctx \<leftarrow> goto LEJP_MP_STRING_ESC_U1 ctx; Some (Go (ctx\<lparr>luni := 0\<rparr>)) }
      else case map_of esc_chars c of
        Some d \<Rightarrow> do { ctx \<leftarrow> goto LEJP_MP_STRING ctx; emit_string_char cb d ctx }
      | None \<Rightarrow> Some (Reject LEJP_REJECT_MP_STRING_ESC_ILLEGAL_ESC ctx))"

text \<open>A digit is joined to the digits before, a letter replaces them.\<close>

definition hex_digit :: "byte \<Rightarrow> u16 \<Rightarrow> u16 option" where
  "hex_digit c u =
     (let u = push_bit 4 u in
      if of_char CHR ''0'' \<le> c \<and> c \<le> of_char CHR ''9'' then Some (u OR ucast (c - of_char CHR ''0''))
      else if of_char CHR ''a'' \<le> c \<and> c \<le> of_char CHR ''f'' then Some (ucast (c - of_char CHR ''a'') + 10)
      else if of_char CHR ''A'' \<le> c \<and> c \<le> of_char CHR ''F'' then Some (ucast (c - of_char CHR ''A'') + 10)
      else None)"

definition lejp_string_hex :: "lejp_cb \<Rightarrow> lejp_states \<Rightarrow> byte \<Rightarrow> lejp_ctx \<Rightarrow> lejp_out option" where
  "lejp_string_hex cb s c ctx =
     (case hex_digit c (luni ctx) of
        None \<Rightarrow> Some (Reject LEJP_REJECT_ILLEGAL_HEX (ctx\<lparr>luni := push_bit 4 (luni ctx)\<rparr>))
      | Some u \<Rightarrow>
          let ctx = ctx\<lparr>luni := u\<rparr> in
          if s = LEJP_MP_STRING_ESC_U1 then do { ctx \<leftarrow> goto LEJP_MP_STRING_ESC_U2 ctx; Some (Go ctx) }
          else if s = LEJP_MP_STRING_ESC_U2 then do {
            ctx \<leftarrow> goto LEJP_MP_STRING_ESC_U3 ctx;
            if u < 8 then Some (Go ctx) else emit_string_char cb (0xe0 OR ucast (drop_bit 4 u AND 0xf)) ctx
          }
          else if s = LEJP_MP_STRING_ESC_U3 then do {
            ctx \<leftarrow> goto LEJP_MP_STRING_ESC_U4 ctx;
            if 0x80 \<le> u then emit_string_char cb (0x80 OR ucast (drop_bit 2 u AND 0x3f)) ctx
            else if u < 8 then Some (Go ctx)
            else emit_string_char cb (0xc0 OR ucast (drop_bit 2 u)) ctx
          }
          else do {
            ctx \<leftarrow> goto LEJP_MP_STRING ctx;
            emit_string_char cb (if 0x80 \<le> u then 0x80 OR ucast (u AND 0x3f) else ucast u) ctx
          })"

text \<open>Values.\<close>

definition lejp_value_str :: "lejp_cb \<Rightarrow> lejp_ctx \<Rightarrow> lejp_out option" where
  "lejp_value_str cb ctx =
     do {
       ctx \<leftarrow> goto LEJP_MP_COMMA_OR_END ctx;
       ctx \<leftarrow> buf_set 0 0 (ctx\<lparr>npos := 0\<rparr>);
       ask cb LEJPCB_VAL_STR_START ctx (add_stack_level LEJP_MP_STRING)
     }"

definition lejp_value_object :: "lejp_cb \<Rightarrow> lejp_ctx \<Rightarrow> lejp_out option" where
  "lejp_value_object cb ctx =
     do {
       ctx \<leftarrow> goto LEJP_MP_COMMA_OR_END ctx;
       ctx \<leftarrow> lejp_check_path_match ctx;
       ask cb LEJPCB_OBJECT_START ctx (\<lambda>ctx. add_stack_level LEJP_MEMBERS (ctx\<lparr>path_match := 0\<rparr>))
     }"

definition lejp_value_array :: "lejp_cb \<Rightarrow> lejp_ctx \<Rightarrow> lejp_out option" where
  "lejp_value_array cb ctx =
     do {
       ctx \<leftarrow> goto LEJP_MP_ARRAY_END ctx;
       ctx \<leftarrow> path_put (of_char CHR ''['') ctx;
       ctx \<leftarrow> path_put (of_char CHR '']'') ctx;
       ctx \<leftarrow> path_end ctx;
       ask cb LEJPCB_ARRAY_START ctx (\<lambda>ctx.
         if length (lidx ctx) \<le> ipos ctx then None
         else let ctx = ctx\<lparr>lidx := (lidx ctx)[ipos ctx := 0], ipos := ipos ctx + 1\<rparr> in
           if LEJP_MAX_INDEX_DEPTH < ipos ctx then Some (Reject LEJP_REJECT_MP_DELIM_ISTACK ctx)
           else add_stack_level LEJP_MP_VALUE ctx)
     }"

definition lejp_value :: "lejp_cb \<Rightarrow> byte \<Rightarrow> lejp_ctx \<Rightarrow> lejp_out option" where
  "lejp_value cb c ctx =
     (if of_char CHR ''0'' \<le> c \<and> c \<le> of_char CHR ''9'' then do {
        ctx \<leftarrow> goto LEJP_MP_VALUE_NUM_INT (ctx\<lparr>npos := 0, dcount := 0, seen_minus := False, seen_point := False,
          seen_post_point := False, seen_exp := False\<rparr>);
        Some (Redo ctx)
      }
      else if c = 0x22 then lejp_value_str cb ctx
      else if c = of_char CHR ''{'' then lejp_value_object cb ctx
      else if c = of_char CHR ''['' then lejp_value_array cb ctx
      else if c = of_char CHR ''t'' then do { ctx \<leftarrow> goto LEJP_MP_VALUE_TOK (ctx\<lparr>luni := 0\<rparr>); Some (Go ctx) }
      else if c = of_char CHR ''f'' then do { ctx \<leftarrow> goto LEJP_MP_VALUE_TOK (ctx\<lparr>luni := 4\<rparr>); Some (Go ctx) }
      else if c = of_char CHR ''n'' then do { ctx \<leftarrow> goto LEJP_MP_VALUE_TOK (ctx\<lparr>luni := 4 + 5\<rparr>); Some (Go ctx) }
      else Some (Reject LEJP_REJECT_MP_DELIM_BAD_VALUE_START ctx))"

definition lejp_num_end :: "lejp_cb \<Rightarrow> lejp_ctx \<Rightarrow> lejp_out option" where
  "lejp_num_end cb ctx =
     do {
       ctx \<leftarrow> buf_set (npos ctx) 0 ctx;
       ask cb (if seen_point ctx then LEJPCB_VAL_NUM_FLOAT else LEJPCB_VAL_NUM_INT) ctx
         (\<lambda>ctx. do { ctx \<leftarrow> goto LEJP_MP_COMMA_OR_END ctx; Some (Redo ctx) })
     }"

definition lejp_num_int :: "lejp_cb \<Rightarrow> byte \<Rightarrow> lejp_ctx \<Rightarrow> lejp_out option" where
  "lejp_num_int cb c ctx =
     (if npos ctx = 0 \<and> c = of_char CHR ''-'' then append_npos c (ctx\<lparr>seen_minus := True\<rparr>)
      else if dcount ctx < 10 \<and> of_char CHR ''0'' \<le> c \<and> c \<le> of_char CHR ''9'' then
        append_npos c (ctx\<lparr>seen_post_point := seen_post_point ctx \<or> seen_point ctx, dcount := dcount ctx + 1\<rparr>)
      else if c = of_char CHR ''.'' then
        if dcount ctx \<noteq> 0 \<or> seen_point ctx then Some (Reject LEJP_REJECT_MP_VAL_NUM_FORMAT ctx)
        else append_npos c (ctx\<lparr>seen_point := True\<rparr>)
      else if seen_point ctx \<and> \<not> seen_post_point ctx then Some (Reject LEJP_REJECT_MP_VAL_NUM_INT_NO_FRAC ctx)
      else if c = of_char CHR ''e'' \<or> c = of_char CHR ''E'' then
        if seen_exp ctx then Some (Reject LEJP_REJECT_MP_VAL_NUM_FORMAT ctx)
        else do { ctx \<leftarrow> goto LEJP_MP_VALUE_NUM_EXP (ctx\<lparr>seen_exp := True\<rparr>); append_npos c ctx }
      else if dcount ctx = 0 then Some (Reject LEJP_REJECT_MP_VAL_NUM_FORMAT ctx)
      else lejp_num_end cb ctx)"

definition lejp_num_exp :: "byte \<Rightarrow> lejp_ctx \<Rightarrow> lejp_out option" where
  "lejp_num_exp c ctx =
     do {
       ctx \<leftarrow> goto LEJP_MP_VALUE_NUM_INT ctx;
       if of_char CHR ''0'' \<le> c \<and> c \<le> of_char CHR ''9'' then Some (Redo ctx)
       else if c = of_char CHR ''+'' \<or> c = of_char CHR ''-'' then append_npos c ctx
       else Some (Reject LEJP_REJECT_MP_VAL_NUM_EXP_BAD_EXP ctx)
     }"

definition lejp_tokens :: "byte list" where
  "lejp_tokens = bytes_of ''rue alse ull '' @ [0]"

definition lejp_tok_done :: "lejp_cb \<Rightarrow> lejp_ctx \<Rightarrow> lejp_out option" where
  "lejp_tok_done cb ctx =
     (let last = (\<lambda>ctx. do { ctx \<leftarrow> goto LEJP_MP_COMMA_OR_END ctx; Some (Go ctx) }) in
      if luni ctx = 3 then do {
        ctx \<leftarrow> buf_set 0 (of_char CHR ''1'') ctx; ctx \<leftarrow> buf_set 1 0 ctx; ask cb LEJPCB_VAL_TRUE ctx last }
      else if luni ctx = 8 then do {
        ctx \<leftarrow> buf_set 0 (of_char CHR ''0'') ctx; ctx \<leftarrow> buf_set 1 0 ctx; ask cb LEJPCB_VAL_FALSE ctx last }
      else if luni ctx = 12 then do { ctx \<leftarrow> buf_set 0 0 ctx; ask cb LEJPCB_VAL_NULL ctx last }
      else last ctx)"

definition lejp_tok :: "lejp_cb \<Rightarrow> byte \<Rightarrow> lejp_ctx \<Rightarrow> lejp_out option" where
  "lejp_tok cb c ctx =
     (if length lejp_tokens \<le> unat (luni ctx) + 1 then None
      else if c \<noteq> lejp_tokens ! unat (luni ctx) then Some (Reject LEJP_REJECT_MP_VAL_TOK_UNKNOWN ctx)
      else
        let ctx = ctx\<lparr>luni := luni ctx + 1\<rparr> in
        if lejp_tokens ! unat (luni ctx) \<noteq> 32 then Some (Go ctx) else lejp_tok_done cb ctx)"

text \<open>Behind a value.\<close>

definition lejp_comma :: "lejp_ctx \<Rightarrow> lejp_out option" where
  "lejp_comma ctx =
     do {
       ctx \<leftarrow> goto LEJP_M_P ctx;
       if sp ctx = 0 then Some (Go (ctx\<lparr>ppos := 0, path_match := 0\<rparr>))
       else do {
         b \<leftarrow> below ctx;
         ctx \<leftarrow> path_end (ctx\<lparr>ppos := ls_p b\<rparr>);
         let ctx = shrunk ctx;
         if ls_s b \<noteq> LEJP_MP_ARRAY_END then Some (Go ctx)
         else do { ctx \<leftarrow> index_up ctx; ctx \<leftarrow> goto LEJP_MP_VALUE ctx; Some (Go ctx) }
       }
     }"

definition lejp_array_close :: "lejp_ctx \<Rightarrow> lejp_out option" where
  "lejp_array_close ctx =
     (if sp ctx = 0 then Some (Reject LEJP_REJECT_MP_C_OR_E_UNDERF ctx)
      else do {
        let ctx = ctx\<lparr>sp := sp ctx - 1\<rparr>;
        t \<leftarrow> top ctx;
        if ls_s t \<noteq> LEJP_MP_ARRAY_END then Some (Reject LEJP_REJECT_MP_C_OR_E_NOTARRAY ctx)
        else do {
          b \<leftarrow> below ctx;
          ctx \<leftarrow> path_end (ctx\<lparr>ppos := ls_p b, ipos := ls_i b\<rparr>);
          Some (Redo (shrunk ctx))
        }
      })"

definition lejp_object_close :: "lejp_cb \<Rightarrow> lejp_ctx \<Rightarrow> lejp_out option" where
  "lejp_object_close cb ctx =
     (if sp ctx = 0 then do {
        ctx \<leftarrow> lejp_check_path_match ctx;
        ask cb LEJPCB_OBJECT_END ctx (\<lambda>ctx. Some (Complete (snd (lejp_call cb LEJPCB_COMPLETE ctx))))
      }
      else do {
        let ctx = ctx\<lparr>sp := sp ctx - 1\<rparr>;
        b \<leftarrow> below ctx;
        ctx \<leftarrow> path_end (ctx\<lparr>ppos := ls_p b, ipos := ls_i b\<rparr>);
        ctx \<leftarrow> lejp_check_path_match (shrunk ctx);
        ask cb LEJPCB_OBJECT_END ctx (\<lambda>ctx. Some (Go ctx))
      })"

definition lejp_comma_or_end :: "lejp_cb \<Rightarrow> byte \<Rightarrow> lejp_ctx \<Rightarrow> lejp_out option" where
  "lejp_comma_or_end cb c ctx =
     do {
       ctx \<leftarrow> path_end ctx;
       if c = of_char CHR '','' then lejp_comma ctx
       else if c = of_char CHR '']'' then lejp_array_close ctx
       else if c = of_char CHR ''}'' then lejp_object_close cb ctx
       else Some (Reject LEJP_REJECT_MP_C_OR_E_NEITHER ctx)
     }"

definition lejp_array_end :: "lejp_cb \<Rightarrow> byte \<Rightarrow> lejp_ctx \<Rightarrow> lejp_out option" where
  "lejp_array_end cb c ctx =
     do {
       ctx \<leftarrow> path_end ctx;
       if c = of_char CHR '','' then do {
         ctx \<leftarrow> index_up ctx;
         ctx \<leftarrow> goto LEJP_MP_VALUE ctx;
         ctx \<leftarrow> (if sp ctx = 0 then Some ctx else do { b \<leftarrow> below ctx; Some (ctx\<lparr>ppos := ls_p b\<rparr>) });
         ctx \<leftarrow> path_end ctx;
         Some (Go ctx)
       }
       else if c \<noteq> of_char CHR '']'' then Some (Reject LEJP_REJECT_MP_ARRAY_END_MISSING ctx)
       else do { ctx \<leftarrow> goto LEJP_MP_COMMA_OR_END ctx; Some (Go (snd (lejp_call cb LEJPCB_ARRAY_END ctx))) }
     }"

definition lejp_switch :: "lejp_cb \<Rightarrow> lejp_states \<Rightarrow> byte \<Rightarrow> lejp_ctx \<Rightarrow> lejp_out option" where
  "lejp_switch cb s c ctx =
     (case s of
        LEJP_IDLE \<Rightarrow>
          if c \<noteq> of_char CHR ''{'' then Some (Reject LEJP_REJECT_IDLE_NO_BRACE ctx)
          else ask cb LEJPCB_OBJECT_START ctx (\<lambda>ctx. do { ctx \<leftarrow> goto LEJP_MEMBERS ctx; Some (Go ctx) })
      | LEJP_MEMBERS \<Rightarrow>
          if c = of_char CHR ''}'' then do { ctx \<leftarrow> goto LEJP_IDLE ctx; Some (Reject LEJP_REJECT_MEMBERS_NO_CLOSE ctx) }
          else do { ctx \<leftarrow> goto LEJP_M_P ctx; Some (Redo ctx) }
      | LEJP_M_P \<Rightarrow>
          if c \<noteq> 0x22 then Some (Reject LEJP_REJECT_MP_NO_OPEN_QUOTE ctx)
          else do { ctx \<leftarrow> goto LEJP_MP_DELIM ctx; add_stack_level LEJP_MP_STRING ctx }
      | LEJP_MP_STRING \<Rightarrow> lejp_string cb c ctx
      | LEJP_MP_STRING_ESC \<Rightarrow> lejp_string_esc cb c ctx
      | LEJP_MP_DELIM \<Rightarrow>
          if c \<noteq> of_char CHR '':'' then Some (Reject LEJP_REJECT_MP_DELIM_MISSING_COLON ctx)
          else do {
            ctx \<leftarrow> goto LEJP_MP_VALUE ctx;
            ctx \<leftarrow> path_end ctx;
            ctx \<leftarrow> lejp_check_path_match ctx;
            ask cb LEJPCB_PAIR_NAME ctx (\<lambda>ctx. Some (Go ctx))
          }
      | LEJP_MP_VALUE \<Rightarrow> lejp_value cb c ctx
      | LEJP_MP_VALUE_NUM_INT \<Rightarrow> lejp_num_int cb c ctx
      | LEJP_MP_VALUE_NUM_EXP \<Rightarrow> lejp_num_exp c ctx
      | LEJP_MP_VALUE_TOK \<Rightarrow> lejp_tok cb c ctx
      | LEJP_MP_COMMA_OR_END \<Rightarrow> lejp_comma_or_end cb c ctx
      | LEJP_MP_ARRAY_END \<Rightarrow> lejp_array_end cb c ctx
      | _ \<Rightarrow> lejp_string_hex cb s c ctx)"

text \<open>Blanks and comments in front of the switch.\<close>

definition is_space :: "byte \<Rightarrow> bool" where
  "is_space c \<longleftrightarrow> c \<in> {32, 9, 10, 13, of_char CHR ''#''}"

definition lejp_char :: "lejp_cb \<Rightarrow> byte \<Rightarrow> lejp_ctx \<Rightarrow> lejp_out option" where
  "lejp_char cb c ctx =
     do {
       t \<leftarrow> top ctx;
       ctx \<leftarrow> (if c = 10 then set_top (\<lambda>l. l\<lparr>ls_comment := False\<rparr>) (ctx\<lparr>lline := lline ctx + 1\<rparr>) else Some ctx);
       if is_space c \<and> \<not> ws_keep (ls_s t) then
         if c = of_char CHR ''#'' then do { ctx \<leftarrow> set_top (\<lambda>l. l\<lparr>ls_comment := True\<rparr>) ctx; Some (Go ctx) }
         else Some (Go ctx)
       else if ls_comment t then Some (Go ctx)
       else lejp_switch cb (ls_s t) c ctx
     }"

subsection \<open>The loop\<close>

text \<open>How often a character can be looked at again: the state goes down by this rank each time.\<close>

fun redo_rank :: "lejp_states \<Rightarrow> nat" where
  "redo_rank LEJP_MEMBERS = 1"
| "redo_rank LEJP_MP_VALUE = 3"
| "redo_rank LEJP_MP_VALUE_NUM_EXP = 3"
| "redo_rank LEJP_MP_VALUE_NUM_INT = 2"
| "redo_rank LEJP_MP_COMMA_OR_END = 1"
| "redo_rank s = 0"

definition ctx_rank :: "lejp_ctx \<Rightarrow> nat" where
  "ctx_rank ctx = (case top ctx of None \<Rightarrow> 0 | Some t \<Rightarrow> redo_rank (ls_s t))"

lemma bind_SomeE: "Option.bind m f = Some y \<Longrightarrow> (\<And>x. m = Some x \<Longrightarrow> f x = Some y \<Longrightarrow> P) \<Longrightarrow> P"
  by (cases m) auto

lemma goto_top: "goto s ctx = Some ctx' \<Longrightarrow> sp ctx' = sp ctx \<and> top ctx' = Some ((lst ctx ! sp ctx)\<lparr>ls_s := s, ls_comment := False\<rparr>)"
  by (auto simp: goto_def set_top_def top_def split: if_splits)

lemma no_redo [simp]:
  "emit_string_char cb c ctx \<noteq> Some (Redo ctx')" "add_stack_level s ctx \<noteq> Some (Redo ctx')" "append_npos c ctx \<noteq> Some (Redo ctx')"
  by (auto simp: emit_string_char_def add_stack_level_def append_npos_def ask_def Let_def elim!: bind_SomeE split: if_splits prod.splits)

lemma ask_redo: "ask cb r ctx k = Some (Redo ctx') \<Longrightarrow> \<exists>ctx1. k ctx1 = Some (Redo ctx')"
  by (auto simp: ask_def split: prod.splits if_splits)

lemma no_redo_parts [simp]:
  "lejp_string cb c ctx \<noteq> Some (Redo ctx')" "lejp_string_esc cb c ctx \<noteq> Some (Redo ctx')" "lejp_string_hex cb s c ctx \<noteq> Some (Redo ctx')"
  "lejp_value_str cb ctx \<noteq> Some (Redo ctx')" "lejp_value_object cb ctx \<noteq> Some (Redo ctx')" "lejp_value_array cb ctx \<noteq> Some (Redo ctx')"
  "lejp_tok cb c ctx \<noteq> Some (Redo ctx')" "lejp_comma ctx \<noteq> Some (Redo ctx')" "lejp_object_close cb ctx \<noteq> Some (Redo ctx')"
  "lejp_array_end cb c ctx \<noteq> Some (Redo ctx')"
  by (auto simp: lejp_string_def lejp_string_esc_def lejp_string_hex_def lejp_value_str_def lejp_value_object_def lejp_value_array_def
      lejp_tok_def lejp_tok_done_def lejp_comma_def lejp_object_close_def lejp_array_end_def Let_def
      elim!: bind_SomeE dest!: ask_redo split: if_splits option.splits prod.splits)

lemma goto_rank: "goto s ctx = Some ctx' \<Longrightarrow> ctx_rank ctx' = redo_rank s"
  by (auto simp: ctx_rank_def dest: goto_top)

lemma value_redo: "lejp_value cb c ctx = Some (Redo ctx') \<Longrightarrow> ctx_rank ctx' = 2"
  by (auto simp: lejp_value_def goto_rank elim!: bind_SomeE split: if_splits)

lemma num_redo: "lejp_num_int cb c ctx = Some (Redo ctx') \<Longrightarrow> ctx_rank ctx' = 1"
  by (auto simp: lejp_num_int_def lejp_num_end_def goto_rank elim!: bind_SomeE dest!: ask_redo split: if_splits)

lemma exp_redo: "lejp_num_exp c ctx = Some (Redo ctx') \<Longrightarrow> ctx_rank ctx' = 2"
  by (auto simp: lejp_num_exp_def goto_rank elim!: bind_SomeE split: if_splits)

lemma close_redo: "lejp_array_close ctx = Some (Redo ctx') \<Longrightarrow> ctx_rank ctx' = 0"
  by (auto simp: lejp_array_close_def ctx_rank_def path_end_def shrunk_def top_def Let_def elim!: bind_SomeE split: if_splits)

lemma end_redo: "lejp_comma_or_end cb c ctx = Some (Redo ctx') \<Longrightarrow> ctx_rank ctx' = 0"
  by (auto simp: lejp_comma_or_end_def elim!: bind_SomeE dest: close_redo split: if_splits)

lemma switch_redo: "lejp_switch cb s c ctx = Some (Redo ctx') \<Longrightarrow> ctx_rank ctx' < redo_rank s"
  by (cases s) (auto simp: lejp_switch_def goto_rank elim!: bind_SomeE dest: value_redo num_redo exp_redo end_redo dest!: ask_redo split: if_splits)

lemma char_redo: "lejp_char cb c ctx = Some (Redo ctx') \<Longrightarrow> ctx_rank ctx' < ctx_rank ctx"
  by (auto simp: lejp_char_def ctx_rank_def [of ctx] elim!: bind_SomeE dest: switch_redo split: if_splits)

text \<open>\<^verbatim>\<open>ret\<close> is an unsigned char, so the reasons come back as positive numbers.\<close>

definition lejp_ret :: "lejp_reasons \<Rightarrow> int" where
  "lejp_ret r = lejp_reason_code r mod 256"

definition LEJP_CONTINUE :: int where
  "LEJP_CONTINUE = -1"

function lejp_loop :: "lejp_cb \<Rightarrow> byte list \<Rightarrow> lejp_ctx \<Rightarrow> (int \<times> lejp_ctx) option" where
  "lejp_loop cb [] ctx = Some (LEJP_CONTINUE, ctx)"
| "lejp_loop cb (c # json) ctx =
     (case lejp_char cb c ctx of
        None \<Rightarrow> None
      | Some (Go ctx) \<Rightarrow> lejp_loop cb json ctx
      | Some (Redo ctx) \<Rightarrow> lejp_loop cb (c # json) ctx
      | Some (Reject r ctx) \<Rightarrow> Some (lejp_ret r, snd (lejp_call cb LEJPCB_FAILED ctx))
      | Some (Complete ctx) \<Rightarrow> Some (int (length json), ctx))"
  by pat_completeness auto
termination
  by (relation "inv_image (less_than <*lex*> less_than) (\<lambda>(cb, json, ctx). (length json, ctx_rank ctx))") (auto dest: char_redo)

definition lejp_parse :: "lejp_cb \<Rightarrow> byte list \<Rightarrow> lejp_ctx \<Rightarrow> (int \<times> lejp_ctx) option" where
  "lejp_parse cb json ctx =
     lejp_loop cb json (if sp ctx = 0 \<and> ppos ctx = 0 then snd (lejp_call cb LEJPCB_START ctx) else ctx)"

end
