(* ===== verification/Lejp_Parse.thy ===== *)
theory Lejp_Parse
  imports Lejp
begin

text \<open>
  Properties of the JSON parser: what a step keeps of the stack (\<open>stack_ok\<close>, \<open>number_ok\<close>), what a parse returns, and where
  it is after each part of an object with one pair (\<open>parse_at\<close>).
\<close>

subsection \<open>What a step keeps\<close>

text \<open>\<open>whenever m Q\<close>: the result of \<open>m\<close>, if there is one, satisfies \<open>Q\<close>.\<close>

definition whenever :: "'a option \<Rightarrow> ('a \<Rightarrow> bool) \<Rightarrow> bool" where
  "whenever m Q \<longleftrightarrow> (\<forall>x. m = Some x \<longrightarrow> Q x)"

lemma whenever_simps [simp]:
  "whenever (Some x) Q \<longleftrightarrow> Q x" "whenever None Q" "whenever (Option.bind m f) Q \<longleftrightarrow> whenever m (\<lambda>x. whenever (f x) Q)"
  by (cases m; auto simp: whenever_def)+

lemma whenever_mono: "whenever m Q \<Longrightarrow> (\<And>x. Q x \<Longrightarrow> R x) \<Longrightarrow> whenever m R"
  by (auto simp: whenever_def)

abbreviation state_at :: "lejp_ctx \<Rightarrow> nat \<Rightarrow> lejp_states" where
  "state_at ctx i \<equiv> ls_s (lst ctx ! i)"

definition is_digit :: "byte \<Rightarrow> bool" where
  "is_digit c \<longleftrightarrow> of_char CHR ''0'' \<le> c \<and> c \<le> of_char CHR ''9''"

definition no_float :: "lejp_ctx \<Rightarrow> bool" where
  "no_float ctx \<longleftrightarrow> LEJPCB_VAL_NUM_FLOAT \<notin> fst ` set (llog ctx)"

definition waits :: "lejp_states \<Rightarrow> bool" where
  "waits s \<longleftrightarrow> s \<in> {LEJP_MP_DELIM, LEJP_MP_COMMA_OR_END, LEJP_MP_ARRAY_END}"

text \<open>The levels below the top wait for what was pushed on them, and no float was reported.\<close>

definition stack_ok :: "lejp_ctx \<Rightarrow> bool" where
  "stack_ok ctx \<longleftrightarrow> length (lst ctx) = LEJP_MAX_DEPTH \<and> sp ctx < LEJP_MAX_DEPTH \<and>
     (\<forall>i < sp ctx. waits (state_at ctx i)) \<and>
     no_float ctx"

text \<open>Inside of a number there was a digit, or the character to look at is one.\<close>

definition number_ok :: "byte option \<Rightarrow> lejp_ctx \<Rightarrow> bool" where
  "number_ok next ctx \<longleftrightarrow>
     (state_at ctx (sp ctx) = LEJP_MP_VALUE_NUM_INT \<longrightarrow> \<not> ls_comment (lst ctx ! sp ctx) \<and> \<not> seen_point ctx \<and> (0 < dcount ctx \<or> (\<exists>c. next = Some c \<and> is_digit c))) \<and>
     (state_at ctx (sp ctx) = LEJP_MP_VALUE_NUM_EXP \<longrightarrow> \<not> seen_point ctx \<and> 0 < dcount ctx)"

fun out_ok :: "byte \<Rightarrow> lejp_out \<Rightarrow> bool" where
  "out_ok c (Go ctx) \<longleftrightarrow> stack_ok ctx \<and> number_ok None ctx"
| "out_ok c (Redo ctx) \<longleftrightarrow> stack_ok ctx \<and> number_ok (Some c) ctx"
| "out_ok c (Reject r ctx) \<longleftrightarrow> no_float ctx"
| "out_ok c (Complete ctx) \<longleftrightarrow> no_float ctx"

lemma whenever_goto:
  "whenever (goto s ctx) Q \<longleftrightarrow> (sp ctx < length (lst ctx) \<longrightarrow> Q (ctx\<lparr>lst := (lst ctx)[sp ctx := (lst ctx ! sp ctx)\<lparr>ls_s := s, ls_comment := False\<rparr>]\<rparr>))"
  by (simp add: goto_def set_top_def)
lemma whenever_access:
  "whenever (path_put c ctx) Q \<longleftrightarrow> (ppos ctx < length (lpath ctx) \<longrightarrow> Q (ctx\<lparr>lpath := (lpath ctx)[ppos ctx := c], ppos := (ppos ctx + 1) mod 256\<rparr>))"
  "whenever (path_end ctx) Q \<longleftrightarrow> (ppos ctx < length (lpath ctx) \<longrightarrow> Q (ctx\<lparr>lpath := (lpath ctx)[ppos ctx := 0]\<rparr>))"
  "whenever (buf_set i c ctx) Q \<longleftrightarrow> (i < length (lbuf ctx) \<longrightarrow> Q (ctx\<lparr>lbuf := (lbuf ctx)[i := c]\<rparr>))"
  by (simp_all add: path_put_def path_end_def buf_set_def)

lemma whenever_ask:
  "whenever (ask cb r ctx k) Q \<longleftrightarrow>
     (cb ctx r \<noteq> 0 \<longrightarrow> Q (Reject LEJP_REJECT_CALLBACK (snd (lejp_call cb r ctx)))) \<and> (cb ctx r = 0 \<longrightarrow> whenever (k (snd (lejp_call cb r ctx))) Q)"
  by (simp add: ask_def lejp_call_def)

lemma lejp_call_ok [simp]:
  "stack_ok (snd (lejp_call cb r ctx)) \<longleftrightarrow> stack_ok ctx \<and> r \<noteq> LEJPCB_VAL_NUM_FLOAT"
  "number_ok next (snd (lejp_call cb r ctx)) = number_ok next ctx"
  "no_float (snd (lejp_call cb r ctx)) \<longleftrightarrow> no_float ctx \<and> r \<noteq> LEJPCB_VAL_NUM_FLOAT"
  by (auto simp: lejp_call_def stack_ok_def number_ok_def no_float_def)

lemma whenever_below:
  "whenever (below ctx) Q \<longleftrightarrow> (0 < sp ctx \<and> sp ctx \<le> length (lst ctx) \<longrightarrow> Q (lst ctx ! (sp ctx - 1)))"
  by (simp add: below_def)

lemma whenever_top: "whenever (top ctx) Q \<longleftrightarrow> (sp ctx < length (lst ctx) \<longrightarrow> Q (lst ctx ! sp ctx))"
  by (simp add: top_def)

definition match_only :: "lejp_ctx \<Rightarrow> lejp_ctx \<Rightarrow> bool" where
  "match_only ctx ctx' \<longleftrightarrow> ctx'\<lparr>lwild := [], wildcount := 0, path_match := 0, path_match_len := 0\<rparr> =
     ctx\<lparr>lwild := [], wildcount := 0, path_match := 0, path_match_len := 0\<rparr>"

lemma match_only: "match_only ctx ctx' \<longleftrightarrow>
    ctx' = ctx\<lparr>lwild := lwild ctx', wildcount := wildcount ctx', path_match := path_match ctx', path_match_len := path_match_len ctx'\<rparr>"
  by (cases ctx; cases ctx') (auto simp: match_only_def)

lemma match_whenever: "whenever (match_loop qs n ctx) (match_only ctx)"
proof (induction qs arbitrary: n ctx)
  case (Cons q qs)
  have "whenever (match_loop qs (Suc n) (ctx\<lparr>lwild := w, wildcount := wc\<rparr>)) (match_only ctx)" for w wc
    by (rule whenever_mono [OF Cons.IH]) (simp add: match_only_def)
  moreover have "match_only ctx (ctx\<lparr>lwild := w, wildcount := wc, path_match := pm, path_match_len := pml\<rparr>)" for w wc pm pml
    by (simp add: match_only_def)
  ultimately show ?case
    by (cases "path_walk 0 (c_str (lpath ctx)) q (lwild ctx) 0") (simp_all add: Let_def case_prod_beta)
qed (simp add: match_only_def)

lemma check_whenever: "whenever (lejp_check_path_match ctx) (match_only ctx)"
  by (simp add: lejp_check_path_match_def match_whenever match_only_def)

lemma whenever_check:
  "(\<And>w wc pm pml. Q (ctx\<lparr>lwild := w, wildcount := wc, path_match := pm, path_match_len := pml\<rparr>)) \<Longrightarrow> whenever (lejp_check_path_match ctx) Q"
  by (rule whenever_mono [OF check_whenever]) (metis match_only)

lemma ok_fields [simp]:
  "stack_ok (ctx\<lparr>lwild := w, wildcount := wc, path_match := pm, path_match_len := pml\<rparr>) = stack_ok ctx"
  "number_ok next (ctx\<lparr>lwild := w, wildcount := wc, path_match := pm, path_match_len := pml\<rparr>) = number_ok next ctx"
  "stack_ok (ctx\<lparr>lpath := p, ppos := pp\<rparr>) = stack_ok ctx" "number_ok next (ctx\<lparr>lpath := p, ppos := pp\<rparr>) = number_ok next ctx"
  "stack_ok (ctx\<lparr>lpath := p\<rparr>) = stack_ok ctx" "number_ok next (ctx\<lparr>lpath := p\<rparr>) = number_ok next ctx"
  "stack_ok (ctx\<lparr>lbuf := b\<rparr>) = stack_ok ctx" "number_ok next (ctx\<lparr>lbuf := b\<rparr>) = number_ok next ctx"
  "stack_ok (ctx\<lparr>lidx := xs\<rparr>) = stack_ok ctx" "number_ok next (ctx\<lparr>lidx := xs\<rparr>) = number_ok next ctx"
  "stack_ok (ctx\<lparr>ppos := pp\<rparr>) = stack_ok ctx" "number_ok next (ctx\<lparr>ppos := pp\<rparr>) = number_ok next ctx"
  "stack_ok (ctx\<lparr>ppos := pp, ipos := ii\<rparr>) = stack_ok ctx" "number_ok next (ctx\<lparr>ppos := pp, ipos := ii\<rparr>) = number_ok next ctx"
  "stack_ok (ctx\<lparr>path_match := pm\<rparr>) = stack_ok ctx" "number_ok next (ctx\<lparr>path_match := pm\<rparr>) = number_ok next ctx"
  "stack_ok (ctx\<lparr>luni := u\<rparr>) = stack_ok ctx" "number_ok next (ctx\<lparr>luni := u\<rparr>) = number_ok next ctx"
  "stack_ok (ctx\<lparr>lline := ln\<rparr>) = stack_ok ctx" "number_ok next (ctx\<lparr>lline := ln\<rparr>) = number_ok next ctx"
  "stack_ok (ctx\<lparr>npos := np\<rparr>) = stack_ok ctx" "number_ok next (ctx\<lparr>npos := np\<rparr>) = number_ok next ctx"
  "stack_ok (ctx\<lparr>lbuf := b, npos := np\<rparr>) = stack_ok ctx" "number_ok next (ctx\<lparr>lbuf := b, npos := np\<rparr>) = number_ok next ctx"
  "stack_ok (shrunk ctx) = stack_ok ctx" "number_ok next (shrunk ctx) = number_ok next ctx"
  by (auto simp: stack_ok_def number_ok_def shrunk_def no_float_def)

text \<open>A state other than the two of a number can be set at any time.\<close>

lemma goto_ok:
  assumes "stack_ok ctx" "s \<notin> {LEJP_MP_VALUE_NUM_INT, LEJP_MP_VALUE_NUM_EXP}"
  shows "whenever (goto s ctx) (\<lambda>ctx'. stack_ok ctx' \<and> number_ok next ctx' \<and> state_at ctx' (sp ctx') = s \<and> lbuf ctx' = lbuf ctx)"
  using assms by (auto simp: whenever_goto stack_ok_def number_ok_def no_float_def)

lemma stack_quiet [simp]: "stack_ok ctx \<Longrightarrow> no_float ctx"
  by (simp add: stack_ok_def)

lemma emit_ok: "stack_ok ctx \<Longrightarrow> number_ok None ctx \<Longrightarrow> whenever (emit_string_char cb c ctx) (out_ok d)"
  by (simp add: emit_string_char_def whenever_access whenever_ask whenever_below Let_def)

lemma waits_simps [simp]: "waits LEJP_MP_DELIM" "waits LEJP_MP_COMMA_OR_END" "waits LEJP_MP_ARRAY_END"
  by (simp_all add: waits_def)

lemma push_ok:
  assumes "stack_ok ctx" "waits (state_at ctx (sp ctx))" and s: "s \<notin> {LEJP_MP_VALUE_NUM_INT, LEJP_MP_VALUE_NUM_EXP}"
  shows "whenever (add_stack_level s ctx) (out_ok d)"
  using assms(1,2)
  by (simp add: add_stack_level_def whenever_access whenever_top set_top_def whenever_goto Let_def)
    (use s in \<open>simp add: stack_ok_def number_ok_def no_float_def nth_list_update less_Suc_eq\<close>)

lemma append_ok: "stack_ok ctx \<Longrightarrow> number_ok None ctx \<Longrightarrow> whenever (append_npos c ctx) (out_ok d)"
  by (simp add: append_npos_def whenever_access)

lemma pop_ok:
  assumes "stack_ok ctx" "0 < sp ctx"
  shows "stack_ok (ctx\<lparr>sp := sp ctx - Suc 0\<rparr>)" "number_ok next (ctx\<lparr>sp := sp ctx - Suc 0\<rparr>)"
proof -
  have "waits (state_at ctx (sp ctx - Suc 0))" using assms by (simp add: stack_ok_def)
  then show "number_ok next (ctx\<lparr>sp := sp ctx - Suc 0\<rparr>)" by (auto simp: number_ok_def waits_def)
qed (use assms in \<open>auto simp: stack_ok_def no_float_def\<close>)

lemma goto_then:
  assumes "stack_ok ctx" "s \<notin> {LEJP_MP_VALUE_NUM_INT, LEJP_MP_VALUE_NUM_EXP}"
    and "\<And>ctx' next. stack_ok ctx' \<Longrightarrow> (\<And>next. number_ok next ctx') \<Longrightarrow> state_at ctx' (sp ctx') = s \<Longrightarrow> Q ctx'"
  shows "whenever (goto s ctx) Q"
proof (rule whenever_mono [OF goto_ok])
  show "stack_ok ctx" and "s \<notin> {LEJP_MP_VALUE_NUM_INT, LEJP_MP_VALUE_NUM_EXP}" by (fact assms)+
qed (use assms(3) in \<open>auto simp: number_ok_def\<close>)

lemma sp_call [simp]: "sp (snd (lejp_call cb r ctx)) = sp ctx" "lst (snd (lejp_call cb r ctx)) = lst ctx"
  by (simp_all add: lejp_call_def)

lemma call_pop_ok:
  assumes "stack_ok ctx" "0 < sp ctx" "r \<noteq> LEJPCB_VAL_NUM_FLOAT"
  shows "stack_ok (snd (lejp_call cb r ctx)\<lparr>sp := sp ctx - Suc 0\<rparr>)" "number_ok next (snd (lejp_call cb r ctx)\<lparr>sp := sp ctx - Suc 0\<rparr>)"
  using pop_ok [of "snd (lejp_call cb r ctx)"] assms by simp_all

lemma string_ok: "stack_ok ctx \<Longrightarrow> number_ok None ctx \<Longrightarrow> whenever (lejp_string cb c ctx) (out_ok d)"
  by (auto simp: lejp_string_def whenever_below whenever_access case_prod_beta emit_ok pop_ok call_pop_ok
      call_pop_ok [where ctx = "ctx\<lparr>lbuf := (lbuf ctx)[npos ctx := 0]\<rparr>", simplified] intro!: goto_then)

lemma esc_ok: "stack_ok ctx \<Longrightarrow> number_ok None ctx \<Longrightarrow> whenever (lejp_string_esc cb c ctx) (out_ok d)"
  by (simp add: lejp_string_esc_def split: option.split) (auto intro!: goto_then emit_ok)

lemma hex_ok: "stack_ok ctx \<Longrightarrow> number_ok None ctx \<Longrightarrow> whenever (lejp_string_hex cb s c ctx) (out_ok d)"
  by (simp add: lejp_string_hex_def Let_def split: option.split) (auto intro!: goto_then emit_ok)

lemma tok_done_ok: "stack_ok ctx \<Longrightarrow> number_ok None ctx \<Longrightarrow> whenever (lejp_tok_done cb ctx) (out_ok d)"
  by (simp add: lejp_tok_done_def Let_def whenever_access whenever_ask) (auto intro!: goto_then)

lemma tok_ok: "stack_ok ctx \<Longrightarrow> number_ok None ctx \<Longrightarrow> whenever (lejp_tok cb c ctx) (out_ok d)"
  by (simp add: lejp_tok_def Let_def tok_done_ok)

lemma value_str_ok: "stack_ok ctx \<Longrightarrow> whenever (lejp_value_str cb ctx) (out_ok d)"
  unfolding lejp_value_str_def by (simp add: whenever_access whenever_ask, rule goto_then) (simp_all add: push_ok)

lemma value_object_ok: "stack_ok ctx \<Longrightarrow> whenever (lejp_value_object cb ctx) (out_ok d)"
  unfolding lejp_value_object_def
  by (simp, rule goto_then) (simp_all add: whenever_ask push_ok whenever_check)

lemma index_field: "stack_ok (ctx\<lparr>lidx := xs, ipos := n\<rparr>) = stack_ok ctx"
  by (simp add: stack_ok_def no_float_def)

lemma value_array_ok: "stack_ok ctx \<Longrightarrow> whenever (lejp_value_array cb ctx) (out_ok d)"
  unfolding lejp_value_array_def
  by (simp, rule goto_then) (simp_all add: whenever_access whenever_ask Let_def push_ok index_field)

lemma value_ok: "stack_ok ctx \<Longrightarrow> number_ok None ctx \<Longrightarrow> whenever (lejp_value cb c ctx) (out_ok c)"
  unfolding lejp_value_def
  by (simp add: value_str_ok value_object_ok value_array_ok whenever_goto, intro conjI impI)
    (auto simp: stack_ok_def number_ok_def no_float_def is_digit_def)

lemma num_end_ok: "stack_ok ctx \<Longrightarrow> \<not> seen_point ctx \<Longrightarrow> whenever (lejp_num_end cb ctx) (out_ok c)"
  unfolding lejp_num_end_def
  by (simp add: whenever_access whenever_ask) (auto intro!: goto_then)

lemma number_field:
  "stack_ok (ctx\<lparr>seen_minus := b\<rparr>) = stack_ok ctx" "number_ok next (ctx\<lparr>seen_minus := b\<rparr>) = number_ok next ctx"
  "stack_ok (ctx\<lparr>seen_exp := b\<rparr>) = stack_ok ctx" "number_ok next (ctx\<lparr>seen_exp := b\<rparr>) = number_ok next ctx"
  "stack_ok (ctx\<lparr>dcount := n, seen_post_point := b\<rparr>) = stack_ok ctx"
  by (auto simp: stack_ok_def number_ok_def no_float_def)

text \<open>In a number the next character is a digit, or there was one: a point is never the first.\<close>

lemma num_int_ok:
  assumes "stack_ok ctx" "number_ok (Some c) ctx" "state_at ctx (sp ctx) = LEJP_MP_VALUE_NUM_INT"
  shows "whenever (lejp_num_int cb c ctx) (out_ok c)"
proof (cases "is_digit c")
  case True
  then have "c \<noteq> 45" "c \<noteq> 46" "48 \<le> c" "c \<le> 57" "c \<noteq> 101" "c \<noteq> 69" by (auto simp: is_digit_def byte_simps)
  moreover have put: "whenever (append_npos c (ctx\<lparr>dcount := Suc (dcount ctx), seen_post_point := b\<rparr>)) (out_ok c)" for b
    using assms by (intro append_ok) (auto simp: number_field number_ok_def)
  moreover from put [of "seen_post_point ctx"]
  have "whenever (append_npos c (ctx\<lparr>dcount := Suc (dcount ctx)\<rparr>)) (out_ok c)" by simp
  ultimately show ?thesis
    using assms by (simp add: lejp_num_int_def num_end_ok number_ok_def)
next
  case False
  with assms have d: "0 < dcount ctx" "\<not> seen_point ctx" "number_ok None ctx" by (auto simp: number_ok_def)
  moreover have "\<not> (48 \<le> c \<and> c \<le> 57)" using False by (simp add: is_digit_def)
  moreover have "whenever (goto LEJP_MP_VALUE_NUM_EXP (ctx\<lparr>seen_exp := True\<rparr>)) (\<lambda>ctx. whenever (append_npos c ctx) (out_ok c))"
    using assms d by (simp add: whenever_goto append_ok stack_ok_def number_ok_def no_float_def)
  ultimately show ?thesis
    using assms by (auto simp: lejp_num_int_def num_end_ok append_ok number_field)
qed

lemma num_exp_ok:
  assumes "stack_ok ctx" "number_ok (Some c) ctx" "state_at ctx (sp ctx) = LEJP_MP_VALUE_NUM_EXP"
  shows "whenever (lejp_num_exp c ctx) (out_ok c)"
  using assms unfolding lejp_num_exp_def
  by (simp add: whenever_goto append_ok stack_ok_def number_ok_def no_float_def)

lemma comma_ok: "stack_ok ctx \<Longrightarrow> whenever (lejp_comma ctx) (out_ok d)"
  unfolding lejp_comma_def
  by (simp, rule goto_then) (auto simp: whenever_below whenever_access index_up_def Let_def intro!: goto_then)

lemma array_close_ok:
  assumes "stack_ok ctx"
  shows "whenever (lejp_array_close ctx) (out_ok d)"
proof (cases "sp ctx = 0")
  case False
  have "stack_ok (ctx\<lparr>sp := sp ctx - Suc 0\<rparr>)" "number_ok (Some d) (ctx\<lparr>sp := sp ctx - Suc 0\<rparr>)"
    using assms False by (simp_all add: pop_ok)
  then show ?thesis using False by (simp add: lejp_array_close_def Let_def whenever_top whenever_below whenever_access)
qed (use assms in \<open>simp add: lejp_array_close_def\<close>)

lemma object_close_ok:
  assumes "stack_ok ctx" "number_ok None ctx"
  shows "whenever (lejp_object_close cb ctx) (out_ok d)"
proof (cases "sp ctx = 0")
  case False
  have "stack_ok (ctx\<lparr>sp := sp ctx - Suc 0\<rparr>)" "number_ok None (ctx\<lparr>sp := sp ctx - Suc 0\<rparr>)"
    using assms False by (simp_all add: pop_ok)
  then show ?thesis using False by (simp add: lejp_object_close_def Let_def whenever_below whenever_access whenever_check whenever_ask)
qed (use assms in \<open>simp add: lejp_object_close_def whenever_check whenever_ask\<close>)

lemma comma_or_end_ok: "stack_ok ctx \<Longrightarrow> number_ok None ctx \<Longrightarrow> whenever (lejp_comma_or_end cb c ctx) (out_ok d)"
  by (simp add: lejp_comma_or_end_def whenever_access comma_ok array_close_ok object_close_ok)

lemma array_end_ok: "stack_ok ctx \<Longrightarrow> whenever (lejp_array_end cb c ctx) (out_ok d)"
  unfolding lejp_array_end_def
  by (auto simp: whenever_below whenever_access index_up_def intro!: goto_then)

lemma number_next: "number_ok next ctx \<Longrightarrow> state_at ctx (sp ctx) \<noteq> LEJP_MP_VALUE_NUM_INT \<Longrightarrow> number_ok None ctx"
  by (simp add: number_ok_def)

lemma switch_ok:
  assumes "stack_ok ctx" "number_ok (Some c) ctx"
  shows "whenever (lejp_switch cb (state_at ctx (sp ctx)) c ctx) (out_ok c)"
  using assms number_next [OF assms(2)]
  by (cases "state_at ctx (sp ctx)")
    (simp_all add: lejp_switch_def string_ok esc_ok hex_ok value_ok num_int_ok num_exp_ok tok_ok comma_or_end_ok array_end_ok
      goto_then whenever_access whenever_check whenever_ask push_ok)

lemma char_ok:
  assumes "stack_ok ctx" "number_ok (Some c) ctx"
  shows "whenever (lejp_char cb c ctx) (out_ok c)"
proof -
  have quiet: "number_ok None ctx" if "\<not> ws_keep (state_at ctx (sp ctx)) \<or> ls_comment (lst ctx ! sp ctx)"
    using that assms(2) by (auto simp: number_ok_def ws_keep_def)
  have mark: "whenever (set_top (\<lambda>l. l\<lparr>ls_comment := True\<rparr>) ctx) (\<lambda>ctx'. stack_ok ctx' \<and> number_ok None ctx')"
    if "\<not> ws_keep (state_at ctx (sp ctx))"
    using that assms(1) by (simp add: set_top_def stack_ok_def number_ok_def no_float_def ws_keep_def)
  have line: "whenever (set_top (\<lambda>l. l\<lparr>ls_comment := False\<rparr>) (ctx\<lparr>lline := ln\<rparr>)) (\<lambda>ctx'. stack_ok ctx' \<and>
      number_ok (Some c) ctx' \<and> (number_ok None ctx \<longrightarrow> number_ok None ctx') \<and> state_at ctx' (sp ctx') = state_at ctx (sp ctx))" for ln
    using assms by (auto simp: set_top_def stack_ok_def number_ok_def no_float_def)
  have switch: "whenever (lejp_switch cb (state_at ctx (sp ctx)) c ctx') (out_ok c)"
    if "stack_ok ctx'" "number_ok (Some c) ctx'" "state_at ctx' (sp ctx') = state_at ctx (sp ctx)" for ctx'
    using switch_ok [OF that(1,2)] that(3) by simp
  show ?thesis
  proof (cases "c = 10")
    case True
    have "whenever (set_top (\<lambda>l. l\<lparr>ls_comment := False\<rparr>) (ctx\<lparr>lline := Suc (lline ctx)\<rparr>)) (\<lambda>ctx'. whenever
        (if \<not> ws_keep (state_at ctx (sp ctx)) \<or> ls_comment (lst ctx ! sp ctx) then Some (Go ctx')
         else lejp_switch cb (state_at ctx (sp ctx)) c ctx') (out_ok c))"
      using quiet by (intro whenever_mono [OF line]) (auto simp: switch)
    then show ?thesis
      using True by (simp add: lejp_char_def whenever_top is_space_def) (auto elim: whenever_mono)
  next
    case False
    have "whenever (set_top (\<lambda>l. l\<lparr>ls_comment := True\<rparr>) ctx) (\<lambda>ctx. out_ok c (Go ctx))" if "\<not> ws_keep (state_at ctx (sp ctx))"
      using mark [OF that] by simp
    then show ?thesis
      using False assms quiet switch [of ctx] by (simp add: lejp_char_def whenever_top)
  qed
qed

lemma loop_ok:
  assumes "stack_ok ctx" "number_ok (case json of [] \<Rightarrow> None | c # _ \<Rightarrow> Some c) ctx"
  shows "whenever (lejp_loop cb json ctx) (\<lambda>(r, ctx'). no_float ctx')"
  using assms
proof (induction cb json ctx rule: lejp_loop.induct)
  case (2 cb c json ctx)
  have any: "number_ok None ctx' \<Longrightarrow> number_ok b ctx'" for ctx' b by (auto simp: number_ok_def)
  show ?case
  proof (cases "lejp_char cb c ctx")
    case (Some out)
    then have "out_ok c out" using char_ok [of ctx c cb] "2.prems" by (simp add: whenever_def)
    then show ?thesis using Some "2.IH" by (cases out) (simp_all add: any)
  qed simp
qed simp

subsection \<open>Results\<close>

lemma reject_result: "lejp_ret r \<in> {233..254}"
  by (cases r) (simp_all add: lejp_ret_def)

text \<open>Every result but the one for a missing rest is a number from 0 on.\<close>

definition last_call :: "lejp_ctx \<Rightarrow> lejp_callbacks option" where
  "last_call ctx = (if llog ctx = [] then None else Some (fst (last (llog ctx))))"

fun says_complete :: "lejp_out \<Rightarrow> bool" where
  "says_complete (Complete ctx) \<longleftrightarrow> last_call ctx = Some LEJPCB_COMPLETE"
| "says_complete out \<longleftrightarrow> True"

lemma whenever_True [simp]: "whenever m (\<lambda>x. True)"
  by (simp add: whenever_def)

lemma last_call_call [simp]: "last_call (snd (lejp_call cb r ctx)) = Some r"
  by (simp add: last_call_def lejp_call_def)

lemma says_parts [simp]:
  "whenever (emit_string_char cb c ctx) says_complete" "whenever (add_stack_level s ctx) says_complete" "whenever (append_npos c ctx) says_complete"
  by (simp_all add: emit_string_char_def add_stack_level_def append_npos_def whenever_ask Let_def)

lemma says_states [simp]:
  "whenever (lejp_string cb c ctx) says_complete" "whenever (lejp_string_esc cb c ctx) says_complete" "whenever (lejp_string_hex cb s c ctx) says_complete"
  "whenever (lejp_value cb c ctx) says_complete" "whenever (lejp_num_int cb c ctx) says_complete" "whenever (lejp_num_exp c ctx) says_complete"
  "whenever (lejp_tok cb c ctx) says_complete" "whenever (lejp_comma_or_end cb c ctx) says_complete" "whenever (lejp_array_end cb c ctx) says_complete"
  by (simp_all add: lejp_string_def lejp_string_esc_def lejp_string_hex_def lejp_value_def lejp_value_str_def lejp_value_object_def
      lejp_value_array_def lejp_num_int_def lejp_num_end_def lejp_num_exp_def lejp_tok_def lejp_tok_done_def lejp_comma_or_end_def
      lejp_comma_def lejp_array_close_def lejp_object_close_def lejp_array_end_def whenever_ask Let_def case_prod_beta split: option.split)

lemma says_char: "whenever (lejp_char cb c ctx) says_complete"
  by (simp add: lejp_char_def lejp_switch_def whenever_ask whenever_top split: lejp_states.split)

lemma complete_called: "lejp_char cb c ctx = Some (Complete ctx') \<Longrightarrow> last_call ctx' = Some LEJPCB_COMPLETE"
  using says_char [of cb c ctx] by (simp add: whenever_def)

lemma loop_append:
  assumes "lejp_loop cb a ctx = Some (r, ctx1)"
  shows "lejp_loop cb (a @ b) ctx =
    (if r = LEJP_CONTINUE then lejp_loop cb b ctx1
     else Some (if last_call ctx1 = Some LEJPCB_COMPLETE then r + int (length b) else r, ctx1))"
  using assms
proof (induction cb a ctx rule: lejp_loop.induct)
  case (2 cb c json ctx)
  have [simp]: "lejp_ret e \<noteq> -1" for e using reject_result [of e] by auto
  show ?case
  proof (cases "lejp_char cb c ctx")
    case (Some out)
    then show ?thesis using "2.IH" "2.prems" by (cases out) (auto simp: complete_called LEJP_CONTINUE_def)
  qed (use "2.prems" in simp)
qed simp

lemma loop_fault: "lejp_loop cb a ctx = None \<Longrightarrow> lejp_loop cb (a @ b) ctx = None"
proof (induction cb a ctx rule: lejp_loop.induct)
  case (2 cb c json ctx)
  show ?case
  proof (cases "lejp_char cb c ctx")
    case (Some out)
    then show ?thesis using "2.IH" "2.prems" by (cases out) simp_all
  qed simp
qed simp

lemma loop_result:
  assumes "lejp_loop cb json ctx = Some (r, ctx')"
  shows "r = LEJP_CONTINUE \<or> last_call ctx' = Some LEJPCB_COMPLETE \<and> 0 \<le> r \<and> r < int (length json) \<or>
    last_call ctx' = Some LEJPCB_FAILED \<and> 233 \<le> r \<and> r \<le> 254"
  using assms
proof (induction cb json ctx rule: lejp_loop.induct)
  case (2 cb c json ctx)
  show ?case
  proof (cases "lejp_char cb c ctx")
    case (Some out)
    show ?thesis
    proof (cases out)
      case (Reject e ctx2)
      then show ?thesis using Some "2.prems" reject_result [of e] by auto
    qed (use Some "2.IH" "2.prems" in \<open>fastforce simp: complete_called\<close>)+
  qed (use "2.prems" in simp)
qed simp

subsection \<open>Whole parses\<close>

definition arrays_ok :: "lejp_ctx \<Rightarrow> bool" where
  "arrays_ok ctx \<longleftrightarrow> length (lst ctx) = LEJP_MAX_DEPTH \<and> length (lidx ctx) = LEJP_MAX_INDEX_DEPTH \<and> length (lwild ctx) = LEJP_MAX_INDEX_DEPTH \<and>
     length (lpath ctx) = LEJP_MAX_PATH \<and> length (lbuf ctx) = LEJP_STRING_CHUNK"

text \<open>Memory with a context in it, and an application that agrees with everything.\<close>

definition blank_ctx :: lejp_ctx where
  "blank_ctx = \<lparr>lst = replicate 12 \<lparr>ls_s = LEJP_IDLE, ls_comment = False, ls_p = 0, ls_i = 0\<rparr>, lidx = replicate 5 0, lwild = replicate 5 0,
     lpath = replicate 128 0, lbuf = replicate 255 0, lline = 0, luni = 0, npos = 0, dcount = 0, seen_minus = False, seen_point = False,
     seen_post_point = False, seen_exp = False, sp = 0, ipos = 0, ppos = 0, lpaths = [], path_match = 0, path_match_len = 0, wildcount = 0, llog = []\<rparr>"

definition agree :: lejp_cb where
  "agree ctx r = 0"

definition agrees :: "lejp_cb \<Rightarrow> bool" where
  "agrees cb \<longleftrightarrow> (\<forall>ctx r. cb ctx r = 0)"

lemma agree_agrees: "agrees agree"
  by (simp add: agrees_def agree_def)

lemma blank_arrays: "arrays_ok blank_ctx"
  by (simp add: arrays_ok_def blank_ctx_def)

lemma blank_log: "LEJPCB_VAL_NUM_FLOAT \<notin> fst ` set (llog blank_ctx)"
  by (simp add: blank_ctx_def)

lemma blank_construct: "\<exists>ctx. lejp_construct agree paths blank_ctx = Some ctx"
  by (simp add: lejp_construct_def blank_ctx_def numeral_eq_Suc)

text \<open>Texts with a circumflex for each quotation mark.\<close>

definition quoted :: "string \<Rightarrow> byte list" where
  "quoted s = map (\<lambda>c. if c = of_char CHR ''^'' then 0x22 else c) (bytes_of s)"

lemma construct_fields:
  assumes "lejp_construct cb paths ctx0 = Some ctx"
  shows "ctx = ctx0\<lparr>lst := \<lparr>ls_s = LEJP_IDLE, ls_comment = False, ls_p = 0, ls_i = 0\<rparr> # tl (lst ctx0), sp := 0, ipos := 0, ppos := 0,
    path_match := 0, lpath := (lpath ctx0)[0 := 0], lpaths := paths, lline := 1, llog := llog ctx0 @ [(LEJPCB_CONSTRUCTED, [], take (npos ctx0) (lbuf ctx0))]\<rparr>"
    and "lst ctx0 \<noteq> []" "lpath ctx0 \<noteq> []"
  using assms by (auto simp: lejp_construct_def lejp_call_def split: list.splits if_splits)


text \<open>What \<^verbatim>\<open>lejp_parse\<close> returns: \<^verbatim>\<open>LEJP_CONTINUE\<close>, or after a complete object the number of unused bytes, or after a rejection
  a number from 233 to 254. The reasons are negative, but \<^verbatim>\<open>ret\<close> is an unsigned char: a caller that looks for a negative
  result takes a rejected text for a parsed one.\<close>

lemma lejp_result_sign:
  assumes "lejp_parse cb json ctx = Some (r, ctx')"
  shows "r = LEJP_CONTINUE \<or> last_call ctx' = Some LEJPCB_COMPLETE \<and> 0 \<le> r \<and> r < int (length json) \<or>
    last_call ctx' = Some LEJPCB_FAILED \<and> 233 \<le> r \<and> r \<le> 254"
  using assms by (simp add: lejp_parse_def loop_result)

text \<open>C38: No text makes the parser report a float: a point is refused behind a digit, and a number has to start with one.
  \<^verbatim>\<open>LEJPCB_VAL_NUM_FLOAT\<close> is never called, for any text and any application.\<close>

theorem lejp_no_floats:
  assumes "arrays_ok ctx0" "LEJPCB_VAL_NUM_FLOAT \<notin> fst ` set (llog ctx0)" "lejp_construct cb paths ctx0 = Some ctx"
    and "lejp_parse cb json ctx = Some (r, ctx')"
  shows "LEJPCB_VAL_NUM_FLOAT \<notin> fst ` set (llog ctx')"
proof -
  have "stack_ok ctx" "number_ok b ctx" for b
    using assms(1,2) by (auto simp: construct_fields [OF assms(3)] arrays_ok_def stack_ok_def number_ok_def no_float_def)
  then show ?thesis
    using assms(4) loop_ok [of "if sp ctx = 0 \<and> ppos ctx = 0 then snd (lejp_call cb LEJPCB_START ctx) else ctx" json cb]
    by (simp add: lejp_parse_def whenever_def no_float_def)
qed

theorem lejp_no_floats_witness:
  "\<exists>ctx r ctx'. lejp_construct agree [] blank_ctx = Some ctx \<and> lejp_parse agree (quoted ''{^n^: 1.5}'') ctx = Some (r, ctx') \<and>
     LEJPCB_VAL_NUM_FLOAT \<notin> fst ` set (llog ctx')"
proof -
  have "map_option (\<lambda>(r, ctx). r) (lejp_construct agree [] blank_ctx \<bind> lejp_parse agree (quoted ''{^n^: 1.5}'')) = Some 244"
    by code_simp
  then obtain ctx ctx' where "lejp_construct agree [] blank_ctx = Some ctx" "lejp_parse agree (quoted ''{^n^: 1.5}'') ctx = Some (244, ctx')"
    by (auto split: Option.bind_splits)
  moreover have "LEJPCB_VAL_NUM_FLOAT \<notin> fst ` set (llog ctx')"
    by (rule lejp_no_floats [OF blank_arrays blank_log calculation])
  ultimately show ?thesis by blast
qed


subsection \<open>Reading a name and a value\<close>

definition stars :: "byte list \<Rightarrow> nat" where
  "stars q = length (filter (\<lambda>c. c = of_char CHR ''*'') q)"

lemma walk_returns:
  "wc + stars q \<le> length wild \<Longrightarrow> returns (path_walk off p q wild wc) (\<lambda>(hit, wild', wc'). length wild' = length wild)"
proof (induction off p q wild wc rule: path_walk.induct)
  case (1 off p q wild wc)
  show ?case
  proof (cases q)
    case (Cons x xs)
    then show ?thesis
      using "1.IH" "1.prems" by (subst path_walk.simps) (auto simp: Let_def stars_def)
  qed (subst path_walk.simps, simp)
qed

definition paths_ok :: "lejp_ctx \<Rightarrow> bool" where
  "paths_ok ctx \<longleftrightarrow> (\<forall>q \<in> set (lpaths ctx). stars q \<le> LEJP_MAX_INDEX_DEPTH)"

lemma match_returns:
  "\<forall>q \<in> set qs. stars q \<le> length (lwild ctx) \<Longrightarrow>
    returns (match_loop qs n ctx) (\<lambda>ctx'. match_only ctx ctx' \<and> length (lwild ctx') = length (lwild ctx))"
proof (induction qs arbitrary: n ctx)
  case (Cons q qs)
  have w: "returns (path_walk 0 (c_str (lpath ctx)) q (lwild ctx) 0) (\<lambda>(hit, wild', wc'). length wild' = length (lwild ctx))"
    using Cons.prems by (intro walk_returns) simp
  have "match_only ctx (ctx\<lparr>lwild := w, wildcount := wc, path_match := pm, path_match_len := pml\<rparr>)" for w wc pm pml
    by (simp add: match_only_def)
  moreover have "returns (match_loop qs (Suc n) (ctx\<lparr>lwild := w, wildcount := wc\<rparr>))
      (\<lambda>ctx'. match_only ctx ctx' \<and> length (lwild ctx') = length (lwild ctx))" if "length w = length (lwild ctx)" for w wc
    using Cons.prems that by (intro returns_mono [OF Cons.IH]) (auto simp: match_only_def)
  ultimately show ?case
    by (auto intro!: returns_mono [OF w] simp: Let_def)
qed (simp add: match_only_def)

lemma check_returns:
  assumes "arrays_ok ctx" "paths_ok ctx"
  shows "returns (lejp_check_path_match ctx) (\<lambda>ctx'. match_only ctx ctx' \<and> length (lwild ctx') = length (lwild ctx))"
proof -
  have "match_only ctx ctx" by (simp add: match_only_def)
  moreover have "returns (match_loop (lpaths ctx) 0 ctx) (\<lambda>ctx'. match_only ctx ctx' \<and> length (lwild ctx') = length (lwild ctx))"
    using assms by (intro match_returns) (simp add: arrays_ok_def paths_ok_def)
  ultimately show ?thesis by (simp add: lejp_check_path_match_def)
qed

text \<open>
  Where a parse is: the states of the levels below, the state of the top level, the path, the value so far, and the calls so far.
\<close>

definition parse_at :: "lejp_ctx \<Rightarrow> lejp_states list \<Rightarrow> lejp_states \<Rightarrow> byte list \<Rightarrow> byte list \<Rightarrow>
    (lejp_callbacks \<times> byte list \<times> byte list) list \<Rightarrow> bool" where
  "parse_at ctx ss t p b calls \<longleftrightarrow> arrays_ok ctx \<and> paths_ok ctx \<and> sp ctx = length ss \<and> length ss < LEJP_MAX_DEPTH \<and>
     map ls_s (take (length ss) (lst ctx)) = ss \<and> state_at ctx (length ss) = t \<and> (\<forall>i \<le> length ss. \<not> ls_comment (lst ctx ! i)) \<and>
     ppos ctx = length p \<and> length p < LEJP_MAX_PATH \<and> take (length p) (lpath ctx) = p \<and>
     npos ctx = length b \<and> length b < LEJP_STRING_CHUNK - 1 \<and> take (length b) (lbuf ctx) = b \<and> llog ctx = calls"

lemma at_goto: "parse_at ctx ss t p b l \<Longrightarrow> returns (goto s ctx) (\<lambda>ctx'. parse_at ctx' ss s p b l)"
  by (auto simp: goto_def set_top_def parse_at_def arrays_ok_def paths_ok_def nth_list_update)

lemma at_call: "parse_at ctx ss t p b l \<Longrightarrow> parse_at (snd (lejp_call cb r ctx)) ss t p b (l @ [(r, p, b)])"
  by (simp add: lejp_call_def parse_at_def arrays_ok_def paths_ok_def)

lemma at_fields:
  assumes "match_only ctx ctx'" "length (lwild ctx') = length (lwild ctx)"
  shows "parse_at ctx ss t p b l \<Longrightarrow> parse_at ctx' ss t p b l"
  using assms(2) by (subst (asm) match_only [THEN iffD1, OF assms(1)], subst match_only [THEN iffD1, OF assms(1)])
    (simp add: parse_at_def arrays_ok_def paths_ok_def)

lemma at_match: "parse_at ctx ss t p b l \<Longrightarrow> returns (lejp_check_path_match ctx) (\<lambda>ctx'. parse_at ctx' ss t p b l)"
  using check_returns [of ctx] by (auto simp: parse_at_def [of ctx] elim!: returns_mono intro: at_fields simp flip: parse_at_def)

lemma at_put:
  "parse_at ctx ss t p b l \<Longrightarrow> length p + 1 < LEJP_MAX_PATH \<Longrightarrow> returns (path_put c ctx) (\<lambda>ctx'. parse_at ctx' ss t (p @ [c]) b l)"
  by (simp add: path_put_def parse_at_def arrays_ok_def paths_ok_def take_Suc_conv_app_nth)

lemma at_end: "parse_at ctx ss t p b l \<Longrightarrow> returns (path_end ctx) (\<lambda>ctx'. parse_at ctx' ss t p b l)"
  by (simp add: path_end_def parse_at_def arrays_ok_def paths_ok_def)

lemma at_buf:
  "parse_at ctx ss t p b l \<Longrightarrow> returns (buf_set (npos ctx) c ctx) (\<lambda>ctx'. parse_at ctx' ss t p b l)"
  by (simp add: buf_set_def parse_at_def arrays_ok_def paths_ok_def)


lemma at_path: "parse_at ctx ss t p b l \<Longrightarrow> parse_at (ctx\<lparr>path_match := m\<rparr>) ss t p b l"
  by (simp add: parse_at_def arrays_ok_def paths_ok_def)

lemma at_char:
  assumes "parse_at ctx ss t p b l" "c \<noteq> 10" "\<not> is_space c \<or> ws_keep t"
  shows "lejp_char cb c ctx = lejp_switch cb t c ctx"
  using assms by (auto simp: lejp_char_def top_def parse_at_def arrays_ok_def)

fun goes :: "(lejp_ctx \<Rightarrow> bool) \<Rightarrow> lejp_out \<Rightarrow> bool" where
  "goes Q (Go ctx) \<longleftrightarrow> Q ctx"
| "goes Q out \<longleftrightarrow> False"

lemma returns_eq: "returns m Q \<Longrightarrow> (\<And>x. m = Some x \<Longrightarrow> Q x \<Longrightarrow> P) \<Longrightarrow> P"
  by (auto simp: returns_def)

lemma loop_goes:
  "returns (lejp_char cb c ctx) (goes Q) \<Longrightarrow> \<exists>ctx'. Q ctx' \<and> (\<forall>json. lejp_loop cb (c # json) ctx = lejp_loop cb json ctx')"
  by (erule returns_eq) (auto elim!: goes.elims)

lemma at_level:
  assumes "parse_at ctx ss t p b l" "length ss + 1 < LEJP_MAX_DEPTH"
  shows "parse_at (ctx\<lparr>sp := Suc (sp ctx), lpath := (lpath ctx)[ppos ctx := 0], lst := ((lst ctx)[sp ctx := (lst ctx ! sp ctx)\<lparr>ls_p := x, ls_i := y\<rparr>])
    [Suc (sp ctx) := (lst ctx ! Suc (sp ctx))\<lparr>ls_s := s, ls_comment := False\<rparr>]\<rparr>) (ss @ [t]) s p b l"
  using assms by (auto simp: parse_at_def arrays_ok_def paths_ok_def nth_list_update take_Suc_conv_app_nth le_Suc_eq)

lemma at_push:
  assumes "parse_at ctx ss t p b l" "length ss + 1 < LEJP_MAX_DEPTH" "t = LEJP_MP_DELIM \<Longrightarrow> length p + 1 < LEJP_MAX_PATH" "waits t"
  shows "returns (add_stack_level s ctx) (goes (\<lambda>ctx'. parse_at ctx' (ss @ [t]) s (if p \<noteq> [] \<and> t = LEJP_MP_DELIM then p @ [0x2e] else p) b l))"
proof -
  define q where "q = (if p \<noteq> [] \<and> t = LEJP_MP_DELIM then p @ [0x2e] else p)"
  have top: "top ctx = Some (lst ctx ! sp ctx)" "state_at ctx (sp ctx) = t" "ppos ctx = 0 \<longleftrightarrow> p = []"
    using assms(1) by (auto simp: parse_at_def arrays_ok_def top_def)
  have dot: "returns (if ppos ctx \<noteq> 0 \<and> t \<noteq> LEJP_MP_COMMA_OR_END \<and> t \<noteq> LEJP_MP_ARRAY_END then path_put (of_char CHR ''.'') ctx else Some ctx)
      (\<lambda>ctx'. parse_at ctx' ss t q b l)"
    using assms at_put [OF assms(1), of "0x2e"] top(3) by (auto simp: q_def waits_def)
  have "returns (add_stack_level s ctx) (goes (\<lambda>ctx'. parse_at ctx' (ss @ [t]) s q b l))"
    unfolding add_stack_level_def top(1) Option.bind.simps top(2) returns_simps
  proof (rule returns_mono [OF dot], goal_cases)
    case (1 ctx1)
    have "length (lst ctx1) = 12" "sp ctx1 = length ss" "ppos ctx1 < length (lpath ctx1)"
      using 1 by (auto simp: parse_at_def arrays_ok_def)
    then show ?case using at_level [OF 1 assms(2)] assms(2) by (simp add: set_top_def path_end_def goto_def Let_def)
  qed
  then show ?thesis by (simp add: q_def)
qed

text \<open>What each character does.\<close>

lemma agrees_ask: "agrees cb \<Longrightarrow> ask cb r ctx k = k (snd (lejp_call cb r ctx))"
  by (simp add: ask_def agrees_def lejp_call_def)

lemma at_top: "parse_at ctx ss t p b l \<Longrightarrow> sp ctx = length ss \<and> length ss < length (lst ctx) \<and> state_at ctx (length ss) = t"
  by (simp add: parse_at_def arrays_ok_def)

lemma at_below: "parse_at ctx (ss @ [s]) t p b l \<Longrightarrow> \<exists>x. below ctx = Some x \<and> ls_s x = s"
  by (auto simp: parse_at_def arrays_ok_def below_def take_Suc_conv_app_nth)

lemma at_pop: "parse_at ctx (ss @ [s]) t p b l \<Longrightarrow> parse_at (ctx\<lparr>sp := sp ctx - 1\<rparr>) ss s p b l"
  by (auto simp: parse_at_def arrays_ok_def paths_ok_def take_Suc_conv_app_nth)

lemma open_brace:
  "agrees cb \<Longrightarrow> parse_at ctx [] LEJP_IDLE p b l \<Longrightarrow>
    returns (lejp_char cb (of_char CHR ''{'') ctx) (goes (\<lambda>ctx'. parse_at ctx' [] LEJP_MEMBERS p b (l @ [(LEJPCB_OBJECT_START, p, b)])))"
  by (simp add: at_char is_space_def lejp_switch_def agrees_ask) (metis at_goto at_call)

lemma members_redo:
  assumes "parse_at ctx ss LEJP_MEMBERS p b l"
  shows "\<exists>ctx'. parse_at ctx' ss LEJP_M_P p b l \<and> (\<forall>json. lejp_loop cb (0x22 # json) ctx = lejp_loop cb (0x22 # json) ctx')"
  using at_goto [OF assms, of LEJP_M_P] assms by (auto simp: at_char is_space_def lejp_switch_def elim!: returns_eq)

lemma open_name:
  assumes "parse_at ctx ss LEJP_M_P p b l" "length ss + 1 < LEJP_MAX_DEPTH" "length p + 1 < LEJP_MAX_PATH"
  shows "returns (lejp_char cb 0x22 ctx) (goes (\<lambda>ctx'. parse_at ctx' (ss @ [LEJP_MP_DELIM]) LEJP_MP_STRING (if p = [] then [] else p @ [0x2e]) b l))"
  using assms at_push by (simp add: at_char is_space_def lejp_switch_def) (fastforce intro!: returns_mono [OF at_goto])


definition plain :: "byte list \<Rightarrow> bool" where
  "plain s \<longleftrightarrow> (\<forall>c \<in> set s. 32 \<le> c \<and> c \<noteq> 0x22 \<and> c \<noteq> 0x5c)"

lemma plain_char: "32 \<le> c \<Longrightarrow> c \<noteq> 10 \<and> \<not> c < (32 :: byte)"
  by (auto simp: byte_simps)

lemma name_char:
  assumes "parse_at ctx (ss @ [LEJP_MP_DELIM]) LEJP_MP_STRING p b l" "length p + 1 < LEJP_MAX_PATH" "32 \<le> c" "c \<noteq> 0x22" "c \<noteq> 0x5c"
  shows "returns (lejp_char cb c ctx) (goes (\<lambda>ctx'. parse_at ctx' (ss @ [LEJP_MP_DELIM]) LEJP_MP_STRING (p @ [c]) b l))"
  using assms plain_char [OF assms(3)] at_below [OF assms(1)] at_put [OF assms(1,2), of c] at_top [OF assms(1)]
  by (auto simp: at_char ws_keep_def lejp_switch_def lejp_string_def emit_string_char_def)

lemma value_char:
  assumes "parse_at ctx (ss @ [LEJP_MP_COMMA_OR_END]) LEJP_MP_STRING p b l" "length b + 2 < LEJP_STRING_CHUNK" "32 \<le> c" "c \<noteq> 0x22" "c \<noteq> 0x5c"
  shows "returns (lejp_char cb c ctx) (goes (\<lambda>ctx'. parse_at ctx' (ss @ [LEJP_MP_COMMA_OR_END]) LEJP_MP_STRING p (b @ [c]) l))"
proof -
  have "npos ctx < length (lbuf ctx)" "Suc (npos ctx) < 254" "0 < sp ctx" using assms(1,2) by (auto simp: parse_at_def arrays_ok_def)
  moreover have "parse_at (ctx\<lparr>lbuf := (lbuf ctx)[npos ctx := c], npos := Suc (npos ctx)\<rparr>) (ss @ [LEJP_MP_COMMA_OR_END]) LEJP_MP_STRING p (b @ [c]) l"
    using assms(1,2) by (auto simp: parse_at_def arrays_ok_def paths_ok_def take_Suc_conv_app_nth)
  ultimately show ?thesis
    using assms plain_char [OF assms(3)] at_below [OF assms(1)]
    by (auto simp: at_char ws_keep_def lejp_switch_def lejp_string_def emit_string_char_def buf_set_def)
qed

lemma name_chars:
  assumes "parse_at ctx (ss @ [LEJP_MP_DELIM]) LEJP_MP_STRING p b l" "length p + length nm < LEJP_MAX_PATH" "plain nm"
  shows "\<exists>ctx'. parse_at ctx' (ss @ [LEJP_MP_DELIM]) LEJP_MP_STRING (p @ nm) b l \<and> (\<forall>json. lejp_loop cb (nm @ json) ctx = lejp_loop cb json ctx')"
  using assms
proof (induction nm arbitrary: ctx p)
  case (Cons c nm)
  obtain ctx1 where 1: "parse_at ctx1 (ss @ [LEJP_MP_DELIM]) LEJP_MP_STRING (p @ [c]) b l" "\<And>json. lejp_loop cb (c # json) ctx = lejp_loop cb json ctx1"
    using loop_goes [OF name_char [OF Cons.prems(1), of c cb]] Cons.prems by (auto simp: plain_def)
  with Cons.IH [OF 1(1)] Cons.prems show ?case by (auto simp: plain_def)
qed auto

lemma value_chars:
  assumes "parse_at ctx (ss @ [LEJP_MP_COMMA_OR_END]) LEJP_MP_STRING p b l" "length b + length v < LEJP_STRING_CHUNK - 1" "plain v"
  shows "\<exists>ctx'. parse_at ctx' (ss @ [LEJP_MP_COMMA_OR_END]) LEJP_MP_STRING p (b @ v) l \<and> (\<forall>json. lejp_loop cb (v @ json) ctx = lejp_loop cb json ctx')"
  using assms
proof (induction v arbitrary: ctx b)
  case (Cons c v)
  obtain ctx1 where 1: "parse_at ctx1 (ss @ [LEJP_MP_COMMA_OR_END]) LEJP_MP_STRING p (b @ [c]) l" "\<And>json. lejp_loop cb (c # json) ctx = lejp_loop cb json ctx1"
    using loop_goes [OF value_char [OF Cons.prems(1), of c cb]] Cons.prems by (auto simp: plain_def)
  with Cons.IH [OF 1(1)] Cons.prems show ?case by (auto simp: plain_def)
qed auto

lemma close_name:
  assumes "parse_at ctx (ss @ [LEJP_MP_DELIM]) LEJP_MP_STRING p b l"
  shows "returns (lejp_char cb 0x22 ctx) (goes (\<lambda>ctx'. parse_at ctx' ss LEJP_MP_DELIM p b l))"
  using assms at_below [OF assms] at_pop [OF assms] at_top [OF assms] by (auto simp: at_char ws_keep_def lejp_switch_def lejp_string_def)

lemma colon:
  assumes "agrees cb" "parse_at ctx ss LEJP_MP_DELIM p b l"
  shows "returns (lejp_char cb (of_char CHR '':'') ctx) (goes (\<lambda>ctx'. parse_at ctx' ss LEJP_MP_VALUE p b (l @ [(LEJPCB_PAIR_NAME, p, b)])))"
  using assms by (simp add: at_char is_space_def lejp_switch_def agrees_ask) (blast intro: returns_mono [OF at_goto] returns_mono [OF at_end] returns_mono [OF at_match] at_call)

lemma at_clear: "parse_at ctx ss t p b l \<Longrightarrow> returns (buf_set 0 0 (ctx\<lparr>npos := 0\<rparr>)) (\<lambda>ctx'. parse_at ctx' ss t p [] l)"
  by (auto simp: buf_set_def parse_at_def arrays_ok_def paths_ok_def)

lemma open_string:
  assumes "agrees cb" "parse_at ctx ss LEJP_MP_VALUE p b l" "length ss + 1 < LEJP_MAX_DEPTH"
  shows "returns (lejp_char cb 0x22 ctx) (goes (\<lambda>ctx'. parse_at ctx' (ss @ [LEJP_MP_COMMA_OR_END]) LEJP_MP_STRING p [] (l @ [(LEJPCB_VAL_STR_START, p, [])])))"
proof -
  have "returns (lejp_value_str cb ctx) (goes (\<lambda>ctx'. parse_at ctx' (ss @ [LEJP_MP_COMMA_OR_END]) LEJP_MP_STRING p [] (l @ [(LEJPCB_VAL_STR_START, p, [])])))"
    unfolding lejp_value_str_def agrees_ask [OF assms(1)] returns_simps
  proof (rule returns_mono [OF at_goto [OF assms(2)]], erule returns_mono [OF at_clear], goal_cases)
    case (1 ctx1 ctx2)
    then show ?case using at_push [OF at_call [OF 1] assms(3), where s = LEJP_MP_STRING] by simp
  qed
  then show ?thesis using assms by (simp add: at_char is_space_def lejp_switch_def lejp_value_def)
qed

lemma close_string:
  assumes "agrees cb" "parse_at ctx (ss @ [LEJP_MP_COMMA_OR_END]) LEJP_MP_STRING p b l"
  shows "returns (lejp_char cb 0x22 ctx) (goes (\<lambda>ctx'. parse_at ctx' ss LEJP_MP_COMMA_OR_END p b (l @ [(LEJPCB_VAL_STR_END, p, b)])))"
proof -
  have "returns (buf_set (npos ctx) 0 ctx) (\<lambda>ctx'. parse_at (snd (lejp_call cb LEJPCB_VAL_STR_END ctx')\<lparr>sp := sp ctx' - 1\<rparr>) ss LEJP_MP_COMMA_OR_END p b
      (l @ [(LEJPCB_VAL_STR_END, p, b)]))"
    using at_pop [OF at_call] by (intro returns_mono [OF at_buf [OF assms(2)]]) fastforce
  moreover have "fst (lejp_call cb r ctx') = 0" for r ctx' using assms(1) by (simp add: agrees_def lejp_call_def)
  ultimately show ?thesis
    using assms at_below [OF assms(2)] at_top [OF assms(2)]
    by (auto simp: at_char ws_keep_def lejp_switch_def lejp_string_def case_prod_beta)
qed

lemma open_object:
  assumes "agrees cb" "parse_at ctx ss LEJP_MP_VALUE p b l" "length ss + 1 < LEJP_MAX_DEPTH"
  shows "returns (lejp_char cb (of_char CHR ''{'') ctx) (goes (\<lambda>ctx'. parse_at ctx' (ss @ [LEJP_MP_COMMA_OR_END]) LEJP_MEMBERS p b (l @ [(LEJPCB_OBJECT_START, p, b)])))"
proof -
  have "returns (lejp_value_object cb ctx) (goes (\<lambda>ctx'. parse_at ctx' (ss @ [LEJP_MP_COMMA_OR_END]) LEJP_MEMBERS p b (l @ [(LEJPCB_OBJECT_START, p, b)])))"
    unfolding lejp_value_object_def agrees_ask [OF assms(1)] returns_simps
  proof (rule returns_mono [OF at_goto [OF assms(2)]], erule returns_mono [OF at_match], goal_cases)
    case (1 ctx1 ctx2)
    then show ?case using at_push [OF at_path [OF at_call [OF 1]] assms(3), where s = LEJP_MEMBERS] by simp
  qed
  then show ?thesis using assms by (simp add: at_char is_space_def lejp_switch_def lejp_value_def)
qed

text \<open>The closing brace: the end of the parse at level 0, and an access in front of the stack at level 1.\<close>

lemma at_call2:
  "parse_at ctx ss t p b l \<Longrightarrow> parse_at (snd (lejp_call cb r' (snd (lejp_call cb r ctx)))) ss t p b (l @ [(r, p, b), (r', p, b)])"
  using at_call [OF at_call, where r = r' and cb = cb] by fastforce

lemma close_brace:
  assumes "agrees cb" "parse_at ctx [] LEJP_MP_COMMA_OR_END p b l"
  shows "\<exists>ctx'. llog ctx' = l @ [(LEJPCB_OBJECT_END, p, b), (LEJPCB_COMPLETE, p, b)] \<and>
    lejp_loop cb (of_char CHR ''}'' # json) ctx = Some (int (length json), ctx')"
proof -
  have "returns (lejp_comma_or_end cb 0x7d ctx) (\<lambda>out. \<exists>ctx'. out = Complete ctx' \<and> parse_at ctx' [] LEJP_MP_COMMA_OR_END p b
      ((l @ [(LEJPCB_OBJECT_END, p, b)]) @ [(LEJPCB_COMPLETE, p, b)]))"
    unfolding lejp_comma_or_end_def returns_simps
  proof (rule returns_mono [OF at_end [OF assms(2)]], goal_cases)
    case (1 ctx1)
    then show ?case
      using at_top [OF 1] by (simp add: lejp_object_close_def agrees_ask assms(1)) (rule returns_mono [OF at_match [OF 1]], rule at_call2)
  qed
  then obtain ctx' where "lejp_comma_or_end cb 0x7d ctx = Some (Complete ctx')"
      "parse_at ctx' [] LEJP_MP_COMMA_OR_END p b ((l @ [(LEJPCB_OBJECT_END, p, b)]) @ [(LEJPCB_COMPLETE, p, b)])"
    by (auto elim: returns_eq)
  then show ?thesis
    using at_char [OF assms(2)] by (intro exI [of _ ctx']) (simp add: is_space_def lejp_switch_def parse_at_def)
qed

lemma close_first_level:
  assumes "parse_at ctx [t] LEJP_MP_COMMA_OR_END p b l"
  shows "lejp_loop cb (of_char CHR ''}'' # json) ctx = None"
proof -
  have "returns (path_end ctx) (\<lambda>ctx'. sp ctx' = 1)"
    by (rule returns_mono [OF at_end [OF assms]]) (auto dest: at_top)
  then have "lejp_comma_or_end cb 0x7d ctx = None"
    by (auto simp: lejp_comma_or_end_def lejp_object_close_def below_def elim: returns_eq)
  then show ?thesis using at_char [OF assms] by (simp add: is_space_def lejp_switch_def)
qed

text \<open>An object with one name and a string, and one with an object in it.\<close>

definition pair_text :: "byte list \<Rightarrow> byte list \<Rightarrow> byte list" where
  "pair_text nm v = 0x22 # nm @ 0x22 # of_char CHR '':'' # 0x22 # v @ [0x22]"

lemma at_name:
  assumes "agrees cb" "parse_at ctx ss LEJP_MEMBERS p b l" "length ss + 1 < LEJP_MAX_DEPTH" "length p + length nm + 1 < LEJP_MAX_PATH" "plain nm"
  shows "\<exists>ctx'. parse_at ctx' ss LEJP_MP_VALUE ((if p = [] then [] else p @ [0x2e]) @ nm) b (l @ [(LEJPCB_PAIR_NAME, (if p = [] then [] else p @ [0x2e]) @ nm, b)]) \<and>
    (\<forall>json. lejp_loop cb (0x22 # nm @ 0x22 # of_char CHR '':'' # json) ctx = lejp_loop cb json ctx')"
proof -
  define q where "q = (if p = [] then [] else p @ [0x2e])"
  have q: "length q + length nm < LEJP_MAX_PATH" using assms(4) by (simp add: q_def)
  obtain c1 where 1: "parse_at c1 ss LEJP_M_P p b l" "\<And>json. lejp_loop cb (0x22 # json) ctx = lejp_loop cb (0x22 # json) c1"
    using members_redo [OF assms(2)] by blast
  obtain c2 where 2: "parse_at c2 (ss @ [LEJP_MP_DELIM]) LEJP_MP_STRING q b l" "\<And>json. lejp_loop cb (0x22 # json) c1 = lejp_loop cb json c2"
    using loop_goes [OF open_name [OF 1(1) assms(3)]] assms(4) unfolding q_def by auto
  obtain c3 where 3: "parse_at c3 (ss @ [LEJP_MP_DELIM]) LEJP_MP_STRING (q @ nm) b l" "\<And>json. lejp_loop cb (nm @ json) c2 = lejp_loop cb json c3"
    using name_chars [OF 2(1) q assms(5)] by blast
  obtain c4 where 4: "parse_at c4 ss LEJP_MP_DELIM (q @ nm) b l" "\<And>json. lejp_loop cb (0x22 # json) c3 = lejp_loop cb json c4"
    using loop_goes [OF close_name [OF 3(1)]] by blast
  obtain c5 where 5: "parse_at c5 ss LEJP_MP_VALUE (q @ nm) b (l @ [(LEJPCB_PAIR_NAME, q @ nm, b)])"
      "\<And>json. lejp_loop cb (of_char CHR '':'' # json) c4 = lejp_loop cb json c5"
    using loop_goes [OF colon [OF assms(1) 4(1)]] by blast
  show ?thesis
    by (rule exI [of _ c5]) (simp only: 1 2 3 4 5 q_def [symmetric] simp_thms)
qed

lemma at_pair:
  assumes "agrees cb" "parse_at ctx ss LEJP_MEMBERS p b l" "length ss + 1 < LEJP_MAX_DEPTH" "length p + length nm + 1 < LEJP_MAX_PATH"
    and "plain nm" "plain v" "length v < LEJP_STRING_CHUNK - 1"
  defines "q \<equiv> (if p = [] then [] else p @ [0x2e]) @ nm"
  shows "\<exists>ctx'. parse_at ctx' ss LEJP_MP_COMMA_OR_END q v
      (l @ [(LEJPCB_PAIR_NAME, q, b), (LEJPCB_VAL_STR_START, q, []), (LEJPCB_VAL_STR_END, q, v)]) \<and>
    (\<forall>json. lejp_loop cb (pair_text nm v @ json) ctx = lejp_loop cb json ctx')"
proof -
  obtain c1 where 1: "parse_at c1 ss LEJP_MP_VALUE q b (l @ [(LEJPCB_PAIR_NAME, q, b)])"
      "\<And>json. lejp_loop cb (0x22 # nm @ 0x22 # of_char CHR '':'' # json) ctx = lejp_loop cb json c1"
    using at_name [OF assms(1-5)] unfolding q_def by blast
  obtain c2 where 2: "parse_at c2 (ss @ [LEJP_MP_COMMA_OR_END]) LEJP_MP_STRING q [] ((l @ [(LEJPCB_PAIR_NAME, q, b)]) @ [(LEJPCB_VAL_STR_START, q, [])])"
      "\<And>json. lejp_loop cb (0x22 # json) c1 = lejp_loop cb json c2"
    using loop_goes [OF open_string [OF assms(1) 1(1) assms(3)]] by blast
  obtain c3 where 3: "parse_at c3 (ss @ [LEJP_MP_COMMA_OR_END]) LEJP_MP_STRING q ([] @ v) ((l @ [(LEJPCB_PAIR_NAME, q, b)]) @ [(LEJPCB_VAL_STR_START, q, [])])"
      "\<And>json. lejp_loop cb (v @ json) c2 = lejp_loop cb json c3"
    using value_chars [OF 2(1) _ assms(6)] assms(7) by auto
  obtain c4 where 4: "parse_at c4 ss LEJP_MP_COMMA_OR_END q ([] @ v) (((l @ [(LEJPCB_PAIR_NAME, q, b)]) @ [(LEJPCB_VAL_STR_START, q, [])]) @ [(LEJPCB_VAL_STR_END, q, [] @ v)])"
      "\<And>json. lejp_loop cb (0x22 # json) c3 = lejp_loop cb json c4"
    using loop_goes [OF close_string [OF assms(1) 3(1)]] by blast
  have "lejp_loop cb (pair_text nm v @ json) ctx = lejp_loop cb json c4" for json
    unfolding pair_text_def append_Cons append.assoc append_Nil by (simp only: 1 2 3 4)
  then show ?thesis using 4(1) by auto
qed

lemma construct_at:
  assumes "arrays_ok ctx0" "\<forall>q \<in> set paths. stars q \<le> LEJP_MAX_INDEX_DEPTH" "npos ctx0 = 0" "lejp_construct cb paths ctx0 = Some ctx"
  shows "parse_at ctx [] LEJP_IDLE [] [] (llog ctx)"
  using assms(1-3) by (simp add: construct_fields [OF assms(4)] parse_at_def arrays_ok_def paths_ok_def)

lemma parse_start:
  assumes "agrees cb" "parse_at ctx [] LEJP_IDLE [] [] l"
  shows "\<exists>ctx'. parse_at ctx' [] LEJP_MEMBERS [] [] (l @ [(LEJPCB_START, [], []), (LEJPCB_OBJECT_START, [], [])]) \<and>
    (\<forall>json. lejp_parse cb (of_char CHR ''{'' # json) ctx = lejp_loop cb json ctx')"
proof -
  have "sp ctx = 0" "ppos ctx = 0" using assms(2) by (auto simp: parse_at_def)
  then have "lejp_parse cb js ctx = lejp_loop cb js (snd (lejp_call cb LEJPCB_START ctx))" for js by (simp add: lejp_parse_def)
  then show ?thesis using loop_goes [OF open_brace [OF assms(1) at_call [OF assms(2)]]] by auto
qed

text \<open>C39: An object with one name and one string is reported as such: the calls, in order, with the name as the path and the bytes
  of the string, and the number of bytes behind the object as the result.\<close>

theorem lejp_reads_pair:
  assumes "agrees cb" "arrays_ok ctx0" "\<forall>q \<in> set paths. stars q \<le> LEJP_MAX_INDEX_DEPTH" "npos ctx0 = 0" "lejp_construct cb paths ctx0 = Some ctx"
    and "plain nm" "length nm < LEJP_MAX_PATH - 1" "plain v" "length v < LEJP_STRING_CHUNK - 1"
  shows "\<exists>ctx'. lejp_parse cb (of_char CHR ''{'' # pair_text nm v @ of_char CHR ''}'' # rest) ctx = Some (int (length rest), ctx') \<and>
    llog ctx' = llog ctx @ [(LEJPCB_START, [], []), (LEJPCB_OBJECT_START, [], []), (LEJPCB_PAIR_NAME, nm, []),
      (LEJPCB_VAL_STR_START, nm, []), (LEJPCB_VAL_STR_END, nm, v), (LEJPCB_OBJECT_END, nm, v), (LEJPCB_COMPLETE, nm, v)]"
proof -
  obtain c1 where 1: "parse_at c1 [] LEJP_MEMBERS [] [] (llog ctx @ [(LEJPCB_START, [], []), (LEJPCB_OBJECT_START, [], [])])"
      "\<And>json. lejp_parse cb (of_char CHR ''{'' # json) ctx = lejp_loop cb json c1"
    using parse_start [OF assms(1) construct_at [OF assms(2-5)]] by blast
  obtain c2 where 2: "parse_at c2 [] LEJP_MP_COMMA_OR_END nm v ((llog ctx @ [(LEJPCB_START, [], []), (LEJPCB_OBJECT_START, [], [])]) @
      [(LEJPCB_PAIR_NAME, nm, []), (LEJPCB_VAL_STR_START, nm, []), (LEJPCB_VAL_STR_END, nm, v)])"
      "\<And>json. lejp_loop cb (pair_text nm v @ json) c1 = lejp_loop cb json c2"
    using at_pair [OF assms(1) 1(1), of nm v] assms(6-9) by auto
  show ?thesis using close_brace [OF assms(1) 2(1), of rest] unfolding 1 2 by auto
qed

theorem lejp_reads_pair_witness:
  "\<exists>ctx. lejp_construct agree [bytes_of ''a*''] blank_ctx = Some ctx \<and>
     (\<exists>ctx'. lejp_parse agree (of_char CHR ''{'' # pair_text (bytes_of ''ab'') (bytes_of ''xyz'') @ of_char CHR ''}'' # [10]) ctx = Some (int (length [10 :: byte]), ctx') \<and>
        llog ctx' = llog ctx @ [(LEJPCB_START, [], []), (LEJPCB_OBJECT_START, [], []), (LEJPCB_PAIR_NAME, bytes_of ''ab'', []),
          (LEJPCB_VAL_STR_START, bytes_of ''ab'', []), (LEJPCB_VAL_STR_END, bytes_of ''ab'', bytes_of ''xyz''),
          (LEJPCB_OBJECT_END, bytes_of ''ab'', bytes_of ''xyz''), (LEJPCB_COMPLETE, bytes_of ''ab'', bytes_of ''xyz'')])"
proof -
  obtain ctx where ctx: "lejp_construct agree [bytes_of ''a*''] blank_ctx = Some ctx" using blank_construct by blast
  show ?thesis
    by (rule exI [of _ ctx], rule conjI [OF ctx], rule lejp_reads_pair [OF agree_agrees blank_arrays _ _ ctx])
      (simp_all add: bytes_of_def stars_def plain_def blank_ctx_def)
qed

text \<open>C40: An object inside of the outermost object cannot be parsed: closing it leaves the stack at level 0, and the parser reads
  \<^verbatim>\<open>st[sp - 1]\<close>, in front of the array.\<close>

theorem lejp_nested_object_faults:
  assumes "agrees cb" "arrays_ok ctx0" "\<forall>q \<in> set paths. stars q \<le> LEJP_MAX_INDEX_DEPTH" "npos ctx0 = 0" "lejp_construct cb paths ctx0 = Some ctx"
    and "plain nm" "plain nm'" "length nm + length nm' < LEJP_MAX_PATH - 1" "plain v" "length v < LEJP_STRING_CHUNK - 1"
  shows "lejp_parse cb (of_char CHR ''{'' # 0x22 # nm @ 0x22 # of_char CHR '':'' # of_char CHR ''{'' # pair_text nm' v @ of_char CHR ''}'' # rest) ctx = None"
proof -
  obtain c1 where 1: "parse_at c1 [] LEJP_MEMBERS [] [] (llog ctx @ [(LEJPCB_START, [], []), (LEJPCB_OBJECT_START, [], [])])"
      "\<And>json. lejp_parse cb (of_char CHR ''{'' # json) ctx = lejp_loop cb json c1"
    using parse_start [OF assms(1) construct_at [OF assms(2-5)]] by blast
  obtain c2 l2 where 2: "parse_at c2 [] LEJP_MP_VALUE nm [] l2"
      "\<And>json. lejp_loop cb (0x22 # nm @ 0x22 # of_char CHR '':'' # json) c1 = lejp_loop cb json c2"
    using at_name [OF assms(1) 1(1), of nm] assms(6,8) by auto
  obtain c3 l3 where 3: "parse_at c3 ([] @ [LEJP_MP_COMMA_OR_END]) LEJP_MEMBERS nm [] l3"
      "\<And>json. lejp_loop cb (of_char CHR ''{'' # json) c2 = lejp_loop cb json c3"
    using loop_goes [OF open_object [OF assms(1) 2(1)]] by auto
  obtain c4 p l4 where 4: "parse_at c4 ([] @ [LEJP_MP_COMMA_OR_END]) LEJP_MP_COMMA_OR_END p v l4"
      "\<And>json. lejp_loop cb (pair_text nm' v @ json) c3 = lejp_loop cb json c4"
    using at_pair [OF assms(1) 3(1), of nm' v] assms(7-10) by auto
  show ?thesis
    using close_first_level [OF 4(1) [unfolded append_Nil], of cb rest] unfolding 1 2 3 4 .
qed

theorem lejp_nested_object_faults_witness:
  "\<exists>ctx. lejp_construct agree [] blank_ctx = Some ctx \<and>
     lejp_parse agree (of_char CHR ''{'' # 0x22 # bytes_of ''a'' @ 0x22 # of_char CHR '':'' # of_char CHR ''{'' # pair_text (bytes_of ''b'') (bytes_of ''c'') @
       of_char CHR ''}'' # bytes_of ''}'') ctx = None"
proof -
  obtain ctx where ctx: "lejp_construct agree [] blank_ctx = Some ctx" using blank_construct by blast
  show ?thesis
    by (rule exI [of _ ctx], rule conjI [OF ctx], rule lejp_nested_object_faults [OF agree_agrees blank_arrays _ _ ctx])
      (simp_all add: bytes_of_def plain_def blank_ctx_def)
qed

end
