(* ===== verification/Ws_Conn.thy ===== *)
theory Ws_Conn
  imports Lws_Prelude
begin

text \<open>
  The WebSocket connection \<^verbatim>\<open>struct lws\<close> (with its \<^verbatim>\<open>u.ws\<close> member) and the operations on it
  that both directions share: poll event changes of \<^verbatim>\<open>pollfd.c\<close>, the timeout, receive flow
  control and close reason functions of \<^verbatim>\<open>libwebsockets.c\<close> and the extension dispatch of
  \<^verbatim>\<open>extension.c\<close>. What lies outside of the library (the application's protocol callback, the
  vhost's first protocol, the extensions, the socket, the clock, the random source and the
  allocator) is a field of \<open>env\<close>; each is given the connection, which carries a log of
  what happened so far, so that its answers may depend on the whole history.
\<close>

subsection \<open>Enumerations\<close>

datatype rx_parse_state =
    RXPS_NEW
  | RXPS_04_mask_1 | RXPS_04_mask_2 | RXPS_04_mask_3
  | RXPS_04_FRAME_HDR_1 | RXPS_04_FRAME_HDR_LEN
  | RXPS_04_FRAME_HDR_LEN16_2 | RXPS_04_FRAME_HDR_LEN16_1
  | RXPS_04_FRAME_HDR_LEN64_8 | RXPS_04_FRAME_HDR_LEN64_7 | RXPS_04_FRAME_HDR_LEN64_6
  | RXPS_04_FRAME_HDR_LEN64_5 | RXPS_04_FRAME_HDR_LEN64_4 | RXPS_04_FRAME_HDR_LEN64_3
  | RXPS_04_FRAME_HDR_LEN64_2 | RXPS_04_FRAME_HDR_LEN64_1
  | RXPS_07_COLLECT_FRAME_KEY_1 | RXPS_07_COLLECT_FRAME_KEY_2
  | RXPS_07_COLLECT_FRAME_KEY_3 | RXPS_07_COLLECT_FRAME_KEY_4
  | RXPS_PAYLOAD_UNTIL_LENGTH_EXHAUSTED

datatype conn_state =
    LWSS_HTTP | LWSS_HTTP_ISSUING_FILE | LWSS_HTTP_HEADERS | LWSS_HTTP_BODY
  | LWSS_DEAD_SOCKET | LWSS_ESTABLISHED | LWSS_CLIENT_HTTP_ESTABLISHED | LWSS_CLIENT_UNCONNECTED
  | LWSS_RETURNED_CLOSE_ALREADY | LWSS_AWAITING_CLOSE_ACK
  | LWSS_FLUSHING_STORED_SEND_BEFORE_CLOSE | LWSS_SHUTDOWN

datatype conn_mode =
    LWSCM_HTTP_SERVING | LWSCM_HTTP_SERVING_ACCEPTED
  | LWSCM_WS_SERVING | LWSCM_WS_CLIENT
  | LWSCM_WSCL_WAITING_CONNECT | LWSCM_WSCL_ISSUE_HANDSHAKE | LWSCM_WSCL_ISSUE_HTTP_BODY
  | LWSCM_WSCL_WAITING_SERVER_REPLY

datatype pending_timeout =
    NO_PENDING_TIMEOUT | PENDING_TIMEOUT_CLOSE_ACK | PENDING_FLUSH_STORED_SEND_BEFORE_CLOSE
  | PENDING_TIMEOUT_SHUTDOWN_FLUSH | PENDING_TIMEOUT_WS_PONG_CHECK_SEND_PING
  | PENDING_TIMEOUT_WS_PONG_CHECK_GET_PONG | PENDING_TIMEOUT_OTHER nat

datatype cb_reason =
    CB_RECEIVE | CB_RECEIVE_PONG | CB_CLIENT_RECEIVE | CB_CLIENT_RECEIVE_PONG
  | CB_WS_PEER_INITIATED_CLOSE | CB_SERVER_WRITEABLE | CB_CLIENT_WRITEABLE
  | CB_CLIENT_HTTP_WRITEABLE | CB_HTTP_WRITEABLE
  | CB_CLOSED | CB_CLOSED_HTTP | CB_CLOSED_CLIENT_HTTP | CB_HTTP_DROP_PROTOCOL | CB_WSI_DESTROY
  | CB_CLIENT_CONNECTION_ERROR
  | CB_LOCK_POLL | CB_DEL_POLL_FD | CB_CHANGE_MODE_POLL_FD | CB_UNLOCK_POLL | CB_GET_THREAD_ID
  | CB_ESTABLISHED | CB_FILTER_PROTOCOL_CONNECTION | CB_HTTP_PMO

datatype ext_reason =
    EXT_CB_PACKET_TX_PRESEND | EXT_CB_PACKET_TX_DO_SEND | EXT_CB_EXTENDED_PAYLOAD_RX
  | EXT_CB_REQUEST_ON_WRITEABLE | EXT_CB_IS_WRITEABLE | EXT_CB_PAYLOAD_TX | EXT_CB_PAYLOAD_RX
  | EXT_CB_CHECK_OK_TO_REALLY_CLOSE | EXT_CB_FLUSH_PENDING_TX | EXT_CB_DESTROY | EXT_CB_1HZ

text \<open>
  \<^verbatim>\<open>struct lws_tokens\<close>: the bytes at \<^verbatim>\<open>token\<close> (\<open>None\<close> for \<^verbatim>\<open>NULL\<close>), the length, and whether
  \<^verbatim>\<open>token\<close> is no longer the pointer the caller put there (which the code compares).
\<close>

record tokens =
  token :: "byte list option"
  token_len :: int
  moved :: bool

datatype send_result = Sent nat | Send_again | Send_error

text \<open>Requests the application may make on the connection from inside its callback.\<close>

datatype api =
    Api_rx_flow_control bool
  | Api_close_reason u16 "byte list option"
  | Api_set_timeout pending_timeout int
  | Api_callback_on_writable
  | Api_write "byte list" byte

text \<open>What the model records of the calls that leave it, and memory faults of the code.\<close>

datatype event =
    Ev_callback cb_reason "byte list"
  | Ev_poll cb_reason
  | Ev_ext ext_reason
  | Ev_cancel_service
  | Ev_shutdown
  | Ev_free

fun is_callback :: "event \<Rightarrow> bool" where
  "is_callback (Ev_callback reason data) = True"
| "is_callback ev = False"

datatype fault = Out_of_bounds | Null_deref | Ext_loops

subsection \<open>The connection\<close>

record ws =
  wsi_id :: nat
  wsi_mode :: conn_mode
  wsi_state :: conn_state
  state_pre_close :: conn_state
  lws_rx_parse_state :: rx_parse_state
  ietf_spec_revision :: nat
  socket_is_permanently_unusable :: bool
  hdr_parsing_completed :: bool
  sock_valid :: bool
  http_fd_open :: bool
  told_user_closed :: bool
  already_did_cce :: bool
  \<comment> \<open>\<^verbatim>\<open>u.ws\<close>, receiving\<close>
  opcode :: byte
  rsv :: byte
  rsv_first_msg :: byte
  final :: bool
  frame_is_binary :: bool
  all_zero_nonce :: bool
  this_frame_masked :: bool
  frame_mask :: "byte list"
  mask_idx :: byte
  rx_packet_length :: u64
  rx_ubuf :: "byte list"
  rx_ubuf_alloc :: nat
  rx_ubuf_head :: nat
  rx_draining_ext :: bool
  continuation_possible :: bool
  owed_a_fin :: bool
  check_utf8 :: bool
  defeat_check_utf8 :: bool
  utf8 :: byte
  \<comment> \<open>\<^verbatim>\<open>u.ws\<close>, control frames\<close>
  ping_payload_buf :: "byte list"
  ping_payload_len :: nat
  ping_pending_flag :: bool
  payload_is_close :: bool
  close_in_ping_buffer_len :: nat
  send_check_ping :: bool
  time_next_ping_check :: int
  \<comment> \<open>\<^verbatim>\<open>u.ws\<close>, sending\<close>
  inside_frame :: bool
  clean_buffer :: bool
  stashed_write_pending :: bool
  stashed_write_type :: byte
  tx_draining_ext :: bool
  tx_draining_stashed_wp :: byte
  extension_data_pending :: bool
  \<comment> \<open>truncated send\<close>
  trunc_alloc :: "byte list"
  trunc_alloc_len :: nat
  trunc_offset :: nat
  trunc_len :: nat
  \<comment> \<open>receive flow control\<close>
  rxflow_allow :: bool
  rxflow_pending_change :: bool
  rxflow_buffer :: "byte list option"
  rxflow_pos :: int
  \<comment> \<open>timeout and poll table entry\<close>
  pending_timeout :: pending_timeout
  pending_timeout_limit :: int
  in_fds_table :: bool
  poll_in :: bool
  poll_out :: bool
  \<comment> \<open>lists of the service thread this connection can be on, by \<open>wsi_id\<close>\<close>
  timeout_list :: "nat list"
  rx_draining_ext_list :: "nat list"
  tx_draining_ext_list :: "nat list"
  \<comment> \<open>what left the model\<close>
  wire :: "byte list"
  ws_log :: "event list"
  ws_fault :: "fault option"

record env =
  user_cb :: "ws \<Rightarrow> cb_reason \<Rightarrow> byte list \<Rightarrow> int \<times> api list"
  has_callback :: bool
  has_user_space :: bool
  vhost_cb :: "ws \<Rightarrow> cb_reason \<Rightarrow> int"
  exts :: "(ws \<Rightarrow> ext_reason \<Rightarrow> tokens \<Rightarrow> int \<times> tokens) list"
  ext_rounds :: nat
  sock_send :: "ws \<Rightarrow> byte list \<Rightarrow> send_result"
  sock_writeable :: "ws \<Rightarrow> bool"
  random_bytes :: "ws \<Rightarrow> byte list"
  malloc_ok :: "ws \<Rightarrow> nat \<Rightarrow> bool"
  now_secs :: "ws \<Rightarrow> int"
  service_tid :: int
  rx_buffer_size :: nat
  pt_serv_buf_size :: nat
  ws_ping_pong_interval :: nat
  timeout_secs :: int
  validate_utf8 :: bool

definition LWS_PRE :: nat where
  "LWS_PRE = 16"

definition log_event :: "event \<Rightarrow> ws \<Rightarrow> ws" where
  "log_event ev wsi = wsi\<lparr>ws_log := ws_log wsi @ [ev]\<rparr>"

definition set_fault :: "fault \<Rightarrow> ws \<Rightarrow> ws" where
  "set_fault f wsi = wsi\<lparr>ws_fault := (if ws_fault wsi = None then Some f else ws_fault wsi)\<rparr>"

subsection \<open>A new connection\<close>

text \<open>
  \<^verbatim>\<open>lws_create_new_server_wsi\<close>: the zeroed structure and the fields it sets; the thread's
  lists come with the thread.
\<close>

definition lws_create_new_server_wsi :: "nat \<Rightarrow> nat list \<Rightarrow> nat list \<Rightarrow> nat list \<Rightarrow> ws" where
  "lws_create_new_server_wsi ident timeouts rx_list tx_list = \<lparr>
     wsi_id = ident, wsi_mode = LWSCM_HTTP_SERVING, wsi_state = LWSS_HTTP,
     state_pre_close = LWSS_HTTP, lws_rx_parse_state = RXPS_NEW, ietf_spec_revision = 0,
     socket_is_permanently_unusable = False, hdr_parsing_completed = False,
     sock_valid = False, http_fd_open = False, told_user_closed = False, already_did_cce = False,
     opcode = 0, rsv = 0, rsv_first_msg = 0, final = False, frame_is_binary = False,
     all_zero_nonce = False, this_frame_masked = False, frame_mask = [0, 0, 0, 0], mask_idx = 0,
     rx_packet_length = 0, rx_ubuf = [], rx_ubuf_alloc = 0, rx_ubuf_head = 0,
     rx_draining_ext = False, continuation_possible = False, owed_a_fin = False,
     check_utf8 = False, defeat_check_utf8 = False, utf8 = 0,
     ping_payload_buf = replicate 125 0, ping_payload_len = 0, ping_pending_flag = False,
     payload_is_close = False, close_in_ping_buffer_len = 0, send_check_ping = False,
     time_next_ping_check = 0, inside_frame = False, clean_buffer = False,
     stashed_write_pending = False, stashed_write_type = 0, tx_draining_ext = False,
     tx_draining_stashed_wp = 0, extension_data_pending = False,
     trunc_alloc = [], trunc_alloc_len = 0, trunc_offset = 0, trunc_len = 0,
     rxflow_allow = True, rxflow_pending_change = False, rxflow_buffer = None, rxflow_pos = 0,
     pending_timeout = NO_PENDING_TIMEOUT, pending_timeout_limit = 0, in_fds_table = False,
     poll_in = False, poll_out = False, timeout_list = timeouts, rx_draining_ext_list = rx_list,
     tx_draining_ext_list = tx_list, wire = [], ws_log = [], ws_fault = None\<rparr>"

text \<open>\<^verbatim>\<open>lws_union_transition\<close> to a WebSocket mode zeroes \<^verbatim>\<open>u.ws\<close>.\<close>

definition lws_union_transition :: "conn_mode \<Rightarrow> ws \<Rightarrow> ws" where
  "lws_union_transition m wsi = wsi\<lparr>
     wsi_mode := m,
     opcode := 0, rsv := 0, rsv_first_msg := 0, final := False, frame_is_binary := False,
     all_zero_nonce := False, this_frame_masked := False, frame_mask := [0, 0, 0, 0], mask_idx := 0,
     rx_packet_length := 0, rx_ubuf := [], rx_ubuf_alloc := 0, rx_ubuf_head := 0,
     rx_draining_ext := False, continuation_possible := False, owed_a_fin := False,
     check_utf8 := False, defeat_check_utf8 := False, utf8 := 0,
     ping_payload_buf := replicate 125 0, ping_payload_len := 0, ping_pending_flag := False,
     payload_is_close := False, close_in_ping_buffer_len := 0, send_check_ping := False,
     time_next_ping_check := 0, inside_frame := False, clean_buffer := False,
     stashed_write_pending := False, stashed_write_type := 0, tx_draining_ext := False,
     tx_draining_stashed_wp := 0\<rparr>"

subsection \<open>Extensions\<close>

text \<open>
  \<^verbatim>\<open>lws_ext_cb_active\<close>: every active extension in turn; the first failure ends the loop, and
  otherwise the largest positive answer is returned.
\<close>

fun ext_cb_loop ::
  "(ws \<Rightarrow> ext_reason \<Rightarrow> tokens \<Rightarrow> int \<times> tokens) list \<Rightarrow> ext_reason \<Rightarrow> int \<Rightarrow> tokens \<Rightarrow> ws \<Rightarrow>
   int \<times> tokens \<times> ws" where
  "ext_cb_loop [] reason handled arg wsi = (handled, arg, wsi)"
| "ext_cb_loop (x # xs) reason handled arg wsi =
     (case x wsi reason arg of (m, arg) \<Rightarrow>
        let wsi = log_event (Ev_ext reason) wsi in
        if m < 0 then (-1, arg, wsi)
        else ext_cb_loop xs reason (if handled < m then m else handled) arg wsi)"

definition lws_ext_cb_active :: "env \<Rightarrow> ext_reason \<Rightarrow> tokens \<Rightarrow> ws \<Rightarrow> int \<times> tokens \<times> ws" where
  "lws_ext_cb_active env reason arg wsi = ext_cb_loop (exts env) reason 0 arg wsi"

definition no_tokens :: tokens where
  "no_tokens = \<lparr>token = None, token_len = 0, moved = False\<rparr>"

subsection \<open>Poll events\<close>

text \<open>
  \<^verbatim>\<open>_lws_change_pollfd\<close> of a connection with a socket of its own: \<open>(in, out)\<close> bits to clear
  and to set. The vhost may refuse; a changed mask wakes a service thread other than the caller's.
\<close>

definition lws_change_pollfd_inner :: "env \<Rightarrow> bool \<times> bool \<Rightarrow> bool \<times> bool \<Rightarrow> ws \<Rightarrow> int \<times> ws" where
  "lws_change_pollfd_inner env clr st wsi =
     (if \<not> in_fds_table wsi then (0, wsi)
      else
        let prev = (poll_in wsi, poll_out wsi);
            wsi = wsi\<lparr>poll_in := (poll_in wsi \<and> \<not> fst clr) \<or> fst st,
                      poll_out := (poll_out wsi \<and> \<not> snd clr) \<or> snd st\<rparr>;
            wsi' = log_event (Ev_poll CB_CHANGE_MODE_POLL_FD) wsi
        in if vhost_cb env wsi CB_CHANGE_MODE_POLL_FD \<noteq> 0 then (-1, wsi')
           else if prev \<noteq> (poll_in wsi, poll_out wsi) \<and> service_tid env \<noteq> 0 then
             let tid = vhost_cb env wsi' CB_GET_THREAD_ID;
                 wsi'' = log_event (Ev_poll CB_GET_THREAD_ID) wsi'
             in if tid = -1 then (-1, wsi'')
                else if tid \<noteq> service_tid env then (0, log_event Ev_cancel_service wsi'')
                else (0, wsi'')
           else (0, wsi'))"

definition lws_change_pollfd :: "env \<Rightarrow> bool \<times> bool \<Rightarrow> bool \<times> bool \<Rightarrow> ws \<Rightarrow> int \<times> ws" where
  "lws_change_pollfd env clr st wsi =
     (if \<not> in_fds_table wsi then (1, wsi)
      else
        let wsi' = log_event (Ev_poll CB_LOCK_POLL) wsi in
        if vhost_cb env wsi CB_LOCK_POLL \<noteq> 0 then (-1, wsi')
        else case lws_change_pollfd_inner env clr st wsi' of (ret, wsi') \<Rightarrow>
          let wsi'' = log_event (Ev_poll CB_UNLOCK_POLL) wsi' in
          if vhost_cb env wsi' CB_UNLOCK_POLL \<noteq> 0 then (-1, wsi'') else (ret, wsi''))"

text \<open>\<^verbatim>\<open>lws_callback_on_writable\<close> of a connection that is not an HTTP/2 stream.\<close>

definition lws_callback_on_writable :: "env \<Rightarrow> ws \<Rightarrow> int \<times> ws" where
  "lws_callback_on_writable env wsi =
     (if wsi_state wsi = LWSS_SHUTDOWN then (0, wsi)
      else if socket_is_permanently_unusable wsi then (0, wsi)
      else case lws_ext_cb_active env EXT_CB_REQUEST_ON_WRITEABLE no_tokens wsi of (m, _, wsi) \<Rightarrow>
        if m \<noteq> 0 then (1, wsi)
        else if \<not> in_fds_table wsi then (-1, wsi)
        else case lws_change_pollfd env (False, False) (False, True) wsi of (r, wsi) \<Rightarrow>
          if r \<noteq> 0 then (-1, wsi) else (1, wsi))"

definition lws_send_pipe_choked :: "env \<Rightarrow> ws \<Rightarrow> bool" where
  "lws_send_pipe_choked env wsi \<longleftrightarrow> trunc_len wsi \<noteq> 0 \<or> \<not> sock_writeable env wsi"

definition lws_partial_buffered :: "ws \<Rightarrow> bool" where
  "lws_partial_buffered wsi \<longleftrightarrow> trunc_len wsi \<noteq> 0"

subsection \<open>Timeouts\<close>

text \<open>The thread's list is intrusive; a connection is on it at most once.\<close>

definition lws_remove_from_timeout_list :: "ws \<Rightarrow> ws" where
  "lws_remove_from_timeout_list wsi =
     (if wsi_id wsi \<notin> set (timeout_list wsi) then wsi
      else wsi\<lparr>timeout_list := remove1 (wsi_id wsi) (timeout_list wsi)\<rparr>)"

definition lws_set_timeout :: "env \<Rightarrow> pending_timeout \<Rightarrow> int \<Rightarrow> ws \<Rightarrow> ws" where
  "lws_set_timeout env reason secs wsi =
     (let wsi' = (if reason \<noteq> NO_PENDING_TIMEOUT \<and> wsi_id wsi \<notin> set (timeout_list wsi)
                  then wsi\<lparr>timeout_list := wsi_id wsi # timeout_list wsi\<rparr> else wsi);
          wsi'' = wsi'\<lparr>pending_timeout_limit := now_secs env wsi + secs, pending_timeout := reason\<rparr>
      in if reason = NO_PENDING_TIMEOUT then lws_remove_from_timeout_list wsi'' else wsi'')"

definition lws_restart_ws_ping_pong_timer :: "env \<Rightarrow> ws \<Rightarrow> ws" where
  "lws_restart_ws_ping_pong_timer env wsi =
     (if ws_ping_pong_interval env = 0 then wsi
      else if wsi_state wsi \<noteq> LWSS_ESTABLISHED then wsi
      else wsi\<lparr>time_next_ping_check := now_secs env wsi + int (ws_ping_pong_interval env)\<rparr>)"

subsection \<open>Receive flow control\<close>

definition lws_rx_flow_control :: "bool \<Rightarrow> ws \<Rightarrow> ws" where
  "lws_rx_flow_control enable wsi =
     (if enable = rxflow_allow wsi then wsi
      else wsi\<lparr>rxflow_pending_change := True, rxflow_allow := enable\<rparr>)"

text \<open>\<^verbatim>\<open>_lws_rx_flow_control\<close>, which puts a pending change into effect.\<close>

definition lws_rx_flow_control_apply :: "env \<Rightarrow> ws \<Rightarrow> int \<times> ws" where
  "lws_rx_flow_control_apply env wsi =
     (if \<not> rxflow_pending_change wsi then (0, wsi)
      else if rxflow_buffer wsi \<noteq> None then (0, snd (lws_callback_on_writable env wsi))
      else
        let wsi = wsi\<lparr>rxflow_pending_change := False\<rparr> in
        case (if rxflow_allow wsi then lws_change_pollfd env (False, False) (True, False) wsi
              else lws_change_pollfd env (True, False) (False, False) wsi) of (r, wsi) \<Rightarrow>
          if r \<noteq> 0 then (-1, wsi) else (0, wsi))"

definition lws_rxflow_cache :: "env \<Rightarrow> byte list \<Rightarrow> ws \<Rightarrow> int \<times> ws" where
  "lws_rxflow_cache env buf wsi =
     (if rxflow_buffer wsi \<noteq> None then (1, wsi)
      else if \<not> malloc_ok env wsi (length buf) then (-1, wsi)
      else (0, wsi\<lparr>rxflow_buffer := Some buf, rxflow_pos := 0\<rparr>))"

subsection \<open>Close reason\<close>

text \<open>
  \<^verbatim>\<open>lws_close_reason\<close>: the status and as much of the text as fits, written over the pong
  payload. \<open>budget\<close> is the size of the buffer behind \<^verbatim>\<open>LWS_PRE\<close>.
\<close>

definition lws_close_reason :: "u16 \<Rightarrow> byte list option \<Rightarrow> ws \<Rightarrow> ws" where
  "lws_close_reason status buf wsi =
     (let budget = length (ping_payload_buf wsi);
          body = [ucast (drop_bit 8 status), ucast status] @
                 (case buf of None \<Rightarrow> [] | Some bs \<Rightarrow> take (budget - 2) bs)
      in if budget < 2 then set_fault Out_of_bounds wsi
         else wsi\<lparr>ping_payload_buf := body @ drop (length body) (ping_payload_buf wsi),
                  close_in_ping_buffer_len := length body\<rparr>)"

end
