(* ===== verification/Ws_Tx.thy ===== *)
theory Ws_Tx
  imports Ws_Conn
begin

text \<open>
  The sending side, \<^verbatim>\<open>output.c\<close>: \<^verbatim>\<open>lws_write\<close> puts a WebSocket header (and on a client a mask)
  in front of the payload, \<^verbatim>\<open>lws_issue_raw_ext_access\<close> shows it to the extensions and
  \<^verbatim>\<open>lws_issue_raw\<close> gives it to the socket and keeps what the socket did not take in the
  truncated-send buffer. The header bytes that the code writes into the \<^verbatim>\<open>LWS_PRE\<close> bytes before
  the caller's buffer are a list in front of the payload here.
\<close>

subsection \<open>The socket and the truncated-send buffer\<close>

text \<open>What the truncated-send buffer still holds.\<close>

definition trunc_pending :: "ws \<Rightarrow> byte list" where
  "trunc_pending wsi = take (trunc_len wsi) (drop (trunc_offset wsi) (trunc_alloc wsi))"

text \<open>
  \<^verbatim>\<open>lws_ssl_capable_write_no_ssl\<close>. The result is the \<^verbatim>\<open>n\<close> of the caller, \<open>None\<close> for
  \<^verbatim>\<open>LWS_SSL_CAPABLE_ERROR\<close>; bytes the socket took are on the wire.
\<close>

definition lws_ssl_capable_write :: "env \<Rightarrow> byte list \<Rightarrow> ws \<Rightarrow> nat option \<times> ws" where
  "lws_ssl_capable_write env buf wsi =
     (case sock_send env wsi buf of
        Sent n \<Rightarrow> (Some n, wsi\<lparr>wire := wire wsi @ take n buf\<rparr>)
      | Send_again \<Rightarrow> (Some 0, wsi)
      | Send_error \<Rightarrow> (None, wsi))"

text \<open>The label \<^verbatim>\<open>handle_truncated_send\<close>: \<open>n\<close> bytes of \<open>buf\<close> are gone. An unallocated
  \<^verbatim>\<open>trunc_alloc\<close> is the empty list.\<close>

definition handle_truncated_send :: "env \<Rightarrow> nat \<Rightarrow> byte list \<Rightarrow> nat \<Rightarrow> ws \<Rightarrow> int \<times> ws" where
  "handle_truncated_send env n buf real_len wsi =
     (if trunc_len wsi \<noteq> 0 then
        let wsi = wsi\<lparr>trunc_offset := trunc_offset wsi + n, trunc_len := trunc_len wsi - n\<rparr> in
        if trunc_len wsi = 0 \<and> wsi_state wsi = LWSS_FLUSHING_STORED_SEND_BEFORE_CLOSE then (-1, wsi)
        else
          let n = (if trunc_len wsi = 0 then real_len else n)
          in (int n, snd (lws_callback_on_writable env wsi))
      else if n = real_len then (int n, wsi)
      else
        let rest = take (real_len - n) (drop n buf);
            fits = (trunc_alloc wsi \<noteq> [] \<and> real_len - n \<le> trunc_alloc_len wsi)
        in if \<not> fits \<and> \<not> malloc_ok env wsi (real_len - n) then
             (-1, wsi\<lparr>trunc_alloc := [], trunc_alloc_len := real_len - n\<rparr>)
           else
             let wsi = (if fits then wsi
                        else wsi\<lparr>trunc_alloc := replicate (real_len - n) 0,
                                 trunc_alloc_len := real_len - n\<rparr>);
                 wsi = wsi\<lparr>trunc_offset := 0, trunc_len := real_len - n,
                           trunc_alloc := rest @ drop (real_len - n) (trunc_alloc wsi)\<rparr>
             in (int real_len, snd (lws_callback_on_writable env wsi)))"

text \<open>
  \<^verbatim>\<open>lws_issue_raw\<close>. \<open>from_trunc\<close> says whether \<^verbatim>\<open>buf\<close> points into the truncated-send buffer,
  which the code finds out by comparing pointers; anything else must wait until it is empty.
\<close>

definition lws_issue_raw :: "env \<Rightarrow> bool \<Rightarrow> byte list \<Rightarrow> ws \<Rightarrow> int \<times> ws" where
  "lws_issue_raw env from_trunc buf wsi =
     (let len = length buf in
      if len = 0 then (0, wsi)
      else if wsi_state wsi = LWSS_FLUSHING_STORED_SEND_BEFORE_CLOSE \<and> trunc_len wsi = 0 then
        (int len, wsi)
      else if trunc_len wsi \<noteq> 0 \<and> \<not> from_trunc then (-1, wsi)
      else
        case lws_ext_cb_active env EXT_CB_PACKET_TX_DO_SEND
               \<lparr>token = Some buf, token_len = int len, moved = False\<rparr> wsi of
          (m, arg, wsi) \<Rightarrow>
            if m < 0 then (-1, wsi)
            else
              let buf' = (case token arg of None \<Rightarrow> [] | Some bs \<Rightarrow> bs) in
              if m \<noteq> 0 then handle_truncated_send env (nat m) buf' len wsi
              else
                let n = (if rx_buffer_size env = 0 then pt_serv_buf_size env else rx_buffer_size env);
                    n = n + LWS_PRE + 4;
                    n = (if len < n then len else n)
                in case lws_ssl_capable_write env (take n buf') wsi of
                     (None, wsi) \<Rightarrow> (-1, wsi\<lparr>socket_is_permanently_unusable := True\<rparr>)
                   | (Some n, wsi) \<Rightarrow> handle_truncated_send env n buf' len wsi)"

text \<open>
  \<^verbatim>\<open>lws_issue_raw_ext_access\<close>: one round sends what the extensions left; they may ask for more
  rounds. \<open>k\<close> bounds the rounds, for extensions that never stop asking: running out of it
  is recorded as the fault \<open>Ext_loops\<close>.
\<close>

fun issue_raw_ext_loop :: "nat \<Rightarrow> env \<Rightarrow> tokens \<Rightarrow> int \<Rightarrow> ws \<Rightarrow> int \<times> ws" where
  "issue_raw_ext_loop 0 env eff_buf len wsi = (len, set_fault Ext_loops wsi)"
| "issue_raw_ext_loop (Suc k) env eff_buf len wsi =
     (case lws_ext_cb_active env EXT_CB_PACKET_TX_PRESEND eff_buf wsi of (m, eff_buf, wsi) \<Rightarrow>
        if m < 0 then (-1, wsi)
        else
          let wsi = (if moved eff_buf then wsi\<lparr>clean_buffer := False\<rparr> else wsi);
              (n, wsi) =
                (if token_len eff_buf \<noteq> 0 then
                   lws_issue_raw env False
                     (take (nat (token_len eff_buf)) (case token eff_buf of None \<Rightarrow> [] | Some bs \<Rightarrow> bs)) wsi
                 else (0, wsi))
          in if token_len eff_buf \<noteq> 0 \<and> n < 0 then (-1, wsi)
             else
               let len = (if token_len eff_buf \<noteq> 0 \<and> clean_buffer wsi then n else len) in
               if m = 0 then (len, wsi)
               else if \<not> lws_send_pipe_choked env wsi \<and> trunc_len wsi = 0 then
                 issue_raw_ext_loop k env (no_tokens\<lparr>moved := True\<rparr>) len wsi
               else (len, (snd (lws_callback_on_writable env wsi))\<lparr>extension_data_pending := True\<rparr>))"

definition lws_issue_raw_ext_access :: "env \<Rightarrow> byte list \<Rightarrow> ws \<Rightarrow> int \<times> ws" where
  "lws_issue_raw_ext_access env buf wsi =
     issue_raw_ext_loop (Suc (ext_rounds env)) env
       \<lparr>token = Some buf, token_len = int (length buf), moved = False\<rparr> (int (length buf)) wsi"

subsection \<open>Write protocols\<close>

definition LWS_WRITE_TEXT :: byte where "LWS_WRITE_TEXT = 0"
definition LWS_WRITE_BINARY :: byte where "LWS_WRITE_BINARY = 1"
definition LWS_WRITE_CONTINUATION :: byte where "LWS_WRITE_CONTINUATION = 2"
definition LWS_WRITE_HTTP :: byte where "LWS_WRITE_HTTP = 3"
definition LWS_WRITE_CLOSE :: byte where "LWS_WRITE_CLOSE = 4"
definition LWS_WRITE_PING :: byte where "LWS_WRITE_PING = 5"
definition LWS_WRITE_PONG :: byte where "LWS_WRITE_PONG = 6"
definition LWS_WRITE_HTTP_FINAL :: byte where "LWS_WRITE_HTTP_FINAL = 7"
definition LWS_WRITE_HTTP_HEADERS :: byte where "LWS_WRITE_HTTP_HEADERS = 8"
definition LWS_WRITE_NO_FIN :: byte where "LWS_WRITE_NO_FIN = 0x40"

lemmas write_types = LWS_WRITE_TEXT_def LWS_WRITE_BINARY_def LWS_WRITE_CONTINUATION_def
  LWS_WRITE_HTTP_def LWS_WRITE_CLOSE_def LWS_WRITE_PING_def LWS_WRITE_PONG_def
  LWS_WRITE_HTTP_FINAL_def LWS_WRITE_HTTP_HEADERS_def LWS_WRITE_NO_FIN_def

text \<open>The opcode of a frame, \<open>None\<close> for the unknown write type.\<close>

definition write_opcode :: "byte \<Rightarrow> byte option" where
  "write_opcode wp =
     (let t = wp AND 0xf in
      if t = LWS_WRITE_TEXT then Some 1
      else if t = LWS_WRITE_BINARY then Some 2
      else if t = LWS_WRITE_CONTINUATION then Some 0
      else if t = LWS_WRITE_CLOSE then Some 8
      else if t = LWS_WRITE_PING then Some 9
      else if t = LWS_WRITE_PONG then Some 10
      else None)"

text \<open>The header in front of \<open>len\<close> bytes of payload; \<open>len\<close> is a \<^verbatim>\<open>size_t\<close>.\<close>

definition frame_header :: "byte \<Rightarrow> byte \<Rightarrow> byte \<Rightarrow> u64 \<Rightarrow> byte list" where
  "frame_header opc wp is_masked_bit len =
     (let n = (if wp AND LWS_WRITE_NO_FIN = 0 then opc OR 0x80 else opc) in
      if len < 126 then [n, ucast len OR is_masked_bit]
      else if len < 65536 then [n, 126 OR is_masked_bit, ucast (drop_bit 8 len), ucast len]
      else [n, 127 OR is_masked_bit, ucast (drop_bit 56 len) AND 0x7f, ucast (drop_bit 48 len),
            ucast (drop_bit 40 len), ucast (drop_bit 32 len), ucast (drop_bit 24 len),
            ucast (drop_bit 16 len), ucast (drop_bit 8 len), ucast len])"

text \<open>\<^verbatim>\<open>lws_0405_frame_mask_generate\<close>: \<open>None\<close> when the random source did not give four bytes.\<close>

definition frame_mask_generate :: "env \<Rightarrow> ws \<Rightarrow> ws option" where
  "frame_mask_generate env wsi =
     (let r = random_bytes env wsi in
      if length r \<noteq> 4 then None else Some (wsi\<lparr>frame_mask := r, mask_idx := 0\<rparr>))"

text \<open>The masking loop, with the running byte index into the mask.\<close>

fun mask_payload :: "byte list \<Rightarrow> byte \<Rightarrow> byte list \<Rightarrow> byte list" where
  "mask_payload msk i [] = []"
| "mask_payload msk i (b # bs) = (b XOR msk ! unat (i AND 3)) # mask_payload msk (i + 1) bs"

subsection \<open>\<^verbatim>\<open>lws_write\<close>\<close>

text \<open>
  The payload, its write type and the connection after the extensions have seen a data frame;
  \<open>Inl\<close> is an early return. On a connection that is draining an extension \<^verbatim>\<open>buf\<close> may be
  \<^verbatim>\<open>NULL\<close>.
\<close>

definition write_payload_exts ::
  "env \<Rightarrow> byte list option \<Rightarrow> byte \<Rightarrow> ws \<Rightarrow> (int \<times> ws) + (byte list \<times> byte \<times> ws)" where
  "write_payload_exts env buf wp wsi =
     (let len = (case buf of None \<Rightarrow> 0 | Some bs \<Rightarrow> length bs);
          eff_buf = \<lparr>token = buf, token_len = int len, moved = False\<rparr>
      in case (if wp = LWS_WRITE_PING \<or> wp = LWS_WRITE_PONG \<or> wp = LWS_WRITE_CLOSE then
                 Inr (eff_buf, wp, wsi)
               else
                 case lws_ext_cb_active env EXT_CB_PAYLOAD_TX eff_buf wsi of (n, eff_buf, wsi) \<Rightarrow>
                   if n < 0 then Inl (-1, wsi)
                   else
                     let (wp, wsi) =
                           (if n \<noteq> 0 \<and> token_len eff_buf \<noteq> 0 then
                              let wsi = wsi\<lparr>tx_draining_ext := True,
                                            tx_draining_ext_list := wsi_id wsi # tx_draining_ext_list wsi\<rparr>;
                                  wsi = snd (lws_callback_on_writable env wsi)
                              in (wp OR LWS_WRITE_NO_FIN, wsi\<lparr>tx_draining_stashed_wp := wp\<rparr>)
                            else (wp, wsi))
                     in if token_len eff_buf \<noteq> 0 \<and> stashed_write_pending wsi then
                          Inr (eff_buf, (wp AND 0xc0) OR stashed_write_type wsi,
                               wsi\<lparr>stashed_write_pending := False\<rparr>)
                        else Inr (eff_buf, wp, wsi)) of
           Inl r \<Rightarrow> Inl r
         | Inr (eff_buf, wp, wsi) \<Rightarrow>
             if moved eff_buf \<and> len \<noteq> 0 \<and> token_len eff_buf = 0 then
               Inl (int len,
                    (if stashed_write_pending wsi then wsi
                     else wsi\<lparr>stashed_write_type := wp AND 0x3f\<rparr>)\<lparr>stashed_write_pending := True\<rparr>)
             else
               Inr (take (nat (token_len eff_buf)) (case token eff_buf of None \<Rightarrow> [] | Some bs \<Rightarrow> bs), wp,
                    (if moved eff_buf then wsi\<lparr>clean_buffer := False\<rparr> else wsi)))"

text \<open>
  The label \<^verbatim>\<open>send_raw\<close>. Control frames and HTTP go straight to the socket, data frames by way
  of the extensions; \<open>pre\<close> is what was put in front of \<open>payload\<close>.
\<close>

definition write_send_raw ::
  "env \<Rightarrow> byte \<Rightarrow> nat \<Rightarrow> byte list \<Rightarrow> byte list \<Rightarrow> ws \<Rightarrow> int \<times> ws" where
  "write_send_raw env wp orig_len pre payload wsi =
     (if wp = LWS_WRITE_CLOSE \<or> wp = LWS_WRITE_HTTP \<or> wp = LWS_WRITE_HTTP_FINAL \<or>
         wp = LWS_WRITE_HTTP_HEADERS \<or> wp = LWS_WRITE_PONG \<or> wp = LWS_WRITE_PING then
        lws_issue_raw env False (pre @ payload) wsi
      else
        case lws_issue_raw_ext_access env (pre @ payload) wsi of (n, wsi) \<Rightarrow>
          let wsi = wsi\<lparr>inside_frame := True\<rparr> in
          if n \<le> 0 then (n, wsi)
          else if n = int (length payload + length pre) then
            (int orig_len, wsi\<lparr>inside_frame := False\<rparr>)
          else (n - int (length pre), wsi))"

text \<open>
  From the header on: \<open>do_more_inside_frame\<close> sends more of a frame that already has its
  header, with no mask, since the caller's buffer was masked in place when the frame began.
\<close>

definition write_frame :: "env \<Rightarrow> byte \<Rightarrow> nat \<Rightarrow> byte list \<Rightarrow> ws \<Rightarrow> int \<times> ws" where
  "write_frame env wp orig_len payload wsi =
     (let masked7 = (wsi_mode wsi = LWSCM_WS_CLIENT) in
      if ietf_spec_revision wsi = 13 then
        case write_opcode wp of
          None \<Rightarrow> (-1, wsi)
        | Some opc \<Rightarrow>
            let hdr = frame_header opc wp (if masked7 then 0x80 else 0) (of_nat (length payload)) in
            if masked7 then
              case frame_mask_generate env wsi of
                None \<Rightarrow> (-1, wsi)
              | Some wsi \<Rightarrow>
                  write_send_raw env wp orig_len (hdr @ frame_mask wsi)
                    (mask_payload (frame_mask wsi) (mask_idx wsi) payload)
                    (wsi\<lparr>mask_idx := mask_idx wsi + of_nat (length payload)\<rparr>)
            else write_send_raw env wp orig_len hdr payload wsi
      else if masked7 then
        (case frame_mask_generate env wsi of
           None \<Rightarrow> (-1, wsi)
         | Some wsi \<Rightarrow> write_send_raw env wp orig_len [] payload wsi)
      else write_send_raw env wp orig_len [] payload wsi)"

definition lws_write :: "env \<Rightarrow> byte list option \<Rightarrow> byte \<Rightarrow> ws \<Rightarrow> int \<times> ws" where
  "lws_write env buf wp wsi =
     (let payload = (case buf of None \<Rightarrow> [] | Some bs \<Rightarrow> bs);
          (wp, wsi) =
            (if wsi_state wsi = LWSS_ESTABLISHED \<and> tx_draining_ext wsi then
               ((tx_draining_stashed_wp wsi AND 0xc0) OR LWS_WRITE_CONTINUATION,
                wsi\<lparr>tx_draining_ext := False,
                    tx_draining_ext_list := remove1 (wsi_id wsi) (tx_draining_ext_list wsi)\<rparr>)
             else (wp, wsi));
          wsi = lws_restart_ws_ping_pong_timer env wsi
      in if wp = LWS_WRITE_HTTP \<or> wp = LWS_WRITE_HTTP_FINAL \<or> wp = LWS_WRITE_HTTP_HEADERS then
           write_send_raw env wp (length payload) [] payload wsi
         else if wsi_state wsi \<noteq> LWSS_ESTABLISHED \<and>
                 ((wsi_state wsi \<noteq> LWSS_RETURNED_CLOSE_ALREADY \<and>
                   wsi_state wsi \<noteq> LWSS_AWAITING_CLOSE_ACK) \<or> wp \<noteq> LWS_WRITE_CLOSE) then (0, wsi)
         else if inside_frame wsi then
           write_send_raw env wp (length payload) [] payload wsi
         else
           let wsi = wsi\<lparr>clean_buffer := True\<rparr> in
           case write_payload_exts env buf wp wsi of
             Inl r \<Rightarrow> r
           | Inr (payload', wp, wsi) \<Rightarrow> write_frame env wp (length payload) payload' wsi)"


subsection \<open>What sending leaves alone\<close>

text \<open>
  The operations of the sending side, of poll events, timeouts and flow control touch a fixed
  set of fields. A predicate that does not look at those is kept by all of them: the contract is
  a locale, proved once for every operation and used below for the receiver's own state and for
  the bounds of the connection's buffers.
\<close>

locale poll_frame =
  fixes P :: "ws \<Rightarrow> bool"
  assumes log [simp]: "P wsi \<Longrightarrow> \<not> is_callback ev \<Longrightarrow> P (log_event ev wsi)"
    and poll [simp]: "P wsi \<Longrightarrow> P (poll_in_update g wsi)" "P wsi \<Longrightarrow> P (poll_out_update g wsi)"
begin

lemma ext_active:
  assumes "lws_ext_cb_active env reason arg wsi = (m, arg', wsi')" and "P wsi"
  shows "P wsi'"
proof -
  have "ext_cb_loop xs reason h arg wsi = (m, arg', wsi') \<Longrightarrow> P wsi \<Longrightarrow> P wsi'" for xs h
    by (induction xs reason h arg wsi rule: ext_cb_loop.induct)
      (auto simp: Let_def split: prod.splits if_splits)
  then show ?thesis using assms by (simp add: lws_ext_cb_active_def)
qed

lemma change_pollfd: "lws_change_pollfd env c s wsi = (r, wsi') \<Longrightarrow> P wsi \<Longrightarrow> P wsi'"
  by (auto simp: lws_change_pollfd_def lws_change_pollfd_inner_def Let_def
      split: prod.splits if_splits)

lemma on_writable [simp]: "P wsi \<Longrightarrow> P (snd (lws_callback_on_writable env wsi))"
  by (auto simp: lws_callback_on_writable_def ext_active change_pollfd split: prod.splits)

end

locale conn_frame = poll_frame +
  assumes fault [simp]: "P wsi \<Longrightarrow> P (set_fault Ext_loops wsi)"
    and unusable [simp]: "P wsi \<Longrightarrow> P (socket_is_permanently_unusable_update g wsi)"
    and new_mask [simp]: "P wsi \<Longrightarrow> length m = 4 \<Longrightarrow> P (wsi\<lparr>frame_mask := m, mask_idx := 0\<rparr>)"
    and mask_index [simp]: "P wsi \<Longrightarrow> P (mask_idx_update h wsi)"
    and close_reason [simp]: "P wsi \<Longrightarrow> P (lws_close_reason status b wsi)"
    and next_ping [simp]: "P wsi \<Longrightarrow> P (time_next_ping_check_update i wsi)"
    and in_frame [simp]: "P wsi \<Longrightarrow> P (inside_frame_update g wsi)"
    and clean [simp]: "P wsi \<Longrightarrow> P (clean_buffer_update g wsi)"
    and stash_pending [simp]: "P wsi \<Longrightarrow> P (stashed_write_pending_update g wsi)"
    and stash_type [simp]: "P wsi \<Longrightarrow> P (stashed_write_type_update h wsi)"
    and drain [simp]: "P wsi \<Longrightarrow> P (tx_draining_ext_update g wsi)"
    and drain_wp [simp]: "P wsi \<Longrightarrow> P (tx_draining_stashed_wp_update h wsi)"
    and drain_list [simp]: "P wsi \<Longrightarrow> P (tx_draining_ext_list_update l wsi)"
    and ext_pending [simp]: "P wsi \<Longrightarrow> P (extension_data_pending_update g wsi)"
    and trunc [simp]: "P wsi \<Longrightarrow> P (trunc_alloc_update bf wsi)"
      "P wsi \<Longrightarrow> P (trunc_alloc_len_update n wsi)"
      "P wsi \<Longrightarrow> P (trunc_offset_update n wsi)" "P wsi \<Longrightarrow> P (trunc_len_update n wsi)"
    and rxflow [simp]: "P wsi \<Longrightarrow> P (rxflow_allow_update g wsi)"
      "P wsi \<Longrightarrow> P (rxflow_pending_change_update g wsi)"
    and timeout [simp]: "P wsi \<Longrightarrow> P (pending_timeout_update t wsi)"
      "P wsi \<Longrightarrow> P (pending_timeout_limit_update i wsi)" "P wsi \<Longrightarrow> P (timeout_list_update l wsi)"
    and sent [simp]: "P wsi \<Longrightarrow> P (wire_update bf wsi)"
begin

lemma set_timeout [simp]: "P wsi \<Longrightarrow> P (lws_set_timeout env r s wsi)"
  by (simp add: lws_set_timeout_def lws_remove_from_timeout_list_def Let_def)

lemma ping_timer [simp]: "P wsi \<Longrightarrow> P (lws_restart_ws_ping_pong_timer env wsi)"
  by (simp add: lws_restart_ws_ping_pong_timer_def)

lemma rx_flow [simp]:
  "P wsi \<Longrightarrow> P (lws_rx_flow_control b wsi)" "P wsi \<Longrightarrow> P (snd (lws_rx_flow_control_apply env wsi))"
  by (auto simp: lws_rx_flow_control_def lws_rx_flow_control_apply_def Let_def change_pollfd
      split: prod.splits if_splits)

lemma truncated [simp]: "P wsi \<Longrightarrow> P (snd (handle_truncated_send env n buf l wsi))"
  by (simp add: handle_truncated_send_def Let_def)

lemma ssl_write: "lws_ssl_capable_write env buf wsi = (r, wsi') \<Longrightarrow> P wsi \<Longrightarrow> P wsi'"
  by (auto simp: lws_ssl_capable_write_def split: send_result.splits)

lemma issue_raw [simp]:
  assumes "P wsi"
  shows "P (snd (lws_issue_raw env from_trunc buf wsi))"
proof -
  obtain m arg w1 where e: "lws_ext_cb_active env EXT_CB_PACKET_TX_DO_SEND
      \<lparr>token = Some buf, token_len = int (length buf), moved = False\<rparr> wsi = (m, arg, w1)"
    by (rule prod_cases3)
  have w1: "P w1" using ext_active [OF e assms] .
  have "P (snd (case lws_ssl_capable_write env b w1 of
      (None, wsi) \<Rightarrow> (-1, wsi\<lparr>socket_is_permanently_unusable := True\<rparr>)
    | (Some n, wsi) \<Rightarrow> handle_truncated_send env n b' l wsi))" for b b' l
    by (cases "lws_ssl_capable_write env b w1") (use ssl_write w1 in \<open>auto split: option.split\<close>)
  then show ?thesis
    unfolding lws_issue_raw_def Let_def e prod.case
    by (simp add: assms w1 split del: if_split) (simp add: assms w1)
qed

lemma issue_raw_loop [simp]: "P wsi \<Longrightarrow> P (snd (issue_raw_ext_loop k env t l wsi))"
proof (induction k arbitrary: t l wsi)
  case (Suc k)
  obtain m arg w1 where e: "lws_ext_cb_active env EXT_CB_PACKET_TX_PRESEND t wsi = (m, arg, w1)"
    by (rule prod_cases3)
  have w1: "P w1" using ext_active [OF e Suc(2)] .
  define w2 where "w2 = (if moved arg then w1\<lparr>clean_buffer := False\<rparr> else w1)"
  define r where "r = (if token_len arg \<noteq> 0 then
                   lws_issue_raw env False
                     (take (nat (token_len arg)) (case token arg of None \<Rightarrow> [] | Some bs \<Rightarrow> bs)) w2
                 else (0, w2))"
  obtain n w3 where r: "r = (n, w3)" by (cases r)
  have "P w2" by (simp add: w2_def w1)
  then have "P w3" using r issue_raw unfolding r_def by (metis snd_conv)
  then show ?case
    unfolding issue_raw_ext_loop.simps e prod.case Let_def w2_def [symmetric] r_def [symmetric] r
    by (simp add: w1 Suc)
qed simp

lemma send_raw [simp]:
  assumes "P wsi"
  shows "P (snd (write_send_raw env wp l pre payload wsi))"
proof -
  obtain n w1 where e: "lws_issue_raw_ext_access env (pre @ payload) wsi = (n, w1)"
    by (rule prod.exhaust)
  then have "P w1"
    using issue_raw_loop assms unfolding lws_issue_raw_ext_access_def by (metis snd_conv)
  then show ?thesis
    unfolding write_send_raw_def e prod.case Let_def by (simp add: assms)
qed

lemma mask_generate: "frame_mask_generate env wsi = Some wsi' \<Longrightarrow> P wsi \<Longrightarrow> P wsi'"
  by (auto simp: frame_mask_generate_def Let_def split: if_splits)

lemma frame [simp]: "P wsi \<Longrightarrow> P (snd (write_frame env wp l payload wsi))"
  unfolding write_frame_def Let_def
  by (simp add: mask_generate split: option.split)

lemma payload_exts:
  assumes "P wsi"
  shows "P (case write_payload_exts env buf wp wsi of Inl r \<Rightarrow> snd r | Inr (p, wp, wsi') \<Rightarrow> wsi')"
proof -
  obtain m arg w1 where e: "lws_ext_cb_active env EXT_CB_PAYLOAD_TX
      \<lparr>token = buf, token_len = int (case buf of None \<Rightarrow> 0 | Some bs \<Rightarrow> length bs), moved = False\<rparr> wsi
      = (m, arg, w1)"
    by (rule prod_cases3)
  have w1: "P w1" using ext_active [OF e assms] .
  show ?thesis
    unfolding write_payload_exts_def Let_def e prod.case
    by (cases "wp = LWS_WRITE_PING \<or> wp = LWS_WRITE_PONG \<or> wp = LWS_WRITE_CLOSE";
        cases "m < 0"; cases "m \<noteq> 0 \<and> token_len arg \<noteq> 0") (simp_all add: w1 assms)
qed

lemma write_data [simp]:
  assumes "P wsi"
  shows "P (snd (lws_write env buf wp wsi))"
proof -
  have "P (snd (case write_payload_exts env buf wp' w of
          Inl r \<Rightarrow> r | Inr (p, wp, w) \<Rightarrow> write_frame env wp l p w))" if "P w" for wp' w l
    using payload_exts [OF that, of env buf wp'] by (auto split: sum.splits prod.splits)
  then show ?thesis
    unfolding lws_write_def Let_def
    by (cases "wsi_state wsi = LWSS_ESTABLISHED \<and> tx_draining_ext wsi") (simp_all add: assms)
qed

end

text \<open>The receiver's own state, as it stands between two bytes.\<close>

definition rx_part where
  "rx_part wsi = (wsi_id wsi, wsi_mode wsi, lws_rx_parse_state wsi, ietf_spec_revision wsi,
     opcode wsi, rsv wsi, rsv_first_msg wsi, final wsi, frame_is_binary wsi, all_zero_nonce wsi,
     this_frame_masked wsi, rx_packet_length wsi, rx_ubuf wsi, rx_ubuf_alloc wsi, rx_ubuf_head wsi,
     rx_draining_ext wsi, rx_draining_ext_list wsi, continuation_possible wsi, owed_a_fin wsi,
     check_utf8 wsi, defeat_check_utf8 wsi, utf8 wsi)"

interpretation rx: conn_frame "\<lambda>wsi. rx_part wsi = c" for c
  by unfold_locales (simp_all add: rx_part_def log_event_def set_fault_def lws_close_reason_def Let_def)

text \<open>The bounds of the connection's fixed buffers, and no memory fault so far.\<close>

definition ws_ok :: "ws \<Rightarrow> bool" where
  "ws_ok wsi \<longleftrightarrow> length (frame_mask wsi) = 4 \<and> length (ping_payload_buf wsi) = 125 \<and>
     ping_payload_len wsi \<le> 125 \<and> close_in_ping_buffer_len wsi \<le> 125 \<and>
     ws_fault wsi \<noteq> Some Out_of_bounds \<and> ws_fault wsi \<noteq> Some Null_deref"

interpretation ok: conn_frame ws_ok
  by unfold_locales
    (auto simp add: ws_ok_def log_event_def set_fault_def lws_close_reason_def Let_def split: option.split)


subsection \<open>The stream of bytes handed to the socket\<close>

text \<open>Everything accepted for sending so far: on the wire, then waiting in the buffer.\<close>

definition out_stream :: "ws \<Rightarrow> byte list" where
  "out_stream wsi = wire wsi @ trunc_pending wsi"

definition trunc_wf :: "ws \<Rightarrow> bool" where
  "trunc_wf wsi \<longleftrightarrow> trunc_offset wsi + trunc_len wsi \<le> length (trunc_alloc wsi) \<and>
     (trunc_alloc wsi \<noteq> [] \<longrightarrow> length (trunc_alloc wsi) = trunc_alloc_len wsi)"

text \<open>What \<^verbatim>\<open>send(2)\<close> promises: it does not take more than it was given.\<close>

definition sock_ok :: "env \<Rightarrow> bool" where
  "sock_ok env \<longleftrightarrow> (\<forall>wsi buf n. sock_send env wsi buf = Sent n \<longrightarrow> n \<le> length buf)"

definition tx_part where
  "tx_part wsi = (wire wsi, trunc_alloc wsi, trunc_alloc_len wsi, trunc_offset wsi, trunc_len wsi,
     wsi_state wsi, wsi_mode wsi, frame_mask wsi, mask_idx wsi, inside_frame wsi, tx_draining_ext wsi,
     stashed_write_pending wsi, ietf_spec_revision wsi, clean_buffer wsi, ping_payload_buf wsi)"

lemma tx_part_log: "tx_part (log_event ev wsi) = tx_part wsi"
  by (simp add: tx_part_def log_event_def)

lemma tx_part_ext_active:
  assumes "lws_ext_cb_active env reason arg wsi = (m, arg', wsi')"
  shows "tx_part wsi' = tx_part wsi"
proof -
  have "ext_cb_loop xs reason h arg wsi = (m, arg', wsi') \<Longrightarrow> tx_part wsi' = tx_part wsi" for xs h
    by (induction xs reason h arg wsi rule: ext_cb_loop.induct)
      (auto simp: Let_def tx_part_log split: prod.splits if_splits)
  then show ?thesis using assms by (simp add: lws_ext_cb_active_def)
qed

lemma tx_part_poll: "tx_part (wsi\<lparr>poll_in := a, poll_out := b\<rparr>) = tx_part wsi"
  by (simp add: tx_part_def)

lemma tx_part_change_pollfd: "lws_change_pollfd env c s wsi = (r, wsi') \<Longrightarrow> tx_part wsi' = tx_part wsi"
  by (auto simp: lws_change_pollfd_def lws_change_pollfd_inner_def Let_def tx_part_log tx_part_poll
      split: prod.splits if_splits)

lemma tx_part_on_writable [simp]: "tx_part (snd (lws_callback_on_writable env wsi)) = tx_part wsi"
  by (auto simp: lws_callback_on_writable_def split: prod.splits)
    (metis tx_part_ext_active tx_part_change_pollfd)+

definition tx_rest where
  "tx_rest wsi = (wsi_state wsi, wsi_mode wsi, inside_frame wsi, clean_buffer wsi, tx_draining_ext wsi,
     stashed_write_pending wsi, ietf_spec_revision wsi)"

lemma tx_partD:
  assumes "tx_part wsi' = tx_part wsi"
  shows "out_stream wsi' = out_stream wsi" "trunc_wf wsi' = trunc_wf wsi" "tx_rest wsi' = tx_rest wsi"
  using assms by (simp_all add: tx_part_def out_stream_def trunc_pending_def trunc_wf_def tx_rest_def)

lemma no_exts [simp]:
  "exts env = [] \<Longrightarrow> lws_ext_cb_active env reason arg wsi = (0, arg, wsi)"
  by (simp add: lws_ext_cb_active_def)

text \<open>A first send: what the socket did not take is buffered in full.\<close>

lemma handle_new_send:
  assumes "trunc_len wsi = 0" and "n \<le> length buf"
    and "handle_truncated_send env n buf (length buf) wsi = (r, wsi')"
    and "0 \<le> r" and "trunc_wf wsi"
  shows "r = int (length buf) \<and> out_stream wsi' = wire wsi @ drop n buf \<and> trunc_wf wsi' \<and>
    tx_rest wsi' = tx_rest wsi"
proof (cases "n = length buf")
  case True
  then show ?thesis
    using assms by (auto simp: handle_truncated_send_def out_stream_def trunc_pending_def)
next
  case False
  define fits where "fits \<longleftrightarrow> trunc_alloc wsi \<noteq> [] \<and> length buf - n \<le> trunc_alloc_len wsi"
  define w where "w = (if fits then wsi
                        else wsi\<lparr>trunc_alloc := replicate (length buf - n) 0,
                                 trunc_alloc_len := length buf - n\<rparr>)"
  define w' where "w' = w\<lparr>trunc_offset := 0, trunc_len := length buf - n,
       trunc_alloc := drop n buf @ drop (length buf - n) (trunc_alloc w)\<rparr>"
  have r: "r = int (length buf)" and w'': "wsi' = snd (lws_callback_on_writable env w')"
    using assms False
    by (auto simp: handle_truncated_send_def Let_def fits_def w'_def w_def split: if_splits)
  have "out_stream w' = wire wsi @ drop n buf"
    by (simp add: w'_def w_def out_stream_def trunc_pending_def)
  moreover have "trunc_wf w'"
    using assms(2,5) by (auto simp: w'_def w_def trunc_wf_def fits_def)
  moreover have "tx_rest w' = tx_rest wsi"
    by (simp add: w'_def w_def tx_rest_def)
  ultimately show ?thesis
    using tx_partD [OF tx_part_on_writable [of env w']] r w'' by simp
qed

text \<open>A later send, from the buffer itself.\<close>

lemma handle_more_send:
  assumes "trunc_len wsi \<noteq> 0" and "n \<le> trunc_len wsi" and "trunc_wf wsi"
    and "handle_truncated_send env n buf l wsi = (r, wsi')"
  shows "trunc_pending wsi' = drop n (trunc_pending wsi) \<and> wire wsi' = wire wsi \<and> trunc_wf wsi'"
proof -
  define w where "w = wsi\<lparr>trunc_offset := trunc_offset wsi + n, trunc_len := trunc_len wsi - n\<rparr>"
  have w: "trunc_pending w = drop n (trunc_pending wsi)" "wire w = wire wsi" "trunc_wf w"
    using assms(2,3) by (auto simp: w_def trunc_pending_def trunc_wf_def drop_take add.commute)
  have "wsi' = w \<or> wsi' = snd (lws_callback_on_writable env w)"
    using assms(1,4) by (auto simp: handle_truncated_send_def w_def Let_def split: if_splits)
  then have "tx_part wsi' = tx_part w" by auto
  then show ?thesis
    using w by (simp add: tx_part_def trunc_pending_def trunc_wf_def)
qed

definition send_limit :: "env \<Rightarrow> nat" where
  "send_limit env =
     (if rx_buffer_size env = 0 then pt_serv_buf_size env else rx_buffer_size env) + LWS_PRE + 4"

lemma issue_raw_no_exts:
  assumes "exts env = []" and "buf \<noteq> []"
    and "wsi_state wsi = LWSS_FLUSHING_STORED_SEND_BEFORE_CLOSE \<Longrightarrow> trunc_len wsi \<noteq> 0"
    and "trunc_len wsi = 0 \<or> from_trunc"
  shows "lws_issue_raw env from_trunc buf wsi =
    (case lws_ssl_capable_write env (take (send_limit env) buf) wsi of
       (None, w) \<Rightarrow> (-1, w\<lparr>socket_is_permanently_unusable := True\<rparr>)
     | (Some n, w) \<Rightarrow> handle_truncated_send env n buf (length buf) w)"
proof -
  have "take (if length buf < send_limit env then length buf else send_limit env) buf =
      take (send_limit env) buf"
    by simp
  then show ?thesis
    using assms unfolding send_limit_def
    by (auto simp: lws_issue_raw_def Let_def split: prod.split option.split)
qed

lemma ssl_write_Some:
  assumes "lws_ssl_capable_write env (take lim buf) wsi = (Some n, w)" and "sock_ok env"
  shows "n \<le> length buf" and "w = wsi\<lparr>wire := wire wsi @ take n buf\<rparr>"
proof -
  have "sock_send env wsi (take lim buf) = Sent n \<or> n = 0"
    using assms(1) by (auto simp: lws_ssl_capable_write_def split: send_result.splits)
  then have "n \<le> length (take lim buf)"
    using assms(2) unfolding sock_ok_def by (metis le0)
  then show "n \<le> length buf" "w = wsi\<lparr>wire := wire wsi @ take n buf\<rparr>"
    using assms(1) by (auto simp: lws_ssl_capable_write_def min_absorb1 split: send_result.splits)
qed

lemma issue_raw_new:
  assumes "exts env = []" and "sock_ok env" and "trunc_wf wsi"
    and "wsi_state wsi \<noteq> LWSS_FLUSHING_STORED_SEND_BEFORE_CLOSE"
    and "lws_issue_raw env False buf wsi = (r, wsi')" and "0 \<le> r"
  shows "r = int (length buf) \<and> out_stream wsi' = out_stream wsi @ buf \<and> trunc_wf wsi' \<and>
    (buf \<noteq> [] \<longrightarrow> trunc_len wsi = 0) \<and> tx_rest wsi' = tx_rest wsi"
proof (cases "buf = []")
  case True
  then show ?thesis using assms by (simp add: lws_issue_raw_def)
next
  case False
  have t: "trunc_len wsi = 0"
  proof (rule ccontr)
    assume "trunc_len wsi \<noteq> 0"
    then have "lws_issue_raw env False buf wsi = (-1, wsi)"
      using False assms(4) by (simp add: lws_issue_raw_def Let_def)
    then show False using assms(5,6) by simp
  qed
  note call = issue_raw_no_exts [of env buf wsi False, OF assms(1) False]
  obtain n w where w: "lws_ssl_capable_write env (take (send_limit env) buf) wsi = (Some n, w)"
      and h: "handle_truncated_send env n buf (length buf) w = (r, wsi')"
    using assms(4-6) t call by (auto split: prod.splits option.splits)
  note n = ssl_write_Some(1) [OF w assms(2)] and w' = ssl_write_Some(2) [OF w assms(2)]
  have "trunc_len w = 0" "trunc_wf w" using t assms(3) by (simp_all add: w' trunc_wf_def)
  from handle_new_send [OF this(1) _ h assms(6) this(2)] n t show ?thesis
    by (simp add: w' out_stream_def trunc_pending_def tx_rest_def)
qed

text \<open>C3: nothing that was accepted for sending is lost, repeated or reordered. When
  \<^verbatim>\<open>lws_issue_raw\<close> takes a buffer, the bytes on the wire followed by those in the truncated-send
  buffer grow by exactly that buffer, whatever part of it the socket took and whatever the
  allocator had to do; a new buffer is refused while an old one is pending.\<close>

theorem issue_raw_stream:
  assumes "exts env = []" and "sock_ok env" and "trunc_wf wsi"
    and "wsi_state wsi \<noteq> LWSS_FLUSHING_STORED_SEND_BEFORE_CLOSE"
    and "lws_issue_raw env False buf wsi = (r, wsi')" and "0 \<le> r"
  shows "r = int (length buf) \<and> out_stream wsi' = out_stream wsi @ buf \<and> trunc_wf wsi' \<and>
    (buf \<noteq> [] \<longrightarrow> trunc_len wsi = 0)"
  using issue_raw_new [OF assms] by blast

text \<open>C4: flushing the truncated-send buffer when the socket is writeable only moves bytes from
  the buffer to the wire: the stream is unchanged, also when the flush completes, when it is the
  last act before a close, and when the socket fails.\<close>

theorem issue_raw_flush:
  assumes "exts env = []" and "sock_ok env" and "trunc_wf wsi" and "trunc_len wsi \<noteq> 0"
    and "lws_issue_raw env True (trunc_pending wsi) wsi = (r, wsi')"
  shows "out_stream wsi' = out_stream wsi \<and> trunc_wf wsi'"
proof -
  have len: "length (trunc_pending wsi) = trunc_len wsi"
    using assms(3) by (auto simp: trunc_pending_def trunc_wf_def)
  then have "trunc_pending wsi \<noteq> []" using assms(4) by auto
  then have call: "lws_issue_raw env True (trunc_pending wsi) wsi =
      (case lws_ssl_capable_write env (take (send_limit env) (trunc_pending wsi)) wsi of
         (None, wsi) \<Rightarrow> (-1, wsi\<lparr>socket_is_permanently_unusable := True\<rparr>)
       | (Some n, w) \<Rightarrow> handle_truncated_send env n (trunc_pending wsi) (length (trunc_pending wsi)) w)"
    using issue_raw_no_exts [of env "trunc_pending wsi" wsi True] assms(1,4) by simp
  show ?thesis
  proof (cases "lws_ssl_capable_write env (take (send_limit env) (trunc_pending wsi)) wsi")
    case (Pair n w)
    show ?thesis
    proof (cases n)
      case None
      then have "wsi' = wsi\<lparr>socket_is_permanently_unusable := True\<rparr>"
        using Pair assms(5) call by (auto simp: lws_ssl_capable_write_def split: send_result.splits)
      then show ?thesis using assms(3) by (simp add: out_stream_def trunc_pending_def trunc_wf_def)
    next
      case (Some k)
      have k: "k \<le> length (trunc_pending wsi)"
        and w: "w = wsi\<lparr>wire := wire wsi @ take k (trunc_pending wsi)\<rparr>"
        using ssl_write_Some [of env _ _ wsi k w] Pair Some assms(2) by blast+
      have h: "handle_truncated_send env k (trunc_pending wsi) (trunc_len wsi) w = (r, wsi')"
        using call assms(5) Pair Some by (simp add: len)
      have "trunc_len w \<noteq> 0" "k \<le> trunc_len w" "trunc_wf w" "trunc_pending w = trunc_pending wsi"
        using assms(3,4) k len by (simp_all add: w trunc_wf_def trunc_pending_def)
      from handle_more_send [OF this(1-3) h] this(4) show ?thesis
        by (simp add: out_stream_def w)
    qed
  qed
qed

subsection \<open>What \<^verbatim>\<open>lws_write\<close> puts in the stream\<close>

text \<open>The frame of a payload: on a client the mask follows the header.\<close>

definition tx_frame :: "conn_mode \<Rightarrow> byte \<Rightarrow> byte \<Rightarrow> byte list \<Rightarrow> byte list \<Rightarrow> byte list" where
  "tx_frame mode opc wp msk payload =
     (if mode = LWSCM_WS_CLIENT
      then frame_header opc wp 0x80 (of_nat (length payload)) @ msk @ mask_payload msk 0 payload
      else frame_header opc wp 0 (of_nat (length payload)) @ payload)"

text \<open>A connection between frames with nothing held back by an extension.\<close>

definition tx_ready :: "ws \<Rightarrow> bool" where
  "tx_ready wsi \<longleftrightarrow> wsi_state wsi = LWSS_ESTABLISHED \<and> \<not> tx_draining_ext wsi \<and> \<not> inside_frame wsi \<and>
     \<not> stashed_write_pending wsi \<and> ietf_spec_revision wsi = 13 \<and> trunc_wf wsi"

lemma issue_raw_ext_access_no_exts:
  assumes "exts env = []" and "sock_ok env" and "trunc_wf wsi" and "clean_buffer wsi"
    and "wsi_state wsi \<noteq> LWSS_FLUSHING_STORED_SEND_BEFORE_CLOSE" and "buf \<noteq> []"
    and "lws_issue_raw_ext_access env buf wsi = (r, wsi')" and "0 \<le> r"
  shows "r = int (length buf) \<and> out_stream wsi' = out_stream wsi @ buf \<and> trunc_wf wsi' \<and>
    tx_rest wsi' = tx_rest wsi"
proof -
  obtain n w where w: "lws_issue_raw env False buf wsi = (n, w)" by (rule prod.exhaust)
  then have "n < 0 \<and> r = -1 \<or> 0 \<le> n \<and> wsi' = w \<and> r = (if clean_buffer w then n else int (length buf))"
    using assms(1,4,6,7) by (auto simp: lws_issue_raw_ext_access_def Let_def split: if_splits)
  then have n: "0 \<le> n" "wsi' = w" "r = (if clean_buffer w then n else int (length buf))"
    using assms(8) by auto
  from issue_raw_new [OF assms(1,2,3,5) w n(1)] n show ?thesis by simp
qed



subsection \<open>A concrete environment\<close>

text \<open>
  An application that accepts everything, a socket that takes at most \<open>lim\<close> bytes at a
  time, no extensions: the configuration of the camera server, for the witnesses.
\<close>

definition plain_env :: "nat \<Rightarrow> env" where
  "plain_env lim = \<lparr>
     user_cb = (\<lambda>_ _ _. (0, [])), has_callback = True, has_user_space = True, vhost_cb = (\<lambda>_ _. 0),
     exts = [], ext_rounds = 0, sock_send = (\<lambda>_ buf. Sent (min lim (length buf))),
     sock_writeable = (\<lambda>_. True), random_bytes = (\<lambda>_. [1, 2, 3, 4]), malloc_ok = (\<lambda>_ _. True),
     now_secs = (\<lambda>_. 0), service_tid = 0, rx_buffer_size = 64, pt_serv_buf_size = 4096,
     ws_ping_pong_interval = 0, timeout_secs = 20, validate_utf8 = True\<rparr>"

definition plain_conn :: "conn_mode \<Rightarrow> ws" where
  "plain_conn m =
     (lws_union_transition m (lws_create_new_server_wsi 1 [] [] []))
       \<lparr>ietf_spec_revision := 13, wsi_state := LWSS_ESTABLISHED, in_fds_table := True,
        hdr_parsing_completed := True, sock_valid := True, rx_ubuf := replicate 68 0, rx_ubuf_alloc := 80\<rparr>"

lemma plain_sock_ok: "sock_ok (plain_env lim)"
  by (simp add: sock_ok_def plain_env_def)

lemma plain_no_exts [simp]: "exts (plain_env lim) = []"
  by (simp add: plain_env_def)

lemma plain_ready: "tx_ready (plain_conn m)" "trunc_wf (plain_conn m)"
    "wsi_state (plain_conn m) = LWSS_ESTABLISHED" "wsi_mode (plain_conn m) = m"
    "out_stream (plain_conn m) = []"
  by (simp_all add: tx_ready_def plain_conn_def trunc_wf_def lws_union_transition_def
      lws_create_new_server_wsi_def out_stream_def trunc_pending_def)

theorem issue_raw_stream_witness:
  "out_stream (snd (lws_issue_raw (plain_env 2) False [7, 8, 9] (plain_conn LWSCM_WS_SERVING))) = [7, 8, 9] \<and>
   wire (snd (lws_issue_raw (plain_env 2) False [7, 8, 9] (plain_conn LWSCM_WS_SERVING))) = [7, 8]"
proof -
  obtain r w where rw: "lws_issue_raw (plain_env 2) False [7, 8, 9] (plain_conn LWSCM_WS_SERVING) = (r, w)"
    by (rule prod.exhaust)
  moreover have "fst (lws_issue_raw (plain_env 2) False [7, 8, 9] (plain_conn LWSCM_WS_SERVING)) = 3"
    "wire (snd (lws_issue_raw (plain_env 2) False [7, 8, 9] (plain_conn LWSCM_WS_SERVING))) = [7, 8]"
    by code_simp+
  ultimately show ?thesis
    using issue_raw_stream [OF plain_no_exts plain_sock_ok plain_ready(2) _ rw] plain_ready(3,5) by simp
qed

definition half_sent :: ws where
  "half_sent = snd (lws_issue_raw (plain_env 2) False [7, 8, 9, 10, 11] (plain_conn LWSCM_WS_SERVING))"

theorem issue_raw_flush_witness:
  "out_stream (snd (lws_issue_raw (plain_env 2) True (trunc_pending half_sent) half_sent)) = out_stream half_sent \<and>
   wire (snd (lws_issue_raw (plain_env 2) True (trunc_pending half_sent) half_sent)) = [7, 8, 9, 10]"
proof -
  obtain r w where rw: "lws_issue_raw (plain_env 2) True (trunc_pending half_sent) half_sent = (r, w)"
    by (rule prod.exhaust)
  moreover have "trunc_wf half_sent" "trunc_len half_sent \<noteq> 0"
    "wire (snd (lws_issue_raw (plain_env 2) True (trunc_pending half_sent) half_sent)) = [7, 8, 9, 10]"
    by code_simp+
  ultimately show ?thesis
    using issue_raw_flush [OF plain_no_exts plain_sock_ok _ _ rw] by simp
qed


end
