(* ===== verification/Ws_Rx.thy ===== *)
theory Ws_Rx
  imports Ws_Tx
begin

text \<open>
  The receiving side of a server, \<^verbatim>\<open>parsers.c\<close>: \<^verbatim>\<open>lws_rx_sm\<close> takes one byte at a time through
  the frame header, the mask and the payload into \<^verbatim>\<open>rx_ubuf\<close>, and \<^verbatim>\<open>spill\<close> acts on what is there
  when the frame is complete or the buffer full. \<^verbatim>\<open>lws_payload_until_length_exhausted\<close> copies
  payload in bulk, and \<^verbatim>\<open>lws_interpret_incoming_packet\<close> of \<^verbatim>\<open>server.c\<close> drives both.
  \<open>rx_ubuf\<close> is the part of the C buffer from \<^verbatim>\<open>LWS_PRE\<close> on, with the four bytes the
  allocation has more than \<^verbatim>\<open>rx_ubuf_alloc\<close>.
\<close>

subsection \<open>Calling the application\<close>

definition run_api :: "env \<Rightarrow> api \<Rightarrow> ws \<Rightarrow> ws" where
  "run_api env a wsi =
     (case a of
        Api_rx_flow_control enable \<Rightarrow> lws_rx_flow_control enable wsi
      | Api_close_reason status buf \<Rightarrow> lws_close_reason status buf wsi
      | Api_set_timeout reason secs \<Rightarrow> lws_set_timeout env reason secs wsi
      | Api_callback_on_writable \<Rightarrow> snd (lws_callback_on_writable env wsi)
      | Api_write buf wp \<Rightarrow> snd (lws_write env (Some buf) wp wsi))"

definition protocol_callback :: "env \<Rightarrow> cb_reason \<Rightarrow> byte list \<Rightarrow> ws \<Rightarrow> int \<times> ws" where
  "protocol_callback env reason data wsi =
     (case user_cb env wsi reason data of (n, apis) \<Rightarrow>
        (n, fold (run_api env) apis (log_event (Ev_callback reason data) wsi)))"

definition user_callback_handle_rxflow :: "env \<Rightarrow> cb_reason \<Rightarrow> byte list \<Rightarrow> ws \<Rightarrow> int \<times> ws" where
  "user_callback_handle_rxflow env reason data wsi =
     (case protocol_callback env reason data wsi of (n, wsi) \<Rightarrow>
        if n = 0 then lws_rx_flow_control_apply env wsi else (n, wsi))"

subsection \<open>Spilling the receive buffer\<close>

definition rx_put :: "nat \<Rightarrow> byte \<Rightarrow> ws \<Rightarrow> ws" where
  "rx_put i c wsi =
     (if i < length (rx_ubuf wsi) then wsi\<lparr>rx_ubuf := (rx_ubuf wsi)[i := c]\<rparr>
      else set_fault Out_of_bounds wsi)"

text \<open>The payload collected so far.\<close>

definition rx_payload :: "ws \<Rightarrow> byte list" where
  "rx_payload wsi = take (rx_ubuf_head wsi) (rx_ubuf wsi)"

definition rx_tokens :: "ws \<Rightarrow> tokens" where
  "rx_tokens wsi = \<lparr>token = Some (rx_payload wsi), token_len = int (rx_ubuf_head wsi), moved = False\<rparr>"

definition closing :: "ws \<Rightarrow> bool" where
  "closing wsi \<longleftrightarrow> wsi_state wsi = LWSS_RETURNED_CLOSE_ALREADY \<or> wsi_state wsi = LWSS_AWAITING_CLOSE_ACK"

text \<open>\<^verbatim>\<open>eff_buf.token[eff_buf.token_len] = 0\<close>: in the connection's own buffer or the extension's.\<close>

definition terminate_token :: "tokens \<Rightarrow> ws \<Rightarrow> ws" where
  "terminate_token eff_buf wsi =
     (case token eff_buf of
        None \<Rightarrow> set_fault Null_deref wsi
      | Some _ \<Rightarrow> if moved eff_buf then wsi else rx_put (nat (token_len eff_buf)) 0 wsi)"

text \<open>The label \<^verbatim>\<open>drain_extension\<close> of \<^verbatim>\<open>lws_rx_sm\<close>.\<close>

definition rx_drain_extension :: "env \<Rightarrow> cb_reason \<Rightarrow> bool \<Rightarrow> tokens \<Rightarrow> ws \<Rightarrow> int \<times> ws" where
  "rx_drain_extension env callback_action rx_draining eff_buf wsi =
     (if closing wsi then (0, wsi\<lparr>rx_ubuf_head := 0\<rparr>)
      else case lws_ext_cb_active env EXT_CB_PAYLOAD_RX eff_buf wsi of (n, eff_buf, wsi) \<Rightarrow>
        if n < 0 then (-1, wsi\<lparr>socket_is_permanently_unusable := True\<rparr>)
        else if rx_draining \<and> token_len eff_buf = 0 then (0, wsi\<lparr>rx_ubuf_head := 0\<rparr>)
        else
          let wsi = (if n \<noteq> 0 \<and> token_len eff_buf \<noteq> 0 then
                       wsi\<lparr>rx_draining_ext := True,
                           rx_draining_ext_list := wsi_id wsi # rx_draining_ext_list wsi\<rparr>
                     else wsi);
              (ret, wsi) =
                (if 0 < token_len eff_buf \<or> callback_action = CB_RECEIVE_PONG then
                   let wsi = terminate_token eff_buf wsi in
                   if has_callback env then
                     user_callback_handle_rxflow env callback_action
                       (take (nat (token_len eff_buf)) (case token eff_buf of None \<Rightarrow> [] | Some bs \<Rightarrow> bs)) wsi
                   else (0, wsi)
                 else (0, wsi))
          in (ret, wsi\<lparr>rx_ubuf_head := 0\<rparr>))"

text \<open>The labels \<^verbatim>\<open>process_as_ping\<close> and \<^verbatim>\<open>ping_drop\<close>.\<close>

definition rx_process_as_ping :: "env \<Rightarrow> ws \<Rightarrow> int \<times> ws" where
  "rx_process_as_ping env wsi =
     (if 128 - 3 < rx_ubuf_head wsi then (0, wsi\<lparr>rx_ubuf_head := 0\<rparr>)
      else
        let wsi = (if rx_ubuf_head wsi \<le> length (ping_payload_buf wsi) then
                     wsi\<lparr>ping_payload_buf := rx_payload wsi @ drop (rx_ubuf_head wsi) (ping_payload_buf wsi)\<rparr>
                   else set_fault Out_of_bounds wsi);
            wsi = wsi\<lparr>ping_payload_len := rx_ubuf_head wsi, ping_pending_flag := True\<rparr>;
            wsi = snd (lws_callback_on_writable env wsi)
        in (0, wsi\<lparr>rx_ubuf_head := 0\<rparr>))"

definition rx_pong_timeout :: "env \<Rightarrow> ws \<Rightarrow> ws" where
  "rx_pong_timeout env wsi =
     (if pending_timeout wsi = PENDING_TIMEOUT_WS_PONG_CHECK_GET_PONG
      then lws_set_timeout env NO_PENDING_TIMEOUT 0 wsi else wsi)"

text \<open>The label \<^verbatim>\<open>spill\<close>: the opcode decides.\<close>

definition rx_spill_close :: "env \<Rightarrow> ws \<Rightarrow> int \<times> ws" where
  "rx_spill_close env wsi =
     (if closing wsi then (-1, wsi)
      else if lws_partial_buffered wsi then (-1, wsi\<lparr>socket_is_permanently_unusable := True\<rparr>)
      else case user_callback_handle_rxflow env CB_WS_PEER_INITIATED_CLOSE (rx_payload wsi) wsi of
        (n, wsi) \<Rightarrow>
          if n \<noteq> 0 then (-1, wsi)
          else rx_process_as_ping env
                 (wsi\<lparr>wsi_state := LWSS_RETURNED_CLOSE_ALREADY, payload_is_close := True\<rparr>))"

definition rx_spill :: "env \<Rightarrow> ws \<Rightarrow> int \<times> ws" where
  "rx_spill env wsi =
     (if opcode wsi = 8 then rx_spill_close env wsi
      else if opcode wsi = 9 then
        (if ping_pending_flag wsi then (0, wsi\<lparr>rx_ubuf_head := 0\<rparr>)
         else rx_process_as_ping env wsi)
      else if opcode wsi = 10 then
        (let wsi = rx_pong_timeout env wsi
         in rx_drain_extension env CB_RECEIVE_PONG False (rx_tokens wsi) wsi)
      else if opcode wsi = 0 \<or> opcode wsi = 1 \<or> opcode wsi = 2 then
        rx_drain_extension env CB_RECEIVE False (rx_tokens wsi) wsi
      else
        case lws_ext_cb_active env EXT_CB_EXTENDED_PAYLOAD_RX (rx_tokens wsi) wsi of (_, _, wsi) \<Rightarrow>
          (0, wsi\<lparr>rx_ubuf_head := 0\<rparr>))"

subsection \<open>The state machine\<close>

text \<open>The label \<^verbatim>\<open>handle_first\<close>.\<close>

definition rx_first :: "byte \<Rightarrow> ws \<Rightarrow> int \<times> ws" where
  "rx_first c wsi =
     (let wsi = wsi\<lparr>opcode := c AND 0xf, rsv := c AND 0x70, final := (drop_bit 7 c AND 1 \<noteq> 0)\<rparr> in
      if opcode wsi = 1 \<or> opcode wsi = 2 then
        (0, wsi\<lparr>rsv_first_msg := c AND 0x70, frame_is_binary := (opcode wsi = 2),
                lws_rx_parse_state := RXPS_04_FRAME_HDR_LEN\<rparr>)
      else if opcode wsi \<in> {3, 4, 5, 6, 7, 0xb, 0xc, 0xd, 0xe, 0xf} then (-1, wsi)
      else (0, wsi\<lparr>lws_rx_parse_state := RXPS_04_FRAME_HDR_LEN\<rparr>))"

text \<open>A mask byte; any byte but zero makes the mask count.\<close>

definition rx_mask_byte :: "nat \<Rightarrow> byte \<Rightarrow> rx_parse_state \<Rightarrow> ws \<Rightarrow> ws" where
  "rx_mask_byte i c next_state wsi =
     wsi\<lparr>frame_mask := (frame_mask wsi)[i := c],
         all_zero_nonce := (all_zero_nonce wsi \<and> c = 0),
         lws_rx_parse_state := next_state\<rparr>"

definition rx_len_byte :: "nat \<Rightarrow> byte \<Rightarrow> rx_parse_state \<Rightarrow> ws \<Rightarrow> ws" where
  "rx_len_byte sh c next_state wsi =
     wsi\<lparr>rx_packet_length := rx_packet_length wsi OR push_bit sh (ucast c),
         lws_rx_parse_state := next_state\<rparr>"

definition rx_after_len :: "ws \<Rightarrow> ws" where
  "rx_after_len wsi =
     wsi\<lparr>lws_rx_parse_state :=
           (if this_frame_masked wsi then RXPS_07_COLLECT_FRAME_KEY_1
            else RXPS_PAYLOAD_UNTIL_LENGTH_EXHAUSTED)\<rparr>"

definition rx_hdr_len :: "env \<Rightarrow> byte \<Rightarrow> ws \<Rightarrow> int \<times> ws" where
  "rx_hdr_len env c wsi =
     (let wsi = wsi\<lparr>this_frame_masked := (c AND 0x80 \<noteq> 0)\<rparr>; l = c AND 0x7f in
      if l = 126 then
        (if opcode wsi AND 8 \<noteq> 0 then (-1, wsi)
         else (0, wsi\<lparr>lws_rx_parse_state := RXPS_04_FRAME_HDR_LEN16_2\<rparr>))
      else if l = 127 then
        (if opcode wsi AND 8 \<noteq> 0 then (-1, wsi)
         else (0, wsi\<lparr>lws_rx_parse_state := RXPS_04_FRAME_HDR_LEN64_8\<rparr>))
      else
        let wsi = wsi\<lparr>rx_packet_length := ucast l\<rparr> in
        if this_frame_masked wsi then (0, wsi\<lparr>lws_rx_parse_state := RXPS_07_COLLECT_FRAME_KEY_1\<rparr>)
        else if rx_packet_length wsi \<noteq> 0 then
          (0, wsi\<lparr>lws_rx_parse_state := RXPS_PAYLOAD_UNTIL_LENGTH_EXHAUSTED\<rparr>)
        else rx_spill env (wsi\<lparr>lws_rx_parse_state := RXPS_NEW\<rparr>))"

text \<open>The size at which the buffer is spilled before the frame ends.\<close>

definition rx_limit :: "env \<Rightarrow> nat" where
  "rx_limit env = (if rx_buffer_size env = 0 then pt_serv_buf_size env else rx_buffer_size env)"

text \<open>A payload byte goes into the buffer unmasked.\<close>

definition rx_store :: "byte \<Rightarrow> ws \<Rightarrow> ws" where
  "rx_store c wsi =
     (let wsi' = (if all_zero_nonce wsi then rx_put (rx_ubuf_head wsi) c wsi
                  else rx_put (rx_ubuf_head wsi) (c XOR frame_mask wsi ! unat (mask_idx wsi AND 3))
                         (wsi\<lparr>mask_idx := mask_idx wsi + 1\<rparr>))
      in wsi'\<lparr>rx_ubuf_head := rx_ubuf_head wsi + 1\<rparr>)"

definition rx_payload_byte :: "env \<Rightarrow> byte \<Rightarrow> ws \<Rightarrow> int \<times> ws" where
  "rx_payload_byte env c wsi =
     (if rx_ubuf_alloc wsi \<le> rx_ubuf_head wsi + LWS_PRE then (-1, wsi)
      else
        let wsi = rx_store c wsi;
            wsi = wsi\<lparr>rx_packet_length := rx_packet_length wsi - 1\<rparr>
        in if rx_packet_length wsi = 0 then rx_spill env (wsi\<lparr>lws_rx_parse_state := RXPS_NEW\<rparr>)
           else if rx_ubuf_head wsi \<noteq> rx_limit env then (0, wsi)
           else rx_spill env wsi)"

definition rx_new :: "env \<Rightarrow> byte \<Rightarrow> ws \<Rightarrow> int \<times> ws" where
  "rx_new env c wsi =
     (if rx_draining_ext wsi then
        rx_drain_extension env CB_RECEIVE True no_tokens
          (wsi\<lparr>rx_draining_ext := False,
               rx_draining_ext_list := remove1 (wsi_id wsi) (rx_draining_ext_list wsi)\<rparr>)
      else if ietf_spec_revision wsi = 13 then rx_first c (wsi\<lparr>all_zero_nonce := True\<rparr>)
      else (0, wsi))"

definition lws_rx_sm :: "env \<Rightarrow> byte \<Rightarrow> ws \<Rightarrow> int \<times> ws" where
  "lws_rx_sm env c wsi =
     (if socket_is_permanently_unusable wsi then (-1, wsi)
      else case lws_rx_parse_state wsi of
        RXPS_NEW \<Rightarrow> rx_new env c wsi
      | RXPS_04_mask_1 \<Rightarrow> (0, rx_mask_byte 1 c RXPS_04_mask_2 wsi)
      | RXPS_04_mask_2 \<Rightarrow> (0, rx_mask_byte 2 c RXPS_04_mask_3 wsi)
      | RXPS_04_mask_3 \<Rightarrow> (0, rx_mask_byte 3 c RXPS_04_FRAME_HDR_1 (wsi\<lparr>mask_idx := 0\<rparr>))
      | RXPS_04_FRAME_HDR_1 \<Rightarrow> rx_first c wsi
      | RXPS_04_FRAME_HDR_LEN \<Rightarrow> rx_hdr_len env c wsi
      | RXPS_04_FRAME_HDR_LEN16_2 \<Rightarrow>
          (0, wsi\<lparr>rx_packet_length := push_bit 8 (ucast c),
                  lws_rx_parse_state := RXPS_04_FRAME_HDR_LEN16_1\<rparr>)
      | RXPS_04_FRAME_HDR_LEN16_1 \<Rightarrow> (0, rx_after_len (rx_len_byte 0 c RXPS_NEW wsi))
      | RXPS_04_FRAME_HDR_LEN64_8 \<Rightarrow>
          (if c AND 0x80 \<noteq> 0 then (-1, wsi)
           else (0, wsi\<lparr>rx_packet_length := push_bit 56 (ucast c),
                        lws_rx_parse_state := RXPS_04_FRAME_HDR_LEN64_7\<rparr>))
      | RXPS_04_FRAME_HDR_LEN64_7 \<Rightarrow> (0, rx_len_byte 48 c RXPS_04_FRAME_HDR_LEN64_6 wsi)
      | RXPS_04_FRAME_HDR_LEN64_6 \<Rightarrow> (0, rx_len_byte 40 c RXPS_04_FRAME_HDR_LEN64_5 wsi)
      | RXPS_04_FRAME_HDR_LEN64_5 \<Rightarrow> (0, rx_len_byte 32 c RXPS_04_FRAME_HDR_LEN64_4 wsi)
      | RXPS_04_FRAME_HDR_LEN64_4 \<Rightarrow> (0, rx_len_byte 24 c RXPS_04_FRAME_HDR_LEN64_3 wsi)
      | RXPS_04_FRAME_HDR_LEN64_3 \<Rightarrow> (0, rx_len_byte 16 c RXPS_04_FRAME_HDR_LEN64_2 wsi)
      | RXPS_04_FRAME_HDR_LEN64_2 \<Rightarrow> (0, rx_len_byte 8 c RXPS_04_FRAME_HDR_LEN64_1 wsi)
      | RXPS_04_FRAME_HDR_LEN64_1 \<Rightarrow> (0, rx_after_len (rx_len_byte 0 c RXPS_NEW wsi))
      | RXPS_07_COLLECT_FRAME_KEY_1 \<Rightarrow> (0, rx_mask_byte 0 c RXPS_07_COLLECT_FRAME_KEY_2 wsi)
      | RXPS_07_COLLECT_FRAME_KEY_2 \<Rightarrow> (0, rx_mask_byte 1 c RXPS_07_COLLECT_FRAME_KEY_3 wsi)
      | RXPS_07_COLLECT_FRAME_KEY_3 \<Rightarrow> (0, rx_mask_byte 2 c RXPS_07_COLLECT_FRAME_KEY_4 wsi)
      | RXPS_07_COLLECT_FRAME_KEY_4 \<Rightarrow>
          (let wsi = (rx_mask_byte 3 c RXPS_PAYLOAD_UNTIL_LENGTH_EXHAUSTED wsi)\<lparr>mask_idx := 0\<rparr>
           in if rx_packet_length wsi = 0 then rx_spill env (wsi\<lparr>lws_rx_parse_state := RXPS_NEW\<rparr>)
              else (0, wsi))
      | RXPS_PAYLOAD_UNTIL_LENGTH_EXHAUSTED \<Rightarrow> rx_payload_byte env c wsi)"

subsection \<open>Bulk payload and the driver\<close>

text \<open>
  \<^verbatim>\<open>lws_payload_until_length_exhausted\<close>: the number of bytes it takes from \<open>buf\<close>. The
  subtraction and comparisons are unsigned in C, so a wrapped packet length counts as large.
\<close>

definition bulk_avail :: "env \<Rightarrow> byte list \<Rightarrow> ws \<Rightarrow> nat" where
  "bulk_avail env buf wsi =
     (let avail = rx_limit env - rx_ubuf_head wsi;
          avail = (if unat (rx_packet_length wsi) < avail then unat (rx_packet_length wsi) else avail);
          avail = (if length buf < avail then length buf else avail)
      in if avail \<le> 1 then 0 else avail - 1)"

text \<open>The unrolled loop: four mask bytes are read once, from the current index on.\<close>

fun unmask_chunks :: "byte list \<Rightarrow> byte list \<Rightarrow> byte list" where
  "unmask_chunks m (a # b # c # d # bs) =
     (a XOR m ! 0) # (b XOR m ! 1) # (c XOR m ! 2) # (d XOR m ! 3) # unmask_chunks m bs"
| "unmask_chunks m bs = map2 (XOR) bs m"

definition rx_write_at :: "nat \<Rightarrow> byte list \<Rightarrow> ws \<Rightarrow> ws" where
  "rx_write_at i bs wsi =
     (if i + length bs \<le> length (rx_ubuf wsi)
      then wsi\<lparr>rx_ubuf := take i (rx_ubuf wsi) @ bs @ drop (i + length bs) (rx_ubuf wsi)\<rparr>
      else set_fault Out_of_bounds wsi)"

definition lws_payload_until_length_exhausted :: "env \<Rightarrow> byte list \<Rightarrow> ws \<Rightarrow> nat \<times> byte list \<times> ws" where
  "lws_payload_until_length_exhausted env buf wsi =
     (let avail = bulk_avail env buf wsi in
      if avail = 0 then (0, buf, wsi)
      else
        let bs = take avail buf;
            wsi' = (if all_zero_nonce wsi then rx_write_at (rx_ubuf_head wsi) bs wsi
                    else
                      let msk = map (\<lambda>n. frame_mask wsi ! unat ((mask_idx wsi + of_nat n) AND 3)) [0..<4]
                      in (rx_write_at (rx_ubuf_head wsi) (unmask_chunks msk bs) wsi)
                           \<lparr>mask_idx := (mask_idx wsi + of_nat avail) AND 3\<rparr>)
        in (avail, drop avail buf,
            wsi'\<lparr>rx_ubuf_head := rx_ubuf_head wsi + avail,
                 rx_packet_length := rx_packet_length wsi - of_nat avail\<rparr>))"

text \<open>
  \<^verbatim>\<open>lws_interpret_incoming_packet\<close>. While an extension is being drained no byte is taken, so the
  loop is bounded by the fuel \<open>k\<close>; running out of it is the fault \<open>Ext_loops\<close>. Result: the
  returned value, the bytes not taken, the connection.
\<close>

fun interpret_loop :: "nat \<Rightarrow> env \<Rightarrow> byte list \<Rightarrow> ws \<Rightarrow> int \<times> byte list \<times> ws" where
  "interpret_loop 0 env buf wsi = (0, buf, (if buf = [] then wsi else set_fault Ext_loops wsi))"
| "interpret_loop (Suc k) env buf wsi =
     (if buf = [] then (0, [], wsi)
      else if \<not> rxflow_allow wsi then (1, buf, snd (lws_rxflow_cache env buf wsi))
      else if rx_draining_ext wsi then
        (case lws_rx_sm env 0 wsi of (m, wsi) \<Rightarrow>
           if m < 0 then (-1, buf, wsi) else interpret_loop k env buf wsi)
      else
        let wsi = (if rxflow_buffer wsi \<noteq> None then wsi\<lparr>rxflow_pos := rxflow_pos wsi + 1\<rparr> else wsi);
            (m, buf, wsi) =
              (if lws_rx_parse_state wsi = RXPS_PAYLOAD_UNTIL_LENGTH_EXHAUSTED
               then lws_payload_until_length_exhausted env buf wsi else (0, buf, wsi));
            wsi = (if rxflow_buffer wsi \<noteq> None then wsi\<lparr>rxflow_pos := rxflow_pos wsi + int m\<rparr> else wsi)
        in case lws_rx_sm env (hd buf) wsi of (m, wsi) \<Rightarrow>
             if m < 0 then (-1, tl buf, wsi) else interpret_loop k env (tl buf) wsi)"

definition lws_interpret_incoming_packet :: "env \<Rightarrow> byte list \<Rightarrow> ws \<Rightarrow> int \<times> byte list \<times> ws" where
  "lws_interpret_incoming_packet env buf wsi =
     interpret_loop (length buf + ext_rounds env) env buf wsi"


subsection \<open>Invariants of the receiver\<close>

context conn_frame
begin

lemma api [simp]: "P wsi \<Longrightarrow> P (run_api env a wsi)"
  by (cases a) (simp_all add: run_api_def)

lemma apis [simp]: "P wsi \<Longrightarrow> P (fold (run_api env) apis wsi)"
  by (induction apis arbitrary: wsi) simp_all

end

text \<open>A predicate that is also kept when the application is called.\<close>

locale app_frame = conn_frame +
  assumes callback [simp]: "P wsi \<Longrightarrow> P (log_event (Ev_callback reason data) wsi)"
begin

lemma protocol_cb [simp]: "P wsi \<Longrightarrow> P (snd (protocol_callback env reason data wsi))"
  by (simp add: protocol_callback_def split: prod.split)

lemma user_cb_rxflow [simp]: "P wsi \<Longrightarrow> P (snd (user_callback_handle_rxflow env reason data wsi))"
proof -
  assume P: "P wsi"
  obtain n w where e: "protocol_callback env reason data wsi = (n, w)" by (rule prod.exhaust)
  then have "P w" using protocol_cb [OF P] by (metis snd_conv)
  then show ?thesis by (simp add: user_callback_handle_rxflow_def e)
qed

end

text \<open>
  The buffer and its fill level. \<open>rx_ubuf_alloc\<close> is set to the spill size and \<^verbatim>\<open>LWS_PRE\<close> when
  the connection is upgraded, and the allocation has four more bytes.
\<close>

definition rx_inv :: "env \<Rightarrow> ws \<Rightarrow> bool" where
  "rx_inv env wsi \<longleftrightarrow> ws_ok wsi \<and> rx_ubuf_alloc wsi = rx_limit env + LWS_PRE \<and>
     length (rx_ubuf wsi) = rx_limit env + 4 \<and> rx_ubuf_head wsi \<le> rx_limit env"

text \<open>
  The contract of an extension's receive callback: it leaves \<^verbatim>\<open>token\<close> pointing somewhere, with
  at most as much behind the connection's own pointer as there was.
\<close>

definition exts_ok :: "env \<Rightarrow> bool" where
  "exts_ok env \<longleftrightarrow> (\<forall>x \<in> set (exts env). \<forall>wsi r t.
     (token t \<noteq> None \<longrightarrow> token (snd (x wsi r t)) \<noteq> None) \<and>
     (moved t \<longrightarrow> moved (snd (x wsi r t))) \<and>
     (token (snd (x wsi r t)) = None \<longrightarrow> token_len (snd (x wsi r t)) = 0) \<and>
     (\<not> moved (snd (x wsi r t)) \<longrightarrow> token_len (snd (x wsi r t)) \<le> max 0 (token_len t)))"

definition tok_le :: "tokens \<Rightarrow> tokens \<Rightarrow> bool" where
  "tok_le t t' \<longleftrightarrow> (token t \<noteq> None \<longrightarrow> token t' \<noteq> None) \<and> (moved t \<longrightarrow> moved t') \<and>
     (token t' = None \<longrightarrow> token_len t' = 0) \<and> (\<not> moved t' \<longrightarrow> token_len t' \<le> max 0 (token_len t))"

lemma ext_active_tok:
  assumes "exts_ok env" and "lws_ext_cb_active env reason t wsi = (m, t', wsi')"
    and "token t = None \<longrightarrow> token_len t = 0"
  shows "tok_le t t'"
proof -
  have "(\<forall>x \<in> set xs. \<forall>wsi r t. tok_le t (snd (x wsi r t))) \<Longrightarrow> (token t = None \<longrightarrow> token_len t = 0) \<Longrightarrow>
      ext_cb_loop xs reason h t wsi = (m, t', wsi') \<Longrightarrow> tok_le t t'" for xs h
  proof (induction xs reason h t wsi rule: ext_cb_loop.induct)
    case (1 reason handled arg wsi)
    then show ?case by (auto simp: tok_le_def)
  next
    case (2 x xs reason handled arg wsi)
    obtain k a where x: "x wsi reason arg = (k, a)" by (rule prod.exhaust)
    then have le: "tok_le arg a" using 2(2) by (metis list.set_intros(1) snd_conv)
    show ?case
    proof (cases "k < 0")
      case True
      then show ?thesis using 2(4) x le by simp
    next
      case False
      then have "tok_le a t'"
        using 2(1) [OF x [symmetric] refl False] 2(2,4) x le by (auto simp: Let_def tok_le_def)
      then show ?thesis using le by (auto simp: tok_le_def)
    qed
  qed
  moreover have "\<forall>x \<in> set (exts env). \<forall>wsi r t. tok_le t (snd (x wsi r t))"
    using assms(1) unfolding exts_ok_def tok_le_def by blast
  ultimately show ?thesis using assms(2,3) by (simp add: lws_ext_cb_active_def)
qed

lemma rx_inv_frame:
  "rx_part wsi' = rx_part wsi \<Longrightarrow> ws_ok wsi' \<Longrightarrow> rx_inv env wsi \<Longrightarrow> rx_inv env wsi'"
  by (simp add: rx_inv_def rx_part_def)

interpretation inv: app_frame "rx_inv env" for env
proof (unfold_locales)
qed (auto simp add: rx_inv_def ws_ok_def log_event_def set_fault_def lws_close_reason_def Let_def split: option.split)

lemma rx_inv_update [simp]:
  "rx_inv env wsi \<Longrightarrow> rx_inv env (lws_rx_parse_state_update f1 wsi)"
  "rx_inv env wsi \<Longrightarrow> rx_inv env (opcode_update f2 wsi)"
  "rx_inv env wsi \<Longrightarrow> rx_inv env (rsv_update f2 wsi)"
  "rx_inv env wsi \<Longrightarrow> rx_inv env (rsv_first_msg_update f2 wsi)"
  "rx_inv env wsi \<Longrightarrow> rx_inv env (final_update f3 wsi)"
  "rx_inv env wsi \<Longrightarrow> rx_inv env (frame_is_binary_update f3 wsi)"
  "rx_inv env wsi \<Longrightarrow> rx_inv env (all_zero_nonce_update f3 wsi)"
  "rx_inv env wsi \<Longrightarrow> rx_inv env (this_frame_masked_update f3 wsi)"
  "rx_inv env wsi \<Longrightarrow> rx_inv env (rx_packet_length_update f4 wsi)"
  "rx_inv env wsi \<Longrightarrow> rx_inv env (rx_draining_ext_update f3 wsi)"
  "rx_inv env wsi \<Longrightarrow> rx_inv env (rx_draining_ext_list_update f5 wsi)"
  "rx_inv env wsi \<Longrightarrow> rx_inv env (wsi_state_update f6 wsi)"
  "rx_inv env wsi \<Longrightarrow> rx_inv env (payload_is_close_update f3 wsi)"
  "rx_inv env wsi \<Longrightarrow> rx_inv env (ping_pending_flag_update f3 wsi)"
  "rx_inv env wsi \<Longrightarrow> rx_inv env (rx_ubuf_head_update (\<lambda>_. 0) wsi)"
  "rx_inv env wsi \<Longrightarrow> length m = 4 \<Longrightarrow> rx_inv env (frame_mask_update (\<lambda>_. m) wsi)"
  by (simp_all add: rx_inv_def ws_ok_def)

lemma rx_inv_put: "rx_inv env wsi \<Longrightarrow> i < rx_limit env + 4 \<Longrightarrow> rx_inv env (rx_put i c wsi)"
  by (simp add: rx_put_def rx_inv_def ws_ok_def)

lemma rx_inv_terminate:
  assumes "rx_inv env wsi" and "token t \<noteq> None" and "\<not> moved t \<Longrightarrow> token_len t \<le> int (rx_ubuf_head wsi)"
  shows "rx_inv env (terminate_token t wsi)"
proof -
  have "\<not> moved t \<Longrightarrow> nat (token_len t) < rx_limit env + 4"
    using assms(1,3) by (auto simp: rx_inv_def)
  then show ?thesis
    using assms(1,2) by (auto simp: terminate_token_def intro: rx_inv_put)
qed

lemma rx_inv_drain:
  assumes "exts_ok env" and "rx_inv env wsi" and "token t = None \<longrightarrow> token_len t = 0"
    and "token_len t \<le> int (rx_ubuf_head wsi)" and "token t = None \<longrightarrow> act \<noteq> CB_RECEIVE_PONG"
  shows "rx_inv env (snd (rx_drain_extension env act d t wsi))"
proof -
  obtain n t' w where e: "lws_ext_cb_active env EXT_CB_PAYLOAD_RX t wsi = (n, t', w)"
    by (rule prod_cases3)
  have w: "rx_inv env w" using inv.ext_active [OF e assms(2)] .
  have head: "rx_ubuf_head w = rx_ubuf_head wsi"
    using rx.ext_active [OF e refl] by (simp add: rx_part_def)
  have tok: "tok_le t t'" using ext_active_tok [OF assms(1) e assms(3)] .
  define w2 where "w2 = (if n \<noteq> 0 \<and> token_len t' \<noteq> 0 then
        w\<lparr>rx_draining_ext := True, rx_draining_ext_list := wsi_id w # rx_draining_ext_list w\<rparr> else w)"
  have w2: "rx_inv env w2" "rx_ubuf_head w2 = rx_ubuf_head wsi"
    using w head by (simp_all add: w2_def)
  have tm: "rx_inv env (terminate_token t' w2)" if "0 < token_len t' \<or> act = CB_RECEIVE_PONG"
    using that tok assms(3-5) w2 by (intro rx_inv_terminate) (auto simp: tok_le_def)
  obtain k u where u: "user_callback_handle_rxflow env act
      (take (nat (token_len t')) (case token t' of None \<Rightarrow> [] | Some bs \<Rightarrow> bs)) (terminate_token t' w2) = (k, u)"
    by (rule prod.exhaust)
  then have cb: "rx_inv env u" if "0 < token_len t' \<or> act = CB_RECEIVE_PONG"
    using inv.user_cb_rxflow [OF tm [OF that]] by (metis snd_conv)
  show ?thesis
    unfolding rx_drain_extension_def e prod.case Let_def w2_def [symmetric] u
    using assms(2) w w2(1) tm cb by auto
qed

lemma rx_inv_ping:
  assumes "rx_inv env wsi"
  shows "rx_inv env (snd (rx_process_as_ping env wsi))"
proof (cases "128 - 3 < rx_ubuf_head wsi")
  case True
  then show ?thesis using assms by (simp add: rx_process_as_ping_def)
next
  case False
  have "rx_inv env (wsi\<lparr>ping_payload_buf := rx_payload wsi @ drop (rx_ubuf_head wsi) (ping_payload_buf wsi),
      ping_payload_len := rx_ubuf_head wsi, ping_pending_flag := True\<rparr>)"
    using assms False by (auto simp: rx_inv_def ws_ok_def rx_payload_def)
  then show ?thesis
    using False assms by (auto simp: rx_process_as_ping_def Let_def rx_inv_def [of _ wsi] ws_ok_def [of wsi])
qed

lemma rx_inv_spill:
  assumes "exts_ok env" and "rx_inv env wsi"
  shows "rx_inv env (snd (rx_spill env wsi))"
proof -
  obtain n w where e: "user_callback_handle_rxflow env CB_WS_PEER_INITIATED_CLOSE (rx_payload wsi) wsi = (n, w)"
    by (rule prod.exhaust)
  have w: "rx_inv env w" using inv.user_cb_rxflow [OF assms(2)] e by (metis snd_conv)
  have close: "rx_inv env (snd (rx_spill_close env wsi))"
    unfolding rx_spill_close_def e prod.case using assms(2) w by (simp add: rx_inv_ping)
  have pong: "rx_inv env (rx_pong_timeout env wsi)" "rx_ubuf_head (rx_pong_timeout env wsi) = rx_ubuf_head wsi"
    using assms(2) rx.set_timeout [of wsi "rx_part wsi" env NO_PENDING_TIMEOUT 0]
    by (auto simp: rx_pong_timeout_def rx_part_def)
  obtain n' t' w' where e': "lws_ext_cb_active env EXT_CB_EXTENDED_PAYLOAD_RX (rx_tokens wsi) wsi = (n', t', w')"
    by (rule prod_cases3)
  have w': "rx_inv env w'" using inv.ext_active [OF e' assms(2)] .
  show ?thesis
    unfolding rx_spill_def e' prod.case Let_def
    using close assms w' pong by (simp add: rx_inv_ping rx_inv_drain rx_tokens_def)
qed

lemma rx_store_inv:
  assumes "rx_inv env wsi" and "rx_ubuf_head wsi + LWS_PRE < rx_ubuf_alloc wsi"
  shows "rx_inv env (rx_store c wsi)"
  using assms by (auto simp: rx_store_def rx_put_def rx_inv_def ws_ok_def Let_def)

lemma rx_sm_keeps:
  assumes "exts_ok env" and "rx_inv env wsi" and "lws_rx_sm env c wsi = (r, wsi')"
  shows "rx_inv env wsi'"
proof -
  have "length (frame_mask wsi) = 4" using assms(2) by (simp add: rx_inv_def ws_ok_def)
  moreover have "rx_inv env (snd (rx_hdr_len env c wsi))"
    using assms(1,2) by (simp add: rx_hdr_len_def Let_def rx_inv_spill)
  moreover have "rx_inv env (snd (rx_first c w))" if "rx_inv env w" for w
    using that by (simp add: rx_first_def Let_def)
  moreover from this have "rx_inv env (snd (rx_new env c wsi))"
    using assms(1,2) by (simp add: rx_new_def rx_inv_drain no_tokens_def)
  moreover have "rx_inv env (snd (rx_payload_byte env c wsi))"
    using assms(1,2) by (simp add: rx_payload_byte_def Let_def rx_inv_spill rx_store_inv)
  ultimately have "rx_inv env (snd (lws_rx_sm env c wsi))"
    using assms(1,2)
    by (simp add: lws_rx_sm_def rx_mask_byte_def rx_len_byte_def rx_after_len_def Let_def rx_inv_spill
        split: rx_parse_state.split)
  then show ?thesis using assms(3) by simp
qed

text \<open>C5: no byte sequence makes the server's frame parser write outside of the connection's
  buffers: every step keeps the fill level within the spill size, the stored pong within its 125
  bytes and the mask at four bytes, in every state, with an arbitrary application callback.\<close>

theorem rx_sm_inv:
  assumes "exts_ok env" and "rx_inv env wsi" and "lws_rx_sm env c wsi = (r, wsi')"
  shows "rx_inv env wsi'"
  using assms by (rule rx_sm_keeps)


subsection \<open>Bulk payload is payload byte by byte\<close>

definition rx_step :: "env \<Rightarrow> ws \<Rightarrow> byte \<Rightarrow> ws + ws" where
  "rx_step env wsi c = (case lws_rx_sm env c wsi of (r, wsi') \<Rightarrow> if r < 0 then Inl wsi' else Inr wsi')"

interpretation rx_machine: byte_machine "rx_step env" "\<lambda>wsi. exts_ok env \<and> rx_inv env wsi" for env
  by unfold_locales (auto simp: rx_step_def intro: rx_sm_keeps split: prod.splits if_splits)

lemma and3_add4: "(i + 4) AND 3 = i AND (3 :: byte)"
proof -
  have "(unat i + 4) mod 256 mod 4 = unat i mod 4" by (simp add: mod_mod_cancel)
  then show ?thesis
    unfolding byte_eq_iff unat_and_mask_byte by (simp add: unat_word_ariths)
qed

lemma mask_payload_add4: "mask_payload m (i + 4) bs = mask_payload m i bs"
proof (induction bs arbitrary: i)
  case (Cons b bs)
  have "mask_payload m (i + 4 + 1) bs = mask_payload m (i + 1) bs"
    using Cons [of "i + 1"] by (simp add: add.assoc add.commute [of 4])
  then show ?case by (simp add: and3_add4)
qed simp

lemma unmask_chunks_payload:
  assumes "length m = 4" and "msk = map (\<lambda>n. m ! unat ((i + of_nat n) AND 3)) [0..<4]"
  shows "unmask_chunks msk bs = mask_payload m i bs"
proof -
  have msk: "msk = [m ! unat (i AND 3), m ! unat ((i + 1) AND 3), m ! unat ((i + 2) AND 3), m ! unat ((i + 3) AND 3)]"
  proof -
    have "[0..<4] = [0, 1, 2, 3]" by code_simp
    then show ?thesis unfolding assms(2) by simp
  qed
  have i: "i + 1 + 1 = i + 2" "i + 2 + 1 = i + 3" "i + 3 + 1 = i + 4" by simp_all
  show ?thesis
    using msk
    by (induction msk bs rule: unmask_chunks.induct)
      (simp_all add: i mask_payload_add4)
qed

text \<open>The connection after storing payload that neither ends the frame nor fills the buffer.\<close>

definition rx_data :: "byte list \<Rightarrow> ws \<Rightarrow> byte list" where
  "rx_data bs wsi = (if all_zero_nonce wsi then bs else mask_payload (frame_mask wsi) (mask_idx wsi) bs)"

definition rx_stored :: "byte list \<Rightarrow> ws \<Rightarrow> ws" where
  "rx_stored bs wsi = wsi\<lparr>
     rx_ubuf := take (rx_ubuf_head wsi) (rx_ubuf wsi) @ rx_data bs wsi @
       drop (rx_ubuf_head wsi + length bs) (rx_ubuf wsi),
     rx_ubuf_head := rx_ubuf_head wsi + length bs,
     mask_idx := (if all_zero_nonce wsi then mask_idx wsi else mask_idx wsi + of_nat (length bs)),
     rx_packet_length := rx_packet_length wsi - of_nat (length bs)\<rparr>"

lemma length_mask_payload [simp]: "length (mask_payload m i bs) = length bs"
  by (induction bs arbitrary: i) simp_all

lemma rx_store_stored:
  assumes "rx_ubuf_head wsi < length (rx_ubuf wsi)"
  shows "(rx_store c wsi)\<lparr>rx_packet_length := rx_packet_length wsi - 1\<rparr> = rx_stored [c] wsi"
  using assms
  by (cases "all_zero_nonce wsi")
    (simp_all add: rx_store_def rx_put_def rx_stored_def rx_data_def Let_def upd_conv_take_nth_drop)

lemma splice_Cons:
  assumes "h < length xs"
  shows "take (h + 1) (take h xs @ [y] @ drop (h + 1) xs) = take h xs @ [y]"
    and "drop (h + 1 + k) (take h xs @ [y] @ drop (h + 1) xs) = drop (h + 1 + k) xs"
  using assms by (simp_all add: min_def add.commute)

lemma rx_stored_Cons:
  assumes "rx_ubuf_head wsi < length (rx_ubuf wsi)"
  shows "rx_stored bs (rx_stored [c] wsi) = rx_stored (c # bs) wsi"
proof -
  let ?h = "rx_ubuf_head wsi" and ?k = "length bs"
  obtain y where y: "rx_data [c] wsi = [y]" "rx_data (c # bs) wsi = y # rx_data bs (rx_stored [c] wsi)"
    by (cases "all_zero_nonce wsi") (simp_all add: rx_data_def rx_stored_def)
  let ?buf = "take ?h (rx_ubuf wsi) @ [y] @ drop (?h + 1) (rx_ubuf wsi)"
  have one: "rx_ubuf (rx_stored [c] wsi) = ?buf" "rx_ubuf_head (rx_stored [c] wsi) = ?h + 1"
    by (simp_all add: rx_stored_def y)
  have ubuf: "take (?h + 1) ?buf @ rx_data bs (rx_stored [c] wsi) @ drop (?h + 1 + ?k) ?buf =
      take ?h (rx_ubuf wsi) @ rx_data (c # bs) wsi @ drop (?h + length (c # bs)) (rx_ubuf wsi)"
    unfolding splice_Cons [OF assms] by (simp add: y)
  have idx: "mask_idx wsi + 1 + of_nat ?k = mask_idx wsi + of_nat (Suc ?k)"
    "rx_packet_length wsi - 1 - of_nat ?k = rx_packet_length wsi - of_nat (Suc ?k)" by simp_all
  have "rx_stored bs (rx_stored [c] wsi) = (rx_stored [c] wsi)\<lparr>
      rx_ubuf := take (?h + 1) ?buf @ rx_data bs (rx_stored [c] wsi) @ drop (?h + 1 + ?k) ?buf,
      rx_ubuf_head := ?h + 1 + ?k,
      mask_idx := (if all_zero_nonce wsi then mask_idx wsi else mask_idx wsi + 1 + of_nat ?k),
      rx_packet_length := rx_packet_length wsi - 1 - of_nat ?k\<rparr>"
    unfolding rx_stored_def [of bs] one by (simp add: rx_stored_def)
  then show ?thesis
    unfolding ubuf idx by (simp add: rx_stored_def)
qed

lemma rx_payload_byte_more:
  assumes "rx_inv env wsi" and "rx_ubuf_head wsi + 1 < rx_limit env" and "1 < unat (rx_packet_length wsi)"
  shows "rx_payload_byte env c wsi = (0, rx_stored [c] wsi)"
proof -
  have h: "rx_ubuf_head wsi < length (rx_ubuf wsi)" "\<not> rx_ubuf_alloc wsi \<le> rx_ubuf_head wsi + LWS_PRE"
    using assms(1,2) by (simp_all add: rx_inv_def)
  have plen: "rx_packet_length (rx_store c wsi) = rx_packet_length wsi"
    by (simp add: rx_store_def rx_put_def Let_def set_fault_def)
  have "rx_packet_length wsi \<noteq> 1" using assms(3) by auto
  then have "rx_packet_length (rx_stored [c] wsi) \<noteq> 0" by (simp add: rx_stored_def)
  moreover have "rx_ubuf_head (rx_stored [c] wsi) \<noteq> rx_limit env"
    using assms(2) by (simp add: rx_stored_def)
  ultimately show ?thesis
    unfolding rx_payload_byte_def Let_def plen rx_store_stored [OF h(1)] using h(2) by simp
qed

lemma rx_run_payload:
  assumes "lws_rx_parse_state wsi = RXPS_PAYLOAD_UNTIL_LENGTH_EXHAUSTED"
    and "\<not> socket_is_permanently_unusable wsi" and "rx_inv env wsi"
    and "length bs < unat (rx_packet_length wsi)" and "rx_ubuf_head wsi + length bs < rx_limit env"
  shows "run_bytes (rx_step env) wsi bs = Inr (rx_stored bs wsi)"
  using assms
proof (induction bs arbitrary: wsi)
  case Nil
  then show ?case by (simp add: rx_stored_def rx_data_def)
next
  case (Cons c bs)
  let ?w = "rx_stored [c] wsi"
  have h: "rx_ubuf_head wsi < length (rx_ubuf wsi)" "rx_ubuf_head wsi + LWS_PRE < rx_ubuf_alloc wsi"
    using Cons.prems(3,5) by (simp_all add: rx_inv_def)
  have "unat (rx_packet_length wsi - 1) = unat (rx_packet_length wsi) - 1"
    using Cons.prems(4) by (simp add: unat_sub word_le_nat_alt)
  then have len: "unat (rx_packet_length ?w) = unat (rx_packet_length wsi) - 1"
    by (simp add: rx_stored_def)
  have "rx_payload_byte env c wsi = (0, ?w)"
    using Cons.prems(3-5) by (intro rx_payload_byte_more) simp_all
  then have step: "rx_step env wsi c = Inr ?w"
    using Cons.prems(1,2) by (simp add: rx_step_def lws_rx_sm_def)
  have "rx_inv env ?w"
    using rx_store_inv [OF Cons.prems(3) h(2), of c] rx_store_stored [OF h(1), of c]
    by (metis rx_inv_update(9))
  moreover have "lws_rx_parse_state ?w = lws_rx_parse_state wsi" "rx_ubuf_head ?w = rx_ubuf_head wsi + 1"
    "socket_is_permanently_unusable ?w = socket_is_permanently_unusable wsi"
    by (simp_all add: rx_stored_def)
  ultimately have "run_bytes (rx_step env) ?w bs = Inr (rx_stored bs ?w)"
    using Cons.prems len by (intro Cons.IH) simp_all
  then show ?case by (simp add: step rx_stored_Cons [OF h(1)])
qed

text \<open>C6: \<^verbatim>\<open>lws_payload_until_length_exhausted\<close>, with its unrolled unmasking loop, is the
  byte-wise state machine: the bytes it takes, given to \<^verbatim>\<open>lws_rx_sm\<close> one by one, are all accepted
  without a spill and leave the same connection, up to the mask index, which the bulk copy keeps
  modulo four.\<close>

theorem bulk_is_bytewise:
  assumes "lws_rx_parse_state wsi = RXPS_PAYLOAD_UNTIL_LENGTH_EXHAUSTED"
    and "\<not> socket_is_permanently_unusable wsi" and "rx_inv env wsi"
    and "lws_payload_until_length_exhausted env buf wsi = (n, rest, wsi')"
  shows "\<exists>i. run_bytes (rx_step env) wsi (take n buf) = Inr (wsi'\<lparr>mask_idx := i\<rparr>) \<and>
    i AND 3 = mask_idx wsi' AND 3 \<and> rest = drop n buf"
proof (cases "bulk_avail env buf wsi = 0")
  case True
  then show ?thesis
    using assms(4) by (intro exI [of _ "mask_idx wsi"]) (auto simp: lws_payload_until_length_exhausted_def)
next
  case False
  define k where "k = bulk_avail env buf wsi"
  define bs where "bs = take k buf"
  have k: "k < unat (rx_packet_length wsi)" "k \<le> length buf" "rx_ubuf_head wsi + k < rx_limit env"
    using False by (auto simp: k_def bulk_avail_def Let_def split: if_splits)
  then have bs: "length bs = k" by (simp add: bs_def)
  have m: "length (frame_mask wsi) = 4" and fit: "rx_ubuf_head wsi + length bs \<le> length (rx_ubuf wsi)"
    using assms(3) k bs by (simp_all add: rx_inv_def ws_ok_def)
  have run: "run_bytes (rx_step env) wsi bs = Inr (rx_stored bs wsi)"
    using assms(1-3) k bs by (intro rx_run_payload) simp_all
  have len: "length (unmask_chunks (map (\<lambda>n. frame_mask wsi ! unat (mask_idx wsi + of_nat n AND 3)) [0..<4]) bs) = length bs"
    unfolding unmask_chunks_payload [OF m refl] by simp
  have res: "(n, rest, wsi') = (k, drop k buf, (rx_stored bs wsi)
      \<lparr>mask_idx := (if all_zero_nonce wsi then mask_idx wsi else (mask_idx wsi + of_nat k) AND 3)\<rparr>)"
    using False fit len
    unfolding assms(4) [symmetric] lws_payload_until_length_exhausted_def Let_def k_def [symmetric]
      bs_def [symmetric] rx_stored_def rx_data_def rx_write_at_def bs
    by (simp add: unmask_chunks_payload [OF m refl] bs)
  have "(rx_stored bs wsi) = wsi'\<lparr>mask_idx := mask_idx (rx_stored bs wsi)\<rparr>"
    using res by (simp add: rx_stored_def)
  moreover have "mask_idx (rx_stored bs wsi) AND 3 = mask_idx wsi' AND 3"
    using res bs by (simp add: rx_stored_def and.assoc)
  ultimately show ?thesis
    using run res by (intro exI [of _ "mask_idx (rx_stored bs wsi)"]) (simp add: bs_def)
qed


lemma plain_rx_inv: "rx_inv (plain_env lim) (plain_conn m)"
  by (simp add: rx_inv_def ws_ok_def plain_conn_def plain_env_def lws_union_transition_def
      lws_create_new_server_wsi_def rx_limit_def LWS_PRE_def)

lemma plain_exts_ok: "exts_ok (plain_env lim)"
  by (simp add: exts_ok_def)

theorem rx_sm_inv_witness:
  "rx_inv (plain_env 9) (snd (lws_rx_sm (plain_env 9) 0x81 (plain_conn LWSCM_WS_SERVING))) \<and>
   fst (lws_rx_sm (plain_env 9) 0x81 (plain_conn LWSCM_WS_SERVING)) = 0"
proof -
  have "fst (lws_rx_sm (plain_env 9) 0x81 (plain_conn LWSCM_WS_SERVING)) = 0" by code_simp
  then show ?thesis
    using rx_sm_inv [OF plain_exts_ok plain_rx_inv prod.collapse [symmetric]] by blast
qed

text \<open>A server in the payload of a masked frame of nine bytes.\<close>

definition mid_frame :: ws where
  "mid_frame = (plain_conn LWSCM_WS_SERVING)\<lparr>lws_rx_parse_state := RXPS_PAYLOAD_UNTIL_LENGTH_EXHAUSTED,
     opcode := 1, frame_mask := [1, 2, 3, 4], rx_packet_length := 9\<rparr>"

theorem bulk_is_bytewise_witness:
  "\<exists>i w. run_bytes (rx_step (plain_env 9)) mid_frame [65, 66, 67, 68, 69, 70] = Inr (w\<lparr>mask_idx := i\<rparr>) \<and>
     rx_payload w = [64, 64, 64, 64, 68, 68] \<and> rx_ubuf_head w = 6 \<and> i AND 3 = 2"
proof -
  have inv: "rx_inv (plain_env 9) mid_frame" using plain_rx_inv by (simp add: mid_frame_def)
  have s: "lws_rx_parse_state mid_frame = RXPS_PAYLOAD_UNTIL_LENGTH_EXHAUSTED"
    "\<not> socket_is_permanently_unusable mid_frame"
    by (simp_all add: mid_frame_def plain_conn_def lws_union_transition_def lws_create_new_server_wsi_def)
  obtain n rest w where r: "lws_payload_until_length_exhausted (plain_env 9)
      [65, 66, 67, 68, 69, 70, 71] mid_frame = (n, rest, w)"
    by (rule prod_cases3)
  moreover have "fst (lws_payload_until_length_exhausted (plain_env 9) [65, 66, 67, 68, 69, 70, 71] mid_frame) = 6"
    "rx_payload (snd (snd (lws_payload_until_length_exhausted (plain_env 9) [65, 66, 67, 68, 69, 70, 71] mid_frame)))
       = [64, 64, 64, 64, 68, 68]"
    "rx_ubuf_head (snd (snd (lws_payload_until_length_exhausted (plain_env 9) [65, 66, 67, 68, 69, 70, 71] mid_frame)))
       = 6"
    "mask_idx (snd (snd (lws_payload_until_length_exhausted (plain_env 9) [65, 66, 67, 68, 69, 70, 71] mid_frame)))
       AND 3 = 2"
    by code_simp+
  ultimately have w: "n = 6" "rx_payload w = [64, 64, 64, 64, 68, 68]" "rx_ubuf_head w = 6" "mask_idx w AND 3 = 2"
    by simp_all
  obtain i where "run_bytes (rx_step (plain_env 9)) mid_frame (take 6 [65, 66, 67, 68, 69, 70, 71]) =
      Inr (w\<lparr>mask_idx := i\<rparr>)" "i AND 3 = 2"
    using bulk_is_bytewise [OF s inv r] w by auto
  then show ?thesis
    using w by (intro exI [of _ i] exI [of _ w]) simp
qed

end
