(* ===== verification/Ws_Frames.thy ===== *)
theory Ws_Frames
  imports Ws_Rx
begin

text \<open>
  Whole frames through the server's receiver: what \<^verbatim>\<open>lws_write\<close> of a client puts on the wire
  (\<open>tx_frame\<close>), read by \<^verbatim>\<open>lws_rx_sm\<close> byte by byte: data frames, pings, the close handshake, and
  the header bytes that are refused.
\<close>

subsection \<open>A client's frame, read by the server\<close>

text \<open>The connection when the header and mask of a masked frame have been read.\<close>

definition rx_opened :: "byte \<Rightarrow> u64 \<Rightarrow> byte list \<Rightarrow> ws \<Rightarrow> ws" where
  "rx_opened c len msk wsi = wsi\<lparr>
     opcode := c AND 0xf, rsv := c AND 0x70, final := (drop_bit 7 c AND 1 \<noteq> 0),
     rsv_first_msg := (if c AND 0xf = 1 \<or> c AND 0xf = 2 then c AND 0x70 else rsv_first_msg wsi),
     frame_is_binary := (if c AND 0xf = 1 \<or> c AND 0xf = 2 then c AND 0xf = 2 else frame_is_binary wsi),
     this_frame_masked := True, all_zero_nonce := (msk = [0, 0, 0, 0]), frame_mask := msk,
     mask_idx := 0, rx_packet_length := len,
     lws_rx_parse_state := RXPS_PAYLOAD_UNTIL_LENGTH_EXHAUSTED\<rparr>"

definition rx_idle :: "ws \<Rightarrow> bool" where
  "rx_idle wsi \<longleftrightarrow> lws_rx_parse_state wsi = RXPS_NEW \<and> \<not> socket_is_permanently_unusable wsi \<and>
     \<not> rx_draining_ext wsi \<and> ietf_spec_revision wsi = 13"

lemma rx_first_step:
  assumes "rx_idle wsi" and "c AND 0xf \<in> {0, 1, 2, 8, 9, 10}"
  shows "rx_step env wsi c = Inr (wsi\<lparr>
     opcode := c AND 0xf, rsv := c AND 0x70, final := (drop_bit 7 c AND 1 \<noteq> 0),
     rsv_first_msg := (if c AND 0xf = 1 \<or> c AND 0xf = 2 then c AND 0x70 else rsv_first_msg wsi),
     frame_is_binary := (if c AND 0xf = 1 \<or> c AND 0xf = 2 then c AND 0xf = 2 else frame_is_binary wsi),
     all_zero_nonce := True, lws_rx_parse_state := RXPS_04_FRAME_HDR_LEN\<rparr>)"
  using assms by (auto simp: rx_step_def lws_rx_sm_def rx_new_def rx_first_def rx_idle_def Let_def)

lemma length4: "length m = 4 \<Longrightarrow> \<exists>a b c d. m = [a, b, c, d]"
  by (auto simp: numeral_eq_Suc length_Suc_conv)

lemma rx_mask_run:
  assumes "lws_rx_parse_state wsi = RXPS_07_COLLECT_FRAME_KEY_1" and "\<not> socket_is_permanently_unusable wsi"
    and "length msk = 4" and "length (frame_mask wsi) = 4" and "all_zero_nonce wsi"
    and "rx_packet_length wsi \<noteq> 0"
  shows "run_bytes (rx_step env) wsi msk = Inr (wsi\<lparr>all_zero_nonce := (msk = [0, 0, 0, 0]),
    frame_mask := msk, mask_idx := 0, lws_rx_parse_state := RXPS_PAYLOAD_UNTIL_LENGTH_EXHAUSTED\<rparr>)"
proof -
  obtain a b c d where "msk = [a, b, c, d]" using length4 [OF assms(3)] by blast
  moreover obtain a' b' c' d' where "frame_mask wsi = [a', b', c', d']" using length4 [OF assms(4)] by blast
  ultimately show ?thesis
    using assms(1,2,5,6) by (simp add: rx_step_def lws_rx_sm_def rx_mask_byte_def Let_def)
qed

lemma rx_header_run:
  assumes "rx_idle wsi" and "rx_inv env wsi" and "length msk = 4" and "0 < unat len" and "unat len < 2 ^ 63"
    and "opc \<in> {0, 1, 2, 8, 9, 10}" and "opc AND 8 = 0 \<or> unat len < 126"
  shows "run_bytes (rx_step env) wsi (frame_header opc wp 0x80 len @ msk) =
    Inr (rx_opened (if wp AND LWS_WRITE_NO_FIN = 0 then opc OR 0x80 else opc) len msk wsi)"
proof -
  define c where "c = (if wp AND LWS_WRITE_NO_FIN = 0 then opc OR 0x80 else opc)"
  have c: "c AND 0xf = opc" using assms(6) by (auto simp: c_def)
  have fm: "length (frame_mask wsi) = 4" using assms(2) by (simp add: rx_inv_def ws_ok_def)
  define w where "w = wsi\<lparr>
     opcode := c AND 0xf, rsv := c AND 0x70, final := (drop_bit 7 c AND 1 \<noteq> 0),
     rsv_first_msg := (if c AND 0xf = 1 \<or> c AND 0xf = 2 then c AND 0x70 else rsv_first_msg wsi),
     frame_is_binary := (if c AND 0xf = 1 \<or> c AND 0xf = 2 then c AND 0xf = 2 else frame_is_binary wsi),
     all_zero_nonce := True, lws_rx_parse_state := RXPS_04_FRAME_HDR_LEN\<rparr>"
  have first: "rx_step env wsi c = Inr w"
    unfolding w_def using assms(1,6) c by (intro rx_first_step) auto
  have w: "lws_rx_parse_state w = RXPS_04_FRAME_HDR_LEN" "\<not> socket_is_permanently_unusable w"
    "opcode w = opc" "frame_mask w = frame_mask wsi" "all_zero_nonce w"
    using assms(1) c by (simp_all add: w_def rx_idle_def)
  have nz: "len \<noteq> 0" using assms(4) by auto
  have len: "run_bytes (rx_step env) w (tl (frame_header opc wp 0x80 len)) = Inr (w\<lparr>
      this_frame_masked := True, rx_packet_length := len, lws_rx_parse_state := RXPS_07_COLLECT_FRAME_KEY_1\<rparr>)"
  proof (cases "unat len < 126")
    case True
    have "unat len < 128" using True by simp
    note b = len7_bits [OF this]
    have "ucast len \<noteq> (126 :: byte)" "ucast len \<noteq> (127 :: byte)"
      using True b(6) by auto
    moreover have "len < 126" using True by (simp add: word_less_nat_alt)
    ultimately show ?thesis
      using w by (simp add: frame_header_def Let_def rx_step_def lws_rx_sm_def rx_hdr_len_def b)
  next
    case False
    then have big: "\<not> len < 126" "opc AND 8 = 0" using assms(7) by (simp_all add: word_less_nat_alt)
    show ?thesis
    proof (cases "unat len < 65536")
      case True
      have "len < 65536" using True by (simp add: word_less_nat_alt)
      with big w show ?thesis
        using len16_bits [OF True]
        by (simp add: frame_header_def Let_def rx_step_def lws_rx_sm_def rx_hdr_len_def rx_len_byte_def
            rx_after_len_def)
    next
      case False
      have "\<not> len < 65536" using False by (simp add: word_less_nat_alt)
      with big w show ?thesis
        using len64_bits [OF assms(5)]
        by (simp add: and.assoc frame_header_def Let_def rx_step_def lws_rx_sm_def rx_hdr_len_def rx_len_byte_def
            rx_after_len_def)
    qed
  qed
  have hdr: "frame_header opc wp 0x80 len = c # tl (frame_header opc wp 0x80 len)"
    by (simp add: frame_header_def Let_def c_def)
  have "run_bytes (rx_step env) wsi (frame_header opc wp 0x80 len @ msk) =
     run_bytes (rx_step env) (w\<lparr>this_frame_masked := True, rx_packet_length := len,
       lws_rx_parse_state := RXPS_07_COLLECT_FRAME_KEY_1\<rparr>) msk"
    by (subst hdr) (simp add: first run_bytes_append len)
  also have "\<dots> = Inr (rx_opened c len msk wsi)"
    using assms(3) fm w nz by (subst rx_mask_run) (simp_all add: rx_opened_def w_def)
  finally show ?thesis by (simp add: c_def)
qed


text \<open>Only what belongs to the frame being read differs.\<close>

definition rx_only :: "ws \<Rightarrow> ws \<Rightarrow> bool" where
  "rx_only w wsi \<longleftrightarrow> w = wsi\<lparr>
     opcode := opcode w, rsv := rsv w, final := final w, rsv_first_msg := rsv_first_msg w,
     frame_is_binary := frame_is_binary w, this_frame_masked := this_frame_masked w,
     all_zero_nonce := all_zero_nonce w, frame_mask := frame_mask w, mask_idx := mask_idx w,
     rx_packet_length := rx_packet_length w, lws_rx_parse_state := lws_rx_parse_state w,
     rx_ubuf := rx_ubuf w, rx_ubuf_head := rx_ubuf_head w\<rparr>"

lemma rx_only_state:
  assumes "rx_only w wsi"
  shows "wsi_state w = wsi_state wsi" "ping_pending_flag w = ping_pending_flag wsi"
    "trunc_len w = trunc_len wsi" "ws_log w = ws_log wsi" "wire w = wire wsi"
  by (subst assms [unfolded rx_only_def], simp)+

lemma mask_payload_twice: "mask_payload m i (mask_payload m i bs) = bs"
  by (induction bs arbitrary: i) (simp_all add: xor.assoc)

lemma and3_less: "unat (i AND 3 :: byte) < 4"
  by (simp add: unat_and_mask_byte)

lemma mask_payload_zero: "mask_payload [0, 0, 0, 0] i bs = bs"
proof (induction bs arbitrary: i)
  case (Cons b bs)
  have "unat (i AND 3) \<in> {0, 1, 2, 3}" using and3_less [of i] by auto
  then have "[0, 0, 0, 0 :: byte] ! unat (i AND 3) = 0" by auto
  then show ?case using Cons by simp
qed simp

lemma rx_payload_byte_last:
  assumes "rx_inv env wsi" and "rx_ubuf_head wsi < rx_limit env" and "rx_packet_length wsi = 1"
  shows "rx_payload_byte env c wsi = rx_spill env ((rx_stored [c] wsi)\<lparr>lws_rx_parse_state := RXPS_NEW\<rparr>)"
proof -
  have h: "rx_ubuf_head wsi < length (rx_ubuf wsi)" "\<not> rx_ubuf_alloc wsi \<le> rx_ubuf_head wsi + LWS_PRE"
    using assms(1,2) by (simp_all add: rx_inv_def)
  have plen: "rx_packet_length (rx_store c wsi) = rx_packet_length wsi"
    by (simp add: rx_store_def rx_put_def Let_def set_fault_def)
  have "rx_packet_length (rx_stored [c] wsi) = 0" using assms(3) by (simp add: rx_stored_def)
  then show ?thesis
    unfolding rx_payload_byte_def Let_def plen rx_store_stored [OF h(1)] using h(2) by simp
qed

lemma rx_opened_inv:
  "rx_inv env wsi \<Longrightarrow> length msk = 4 \<Longrightarrow> rx_inv env (rx_opened c len msk wsi)"
  by (simp add: rx_opened_def)

lemma rx_stored_append:
  assumes "rx_ubuf_head wsi + length bs < length (rx_ubuf wsi)"
  shows "rx_stored [c] (rx_stored bs wsi) = rx_stored (bs @ [c]) wsi"
  using assms
proof (induction bs arbitrary: wsi)
  case Nil
  have "rx_stored [] wsi = wsi" by (simp add: rx_stored_def rx_data_def)
  then show ?case by simp
next
  case (Cons b bs)
  have h: "rx_ubuf_head wsi < length (rx_ubuf wsi)" using Cons.prems by simp
  have "length (rx_data [b] wsi) = 1" by (simp add: rx_data_def)
  then have "rx_ubuf_head (rx_stored [b] wsi) + length bs < length (rx_ubuf (rx_stored [b] wsi))"
    using Cons.prems by (simp add: rx_stored_def)
  from Cons.IH [OF this] show ?case
    by (simp add: rx_stored_Cons [OF h])
qed

lemma rx_frame_run:
  assumes "exts_ok env" and "rx_idle wsi" and "rx_inv env wsi" and "rx_ubuf_head wsi = 0" and "length msk = 4"
    and "0 < length payload" and "length payload \<le> rx_limit env" and "length payload < 2 ^ 63"
    and "opc \<in> {0, 1, 2, 8, 9, 10}" and "opc AND 8 = 0 \<or> length payload < 126"
  shows "\<exists>w. rx_only w wsi \<and> rx_inv env w \<and> opcode w = opc \<and> final w = (wp AND LWS_WRITE_NO_FIN = 0) \<and>
    rx_payload w = payload \<and> rx_ubuf_head w = length payload \<and> lws_rx_parse_state w = RXPS_NEW \<and>
    run_bytes (rx_step env) wsi (tx_frame LWSCM_WS_CLIENT opc wp msk payload) =
      (case rx_spill env w of (r, w') \<Rightarrow> if r < 0 then Inl w' else Inr w')"
proof -
  define c where "c = (if wp AND LWS_WRITE_NO_FIN = 0 then opc OR 0x80 else opc)"
  define len :: u64 where "len = of_nat (length payload)"
  define Op where "Op = rx_opened c len msk wsi"
  define enc where "enc = mask_payload msk 0 payload"
  have len: "unat len = length payload"
    using assms(8) by (simp add: len_def unat_of_nat)
  have enc: "enc \<noteq> []" "length enc = length payload"
    using assms(6) by (simp_all add: enc_def flip: length_greater_0_conv)
  have c: "c AND 0xf = opc" "(drop_bit 7 c AND 1 \<noteq> 0) = (wp AND LWS_WRITE_NO_FIN = 0)"
    using assms(9) by (auto simp: c_def)
  have hdr: "run_bytes (rx_step env) wsi (frame_header opc wp 0x80 len @ msk) = Inr Op"
    unfolding Op_def c_def using assms(2-10) len by (intro rx_header_run) auto
  have Op: "lws_rx_parse_state Op = RXPS_PAYLOAD_UNTIL_LENGTH_EXHAUSTED" "\<not> socket_is_permanently_unusable Op"
    "rx_inv env Op" "rx_packet_length Op = len" "rx_ubuf_head Op = 0"
    using assms(2-5) by (simp_all add: Op_def rx_opened_inv) (simp_all add: rx_opened_def rx_idle_def)
  have "length (butlast enc) < length payload" using enc assms(6) by (simp add: Suc_le_eq)
  then have lt: "length (butlast enc) < length payload" "length (butlast enc) < rx_limit env"
    using assms(7) by simp_all
  define M where "M = rx_stored (butlast enc) Op"
  have body: "run_bytes (rx_step env) Op (butlast enc) = Inr M"
    unfolding M_def using Op lt len by (intro rx_run_payload) simp_all
  have M: "rx_inv env M"
    using rx_machine.run_inv [OF _ body] Op(3) assms(1) by blast
  have M': "lws_rx_parse_state M = RXPS_PAYLOAD_UNTIL_LENGTH_EXHAUSTED" "\<not> socket_is_permanently_unusable M"
    "rx_ubuf_head M < rx_limit env"
    using Op lt by (simp_all add: M_def rx_stored_def)
  have one: "rx_packet_length M = 1"
  proof -
    have "length payload = Suc (length (butlast enc))" using enc assms(6) by simp
    then have "len = of_nat (length (butlast enc)) + 1"
      unfolding len_def by (metis of_nat_Suc add.commute)
    then show ?thesis using Op(4) by (simp add: M_def rx_stored_def)
  qed
  define w where "w = (rx_stored [last enc] M)\<lparr>lws_rx_parse_state := RXPS_NEW\<rparr>"
  have fit: "rx_ubuf_head Op + length (butlast enc) < length (rx_ubuf Op)"
    using Op(3,5) lt by (simp add: rx_inv_def)
  have w: "w = (rx_stored enc Op)\<lparr>lws_rx_parse_state := RXPS_NEW\<rparr>"
    unfolding w_def M_def rx_stored_append [OF fit] using enc by simp
  have "rx_step env M (last enc) = (case rx_spill env w of (r, w') \<Rightarrow> if r < 0 then Inl w' else Inr w')"
    using M' rx_payload_byte_last [OF M M'(3) one, of "last enc"]
    by (simp add: rx_step_def lws_rx_sm_def w_def)
  then have "run_bytes (rx_step env) Op (butlast enc @ [last enc]) =
      (case rx_spill env w of (r, w') \<Rightarrow> if r < 0 then Inl w' else Inr w')"
    unfolding run_bytes_append body by (simp split: prod.split)
  then have run: "run_bytes (rx_step env) wsi (tx_frame LWSCM_WS_CLIENT opc wp msk payload) =
      (case rx_spill env w of (r, w') \<Rightarrow> if r < 0 then Inl w' else Inr w')"
    using enc(1) hdr run_bytes_append_Inr [OF hdr, of enc]
    by (simp add: tx_frame_def flip: len_def enc_def)
  have data: "rx_data enc Op = payload"
    by (simp add: rx_data_def Op_def rx_opened_def enc_def mask_payload_twice mask_payload_zero)
  have "rx_payload w = payload" "rx_ubuf_head w = length payload"
    using Op(5) enc data by (simp_all add: w rx_payload_def rx_stored_def)
  moreover have "rx_inv env w"
  proof -
    have h: "rx_ubuf_head M < length (rx_ubuf M)" "rx_ubuf_head M + LWS_PRE < rx_ubuf_alloc M"
      using M M'(3) by (simp_all add: rx_inv_def)
    have "rx_inv env (rx_stored [last enc] M)"
      using rx_store_inv [OF M h(2), of "last enc"] rx_store_stored [OF h(1), of "last enc"]
      by (metis rx_inv_update(9))
    then show ?thesis by (simp add: w_def)
  qed
  moreover have "rx_only w wsi" "opcode w = opc" "final w = (wp AND LWS_WRITE_NO_FIN = 0)"
    "lws_rx_parse_state w = RXPS_NEW"
    using c by (simp_all add: rx_only_def w rx_stored_def Op_def rx_opened_def)
  ultimately show ?thesis using run by (intro exI [of _ w]) simp
qed

lemma rx_spill_data:
  assumes "exts env = []" and "has_callback env" and "\<not> closing w" and "rx_inv env w"
    and "opcode w \<in> {0, 1, 2}" and "0 < rx_ubuf_head w"
  shows "\<exists>buf. rx_spill env w =
    (case user_callback_handle_rxflow env CB_RECEIVE (rx_payload w) (w\<lparr>rx_ubuf := buf\<rparr>) of
       (r, w') \<Rightarrow> (r, w'\<lparr>rx_ubuf_head := 0\<rparr>))"
proof -
  have "rx_ubuf_head w < length (rx_ubuf w)" using assms(4) by (simp add: rx_inv_def)
  then have put: "rx_put (rx_ubuf_head w) 0 w = w\<lparr>rx_ubuf := (rx_ubuf w)[rx_ubuf_head w := 0]\<rparr>"
    by (simp add: rx_put_def)
  have "take (rx_ubuf_head w) (rx_payload w) = rx_payload w" by (simp add: rx_payload_def)
  then have "rx_spill env w =
    (case user_callback_handle_rxflow env CB_RECEIVE (rx_payload w)
       (w\<lparr>rx_ubuf := (rx_ubuf w)[rx_ubuf_head w := 0]\<rparr>) of
       (r, w') \<Rightarrow> (r, w'\<lparr>rx_ubuf_head := 0\<rparr>))"
    using assms(1-3,5,6)
    by (auto simp: rx_spill_def rx_drain_extension_def lws_ext_cb_active_def rx_tokens_def
        terminate_token_def put Let_def)
  then show ?thesis by blast
qed

lemma rx_only_ubuf: "rx_only w wsi \<Longrightarrow> rx_only (w\<lparr>rx_ubuf := b\<rparr>) wsi"
  unfolding rx_only_def by (drule arg_cong [of _ _ "rx_ubuf_update (\<lambda>_. b)"]) simp

lemma rx_only_head: "rx_only w wsi \<Longrightarrow> rx_only (w\<lparr>rx_ubuf_head := n\<rparr>) wsi"
  unfolding rx_only_def by (drule arg_cong [of _ _ "rx_ubuf_head_update (\<lambda>_. n)"]) simp

text \<open>C1: what a client sends is what the server's application receives. The frame a client's
  \<^verbatim>\<open>lws_write\<close> puts on the wire for a payload (header with any of the three length forms, mask,
  masked payload), read byte by byte by the server between two frames, is accepted whole and ends
  in exactly one \<^verbatim>\<open>LWS_CALLBACK_RECEIVE\<close> with that payload, the opcode and the fin bit; nothing
  else of the connection is touched before the callback, whose verdict is the result.\<close>

theorem server_reads_client_frame:
  assumes "exts env = []" and "has_callback env" and "rx_idle wsi" and "rx_inv env wsi"
    and "rx_ubuf_head wsi = 0" and "\<not> closing wsi" and "length msk = 4"
    and "0 < length payload" and "length payload \<le> rx_limit env" and "length payload < 2 ^ 63"
    and "opc \<in> {0, 1, 2}"
  shows "\<exists>w. rx_only w wsi \<and> opcode w = opc \<and> final w = (wp AND LWS_WRITE_NO_FIN = 0) \<and>
    lws_rx_parse_state w = RXPS_NEW \<and>
    run_bytes (rx_step env) wsi (tx_frame LWSCM_WS_CLIENT opc wp msk payload) =
      (case user_callback_handle_rxflow env CB_RECEIVE payload w of
         (r, w') \<Rightarrow> if r < 0 then Inl (w'\<lparr>rx_ubuf_head := 0\<rparr>) else Inr (w'\<lparr>rx_ubuf_head := 0\<rparr>))"
proof -
  have "exts_ok env" "opc AND 8 = 0 \<or> length payload < 126" "opc \<in> {0, 1, 2, 8, 9, 10}"
    using assms(1,11) by (auto simp: exts_ok_def)
  with assms obtain w where w: "rx_only w wsi" "rx_inv env w" "opcode w = opc"
      "final w = (wp AND LWS_WRITE_NO_FIN = 0)" "rx_payload w = payload" "rx_ubuf_head w = length payload"
      "lws_rx_parse_state w = RXPS_NEW"
    and run: "run_bytes (rx_step env) wsi (tx_frame LWSCM_WS_CLIENT opc wp msk payload) =
      (case rx_spill env w of (r, w') \<Rightarrow> if r < 0 then Inl w' else Inr w')"
    using rx_frame_run [of env wsi msk payload opc wp] by blast
  have "\<not> closing w" using w(1) assms(6) by (metis closing_def rx_only_state)
  with assms(1,2,8,11) w obtain b where "rx_spill env w =
    (case user_callback_handle_rxflow env CB_RECEIVE payload (w\<lparr>rx_ubuf := b\<rparr>) of
       (r, w') \<Rightarrow> (r, w'\<lparr>rx_ubuf_head := 0\<rparr>))"
    using rx_spill_data [of env w] by auto
  then show ?thesis
    using w run rx_only_ubuf [OF w(1), of b]
    by (intro exI [of _ "w\<lparr>rx_ubuf := b\<rparr>"]) (simp split: prod.split)
qed

subsection \<open>Control frames\<close>

definition ping_part where
  "ping_part wsi = (ping_payload_buf wsi, ping_payload_len wsi, ping_pending_flag wsi, wsi_state wsi,
     payload_is_close wsi)"

interpretation ping: poll_frame "\<lambda>wsi. ping_part wsi = c" for c
  by unfold_locales (simp_all add: ping_part_def log_event_def)

lemma rx_process_as_ping_state:
  "wsi_state (snd (rx_process_as_ping env w)) = wsi_state w \<and>
   payload_is_close (snd (rx_process_as_ping env w)) = payload_is_close w"
proof -
  have "wsi_state (snd (lws_callback_on_writable env v)) = wsi_state v \<and>
      payload_is_close (snd (lws_callback_on_writable env v)) = payload_is_close v" for v
    using ping.on_writable [of v "ping_part v" env] by (simp add: ping_part_def)
  then show ?thesis by (simp add: rx_process_as_ping_def Let_def set_fault_def)
qed

lemma rx_process_as_ping_stores:
  assumes "rx_inv env w" and "rx_payload w = payload" and "rx_ubuf_head w = length payload"
    and "length payload \<le> 125" and "rx_process_as_ping env w = (r, w')"
  shows "r = 0 \<and> take (ping_payload_len w') (ping_payload_buf w') = payload \<and> ping_pending_flag w' \<and>
    wsi_state w' = wsi_state w \<and> payload_is_close w' = payload_is_close w \<and> rx_ubuf_head w' = 0"
proof -
  define v where "v = w\<lparr>ping_payload_buf := payload @ drop (length payload) (ping_payload_buf w),
    ping_payload_len := length payload, ping_pending_flag := True\<rparr>"
  have "length payload \<le> length (ping_payload_buf w)" using assms(1,4) by (simp add: rx_inv_def ws_ok_def)
  then have "w' = (snd (lws_callback_on_writable env v))\<lparr>rx_ubuf_head := 0\<rparr>" "r = 0"
    using assms(2-5) by (auto simp: rx_process_as_ping_def v_def Let_def)
  moreover have "ping_part (snd (lws_callback_on_writable env v)) = ping_part v"
    by (rule ping.on_writable) (rule refl)
  ultimately show ?thesis by (simp add: ping_part_def v_def)
qed

text \<open>A ping is kept for the pong. A masked ping frame of at most 125 bytes, on a connection
  that owes no pong, is accepted without a callback, and its payload is what the pong will carry;
  while one is owed, a further ping is dropped and the first stays.\<close>

lemma server_reads_ping:
  assumes "exts_ok env" and "rx_idle wsi" and "rx_inv env wsi" and "rx_ubuf_head wsi = 0"
    and "length msk = 4" and "0 < length payload" and "length payload \<le> 125" and "length payload \<le> rx_limit env"
  shows "\<exists>w. run_bytes (rx_step env) wsi (tx_frame LWSCM_WS_CLIENT 9 wp msk payload) = Inr w \<and>
    ping_pending_flag w \<and> wsi_state w = wsi_state wsi \<and>
    (\<not> ping_pending_flag wsi \<longrightarrow> take (ping_payload_len w) (ping_payload_buf w) = payload) \<and>
    (ping_pending_flag wsi \<longrightarrow> rx_only w wsi)"
proof -
  obtain w where w: "rx_only w wsi" "rx_inv env w" "opcode w = 9"
      "rx_payload w = payload" "rx_ubuf_head w = length payload"
    and run: "run_bytes (rx_step env) wsi (tx_frame LWSCM_WS_CLIENT 9 wp msk payload) =
      (case rx_spill env w of (r, w') \<Rightarrow> if r < 0 then Inl w' else Inr w')"
    using rx_frame_run [of env wsi msk payload 9 wp] assms by auto
  obtain r w' where p: "rx_process_as_ping env w = (r, w')" by (rule prod.exhaust)
  note rx_process_as_ping_stores [OF w(2,4,5) assms(7) p]
  then show ?thesis
    using run w p rx_only_state [OF w(1)]
    by (cases "ping_pending_flag wsi") (simp_all add: rx_spill_def rx_only_head)
qed


lemma reserved_opcode:
  "c AND 0xf \<in> {3, 4, 5, 6, 7, 0xb, 0xc, 0xd, 0xe, 0xf} \<longleftrightarrow> unat c mod 16 \<notin> {0, 1, 2, 8, 9, 10}" for c :: byte
proof -
  have "unat c mod 16 \<in> set [0..<16]" by simp
  moreover have "[0..<16] = [0, 1, 2, 3, 4, 5, 6, 7, 8, 9, 10, 11, 12, 13, 14, 15 :: nat]" by code_simp
  ultimately have "unat c mod 16 \<in> {0, 1, 2, 3, 4, 5, 6, 7, 8, 9, 10, 11, 12, 13, 14, 15}"
    by (simp only: list.set)
  then show ?thesis
    unfolding byte_eq_iff insert_iff empty_iff unat_and_mask_byte by (elim disjE) simp_all
qed

lemma high_bit_set: "c AND 0x80 \<noteq> 0 \<longleftrightarrow> 128 \<le> unat c" for c :: byte
proof -
  have "unat (c AND 0x80) = unat c div 128 * 128"
    unfolding byte_high1 using le_less_trans [OF div_times_less_eq_dividend unat_byte_lt, of c 128]
    by (simp add: unat_push_bit)
  then show ?thesis by (auto simp: byte_eq_iff div_eq_0_iff)
qed

text \<open>Which header bytes end the connection, exactly: a reserved opcode in the first byte, an
  extended length on a control frame in the second, and the top bit of a 64-bit length; no other
  byte of the header of a masked frame does.\<close>

lemma rx_header_rejects:
  assumes "\<not> socket_is_permanently_unusable wsi" and "ietf_spec_revision wsi = 13"
    and "\<not> rx_draining_ext wsi"
    and "lws_rx_parse_state wsi \<in> {RXPS_NEW, RXPS_04_FRAME_HDR_LEN, RXPS_04_FRAME_HDR_LEN16_2,
      RXPS_04_FRAME_HDR_LEN16_1, RXPS_04_FRAME_HDR_LEN64_8, RXPS_04_FRAME_HDR_LEN64_7,
      RXPS_04_FRAME_HDR_LEN64_1, RXPS_07_COLLECT_FRAME_KEY_1, RXPS_07_COLLECT_FRAME_KEY_2,
      RXPS_07_COLLECT_FRAME_KEY_3}"
    and "lws_rx_parse_state wsi = RXPS_04_FRAME_HDR_LEN \<Longrightarrow> 128 \<le> unat c"
  shows "fst (lws_rx_sm env c wsi) < 0 \<longleftrightarrow>
    (lws_rx_parse_state wsi = RXPS_NEW \<and> unat c mod 16 \<notin> {0, 1, 2, 8, 9, 10}) \<or>
    (lws_rx_parse_state wsi = RXPS_04_FRAME_HDR_LEN \<and> 126 \<le> unat c mod 128 \<and> opcode wsi AND 8 \<noteq> 0) \<or>
    (lws_rx_parse_state wsi = RXPS_04_FRAME_HDR_LEN64_8 \<and> 128 \<le> unat c)"
proof -
  have len: "c AND 0x7f = 126 \<longleftrightarrow> unat c mod 128 = 126" "c AND 0x7f = 127 \<longleftrightarrow> unat c mod 128 = 127"
    by (simp_all add: byte_eq_iff unat_and_mask_byte)
  have "unat c mod 128 < 128" by simp
  then have "126 \<le> unat c mod 128 \<longleftrightarrow> c AND 0x7f = 126 \<or> c AND 0x7f = 127"
    unfolding len by linarith
  moreover have "fst (rx_first c (wsi\<lparr>all_zero_nonce := True\<rparr>)) < 0 \<longleftrightarrow> unat c mod 16 \<notin> {0, 1, 2, 8, 9, 10}"
    unfolding reserved_opcode [symmetric] by (auto simp: rx_first_def Let_def)
  moreover have "fst (rx_hdr_len env c wsi) < 0 \<longleftrightarrow>
      (c AND 0x7f = 126 \<or> c AND 0x7f = 127) \<and> opcode wsi AND 8 \<noteq> 0" if "128 \<le> unat c"
    using that high_bit_set [of c] by (simp add: rx_hdr_len_def Let_def)
  moreover have "rx_new env c wsi = rx_first c (wsi\<lparr>all_zero_nonce := True\<rparr>)"
    using assms(2,3) by (simp add: rx_new_def)
  ultimately show ?thesis
    using assms(1,4,5) high_bit_set [of c]
    by (cases "lws_rx_parse_state wsi") (simp_all add: lws_rx_sm_def Let_def)
qed

subsection \<open>Witnesses\<close>

lemma plain_idle: "rx_idle (plain_conn m)" "rx_ubuf_head (plain_conn m) = 0" "\<not> closing (plain_conn m)"
    "trunc_len (plain_conn m) = 0" "ws_log (plain_conn m) = []" "\<not> ping_pending_flag (plain_conn m)"
  by (simp_all add: rx_idle_def closing_def plain_conn_def lws_union_transition_def lws_create_new_server_wsi_def)

lemma plain_limit [simp]: "rx_limit (plain_env lim) = 64"
  by (simp add: rx_limit_def plain_env_def)

theorem server_reads_client_frame_witness:
  "\<exists>w. run_bytes (rx_step (plain_env 9)) (plain_conn LWSCM_WS_SERVING)
     (tx_frame LWSCM_WS_CLIENT 1 LWS_WRITE_TEXT [1, 2, 3, 4] [72, 105]) = Inr w \<and>
     ws_log w = [Ev_callback CB_RECEIVE [72, 105]]"
proof -
  have "has_callback (plain_env 9)" by (simp add: plain_env_def)
  then obtain w where w: "rx_only w (plain_conn LWSCM_WS_SERVING)"
    and run: "run_bytes (rx_step (plain_env 9)) (plain_conn LWSCM_WS_SERVING)
      (tx_frame LWSCM_WS_CLIENT 1 LWS_WRITE_TEXT [1, 2, 3, 4] [72, 105]) =
      (case user_callback_handle_rxflow (plain_env 9) CB_RECEIVE [72, 105] w of
         (r, w') \<Rightarrow> if r < 0 then Inl (w'\<lparr>rx_ubuf_head := 0\<rparr>) else Inr (w'\<lparr>rx_ubuf_head := 0\<rparr>))"
    using server_reads_client_frame [of "plain_env 9" "plain_conn LWSCM_WS_SERVING" "[1, 2, 3, 4]" "[72, 105]" 1
        LWS_WRITE_TEXT] plain_rx_inv plain_idle by auto
  have "rxflow_pending_change w = False"
    by (subst w [unfolded rx_only_def])
      (simp add: plain_conn_def lws_union_transition_def lws_create_new_server_wsi_def)
  moreover have "ws_log w = []" using rx_only_state [OF w] plain_idle by simp
  ultimately show ?thesis
    unfolding run by (simp add: user_callback_handle_rxflow_def protocol_callback_def plain_env_def log_event_def
        lws_rx_flow_control_apply_def)
qed


end
