(* ===== verification/Utf8_Check.thy ===== *)
theory Utf8_Check
  imports Lws_Prelude
begin

text \<open>
  \<^verbatim>\<open>lws_check_utf8\<close> of \<^verbatim>\<open>libwebsockets.c\<close>: the table driven validator that checks text
  messages and close reasons. The state byte packs the low bound of the next byte, the width
  of its range and the number of bytes still to come. The specification is the Unicode
  definition: a text is the concatenation of the encodings of scalar values.
\<close>

subsection \<open>The code\<close>

definition e0f4 :: "byte list" where
  "e0f4 = [
     0xa0 OR push_bit 2 (2 - 1) OR 1, 0x80 OR push_bit 2 (4 - 1) OR 1,
     0x80 OR push_bit 2 (4 - 1) OR 1, 0x80 OR push_bit 2 (4 - 1) OR 1,
     0x80 OR push_bit 2 (4 - 1) OR 1, 0x80 OR push_bit 2 (4 - 1) OR 1,
     0x80 OR push_bit 2 (4 - 1) OR 1, 0x80 OR push_bit 2 (4 - 1) OR 1,
     0x80 OR push_bit 2 (4 - 1) OR 1, 0x80 OR push_bit 2 (4 - 1) OR 1,
     0x80 OR push_bit 2 (4 - 1) OR 1, 0x80 OR push_bit 2 (4 - 1) OR 1,
     0x80 OR push_bit 2 (4 - 1) OR 1, 0x80 OR push_bit 2 (2 - 1) OR 1,
     0x80 OR push_bit 2 (4 - 1) OR 1, 0x80 OR push_bit 2 (4 - 1) OR 1,
     0x90 OR push_bit 2 (3 - 1) OR 2, 0x80 OR push_bit 2 (4 - 1) OR 2,
     0x80 OR push_bit 2 (4 - 1) OR 2, 0x80 OR push_bit 2 (4 - 1) OR 2,
     0x80 OR push_bit 2 (1 - 1) OR 2,
     0, 0x80 OR push_bit 2 (4 - 1) OR 0, 0x80 OR push_bit 2 (4 - 1) OR 1]"

text \<open>
  One turn of the loop; the comparison arithmetic is done in \<^verbatim>\<open>int\<close>, so it does not wrap.
  \<open>Inl ()\<close> is the \<^verbatim>\<open>return 1\<close>.
\<close>

definition utf8_step :: "byte \<Rightarrow> byte \<Rightarrow> unit + byte" where
  "utf8_step s c =
     (if s = 0 then
        (if 0x80 \<le> c then
           (if c < 0xc2 \<or> 0xf4 < c then Inl ()
            else if c < 0xe0 then Inr (0x80 OR push_bit 2 (4 - 1))
            else Inr (e0f4 ! unat (c - 0xe0)))
         else Inr s)
      else
        (if unat c < unat (s AND 0xf0) \<or>
            unat (s AND 0xf0) + 0x10 + unat (push_bit 2 s AND 0x30) \<le> unat c then Inl ()
         else Inr (e0f4 ! (21 + unat (s AND 3)))))"

text \<open>The return value and the state byte written back (only on success).\<close>

definition lws_check_utf8 :: "byte \<Rightarrow> byte list \<Rightarrow> nat \<times> byte" where
  "lws_check_utf8 state buf =
     (case run_bytes utf8_step state buf of Inl _ \<Rightarrow> (1, state) | Inr s \<Rightarrow> (0, s))"

subsection \<open>The specification\<close>

definition scalar_value :: "nat \<Rightarrow> bool" where
  "scalar_value n \<longleftrightarrow> n < 0xD800 \<or> (0xE000 \<le> n \<and> n \<le> 0x10FFFF)"

definition utf8_encode :: "nat \<Rightarrow> nat list" where
  "utf8_encode n =
     (if n < 0x80 then [n]
      else if n < 0x800 then [0xC0 + n div 64, 0x80 + n mod 64]
      else if n < 0x10000 then [0xE0 + n div 4096, 0x80 + n div 64 mod 64, 0x80 + n mod 64]
      else [0xF0 + n div 262144, 0x80 + n div 4096 mod 64, 0x80 + n div 64 mod 64, 0x80 + n mod 64])"

definition utf8_text :: "byte list \<Rightarrow> bool" where
  "utf8_text bs \<longleftrightarrow>
     (\<exists>cps. list_all scalar_value cps \<and> map unat bs = concat (map utf8_encode cps))"

subsection \<open>Reachable states and single steps\<close>

definition utf8_states :: "byte set" where
  "utf8_states = {0, 0x8c, 0x8d, 0x8e, 0xa5, 0x85, 0x9a, 0x82}"

lemma utf8_next:
  "s \<noteq> 0 \<Longrightarrow> utf8_step s c = (if unat (s AND 0xf0) \<le> unat c \<and> unat c < unat (s AND 0xf0) + 0x10 + unat (push_bit 2 s AND 0x30)
     then Inr (e0f4 ! (21 + unat (s AND 3))) else Inl ())"
  by (auto simp: utf8_step_def)

lemma e0f4_tail: "e0f4 ! 21 = 0" "e0f4 ! 22 = 0x8c" "e0f4 ! 23 = 0x8d"
  by (simp_all add: e0f4_def)

lemma utf8_step_tail:
  "utf8_step 0x8c c = (if 0x80 \<le> unat c \<and> unat c < 0xC0 then Inr 0 else Inl ())"
  "utf8_step 0x8d c = (if 0x80 \<le> unat c \<and> unat c < 0xC0 then Inr 0x8c else Inl ())"
  "utf8_step 0x8e c = (if 0x80 \<le> unat c \<and> unat c < 0xC0 then Inr 0x8d else Inl ())"
  "utf8_step 0xa5 c = (if 0xA0 \<le> unat c \<and> unat c < 0xC0 then Inr 0x8c else Inl ())"
  "utf8_step 0x85 c = (if 0x80 \<le> unat c \<and> unat c < 0xA0 then Inr 0x8c else Inl ())"
  "utf8_step 0x9a c = (if 0x90 \<le> unat c \<and> unat c < 0xC0 then Inr 0x8d else Inl ())"
  "utf8_step 0x82 c = (if 0x80 \<le> unat c \<and> unat c < 0x90 then Inr 0x8d else Inl ())"
  by (simp_all add: utf8_next e0f4_tail)

lemma e0f4_lead:
  assumes "0xE0 \<le> k" and "k \<le> 0xF4"
  shows "e0f4 ! (k - 0xE0) =
    (if k = 0xE0 then 0xa5 else if k = 0xED then 0x85 else if k < 0xF0 then 0x8d
     else if k = 0xF0 then 0x9a else if k < 0xF4 then 0x8e else 0x82)"
proof -
  have "list_all (\<lambda>i. e0f4 ! i =
    (if i = 0 then 0xa5 else if i = 13 then 0x85 else if i < 16 then 0x8d
     else if i = 16 then 0x9a else if i < 20 then 0x8e else 0x82)) [0..<21]"
    by code_simp
  moreover have "k - 0xE0 \<in> set [0..<21]" using assms by simp
  ultimately show ?thesis
    using assms unfolding list_all_iff by (auto dest!: bspec)
qed

lemma utf8_step_lead:
  "utf8_step 0 c =
     (let k = unat c in
      if k < 0x80 then Inr 0
      else if k < 0xC2 \<or> 0xF4 < k then Inl ()
      else if k < 0xE0 then Inr 0x8c
      else if k = 0xE0 then Inr 0xa5 else if k = 0xED then Inr 0x85
      else if k < 0xF0 then Inr 0x8d
      else if k = 0xF0 then Inr 0x9a else if k < 0xF4 then Inr 0x8e else Inr 0x82)"
proof -
  have "unat (c - 0xE0) = unat c - 0xE0" if "0xE0 \<le> unat c"
    using that by (simp add: unat_sub word_le_nat_alt)
  then show ?thesis
    by (auto simp: utf8_step_def byte_simps Let_def e0f4_lead not_less not_le)
qed

interpretation utf8: byte_machine utf8_step "\<lambda>s. s \<in> utf8_states"
proof
  fix s c s'
  assume "s \<in> utf8_states" and "utf8_step s c = Inr s'"
  then show "s' \<in> utf8_states"
    by (auto simp: utf8_states_def utf8_step_tail utf8_step_lead Let_def split: if_splits)
qed

text \<open>Two, three and four byte sequences over the state 0, as conditions on their bytes.\<close>

lemma run2:
  "run_bytes utf8_step 0 [a, b] = Inr 0"
  if "0xC2 \<le> unat a" "unat a < 0xE0" "0x80 \<le> unat b" "unat b < 0xC0"
  using that by (simp add: utf8_step_lead utf8_step_tail)

lemma run3:
  "run_bytes utf8_step 0 [a, b, c] = Inr 0"
  if "0xE0 \<le> unat a" "unat a < 0xF0" "0x80 \<le> unat b" "unat b < 0xC0"
     "unat a = 0xE0 \<Longrightarrow> 0xA0 \<le> unat b" "unat a = 0xED \<Longrightarrow> unat b < 0xA0"
     "0x80 \<le> unat c" "unat c < 0xC0"
  using that by (auto simp add: utf8_step_lead utf8_step_tail Let_def)

lemma run4:
  "run_bytes utf8_step 0 [a, b, c, d] = Inr 0"
  if "0xF0 \<le> unat a" "unat a \<le> 0xF4" "0x80 \<le> unat b" "unat b < 0xC0"
     "unat a = 0xF0 \<Longrightarrow> 0x90 \<le> unat b" "unat a = 0xF4 \<Longrightarrow> unat b < 0x90"
     "0x80 \<le> unat c" "unat c < 0xC0" "0x80 \<le> unat d" "unat d < 0xC0"
  using that by (auto simp add: utf8_step_lead utf8_step_tail Let_def)

lemma run_encode:
  assumes "scalar_value n" and "map unat bs = utf8_encode n"
  shows "run_bytes utf8_step 0 bs = Inr 0"
proof -
  consider "n < 0x80" | "0x80 \<le> n" "n < 0x800" | "0x800 \<le> n" "n < 0x10000" | "0x10000 \<le> n"
    by linarith
  then show ?thesis
  proof cases
    case 1
    then show ?thesis using assms(2)
      by (auto simp: utf8_encode_def map_eq_Cons_conv utf8_step_lead)
  next
    case 2
    then obtain a b where bs: "bs = [a, b]" "unat a = 0xC0 + n div 64" "unat b = 0x80 + n mod 64"
      using assms(2) by (auto simp: utf8_encode_def map_eq_Cons_conv)
    show ?thesis unfolding bs(1) using 2 by (intro run2) (use bs in linarith)+
  next
    case 3
    then obtain a b c where bs: "bs = [a, b, c]" "unat a = 0xE0 + n div 4096"
        "unat b = 0x80 + n div 64 mod 64" "unat c = 0x80 + n mod 64"
      using assms(2) by (auto simp: utf8_encode_def map_eq_Cons_conv)
    define m where "m = n div 64"
    have m: "32 \<le> m" "m < 1024" "m < 0x360 \<or> 0x380 \<le> m"
      unfolding m_def using 3 assms(1) unfolding scalar_value_def by linarith+
    have "n div 4096 = n div 64 div 64" by (simp flip: div_mult2_eq)
    note bs = bs [unfolded this, folded m_def]
    have "32 \<le> m mod 64" if "m div 64 = 0" using m that mult_div_mod_eq [of 64 m] by linarith
    moreover have "m mod 64 < 32" if "m div 64 = 13" using m that mult_div_mod_eq [of 64 m] by linarith
    moreover have "m div 64 < 16" using m by linarith
    ultimately show ?thesis unfolding bs(1)
      by (intro run3) (simp_all add: bs)
  next
    case 4
    then obtain a b c d where bs: "bs = [a, b, c, d]" "unat a = 0xF0 + n div 262144"
        "unat b = 0x80 + n div 4096 mod 64" "unat c = 0x80 + n div 64 mod 64"
        "unat d = 0x80 + n mod 64"
      using assms(2) by (auto simp: utf8_encode_def map_eq_Cons_conv)
    define m where "m = n div 4096"
    have m: "16 \<le> m" "m < 272"
      unfolding m_def using 4 assms(1) unfolding scalar_value_def by linarith+
    have "n div 262144 = n div 4096 div 64" by (simp flip: div_mult2_eq)
    note bs = bs [unfolded this, folded m_def]
    have "16 \<le> m mod 64" if "m div 64 = 0" using m that mult_div_mod_eq [of 64 m] by linarith
    moreover have "m mod 64 < 16" if "m div 64 = 4" using m that mult_div_mod_eq [of 64 m] by linarith
    moreover have "m div 64 < 5" using m by linarith
    ultimately show ?thesis unfolding bs(1)
      by (intro run4) (simp_all add: bs)
  qed
qed

lemma run_concat_encode:
  "list_all scalar_value cps \<Longrightarrow> map unat bs = concat (map utf8_encode cps) \<Longrightarrow>
   run_bytes utf8_step 0 bs = Inr 0"
proof (induction cps arbitrary: bs)
  case (Cons n cps)
  then obtain xs ys where "bs = xs @ ys" "map unat xs = utf8_encode n"
      "map unat ys = concat (map utf8_encode cps)"
    by (auto simp: map_eq_append_conv)
  then show ?case
    using Cons run_encode [of n xs] by (simp add: run_bytes_append)
qed simp

text \<open>A non-empty buffer accepted between two boundaries starts with the encoding of a scalar.\<close>

definition starts_scalar :: "byte list \<Rightarrow> bool" where
  "starts_scalar bs \<longleftrightarrow> (\<exists>n xs ys. bs = xs @ ys \<and> xs \<noteq> [] \<and> scalar_value n \<and>
     map unat xs = utf8_encode n \<and> run_bytes utf8_step 0 ys = Inr 0)"

lemma run_tail:
  "run_bytes utf8_step 0x8c bs = Inr 0 \<Longrightarrow>
     \<exists>c ys. bs = c # ys \<and> 0x80 \<le> unat c \<and> unat c < 0xC0 \<and> run_bytes utf8_step 0 ys = Inr 0"
  "run_bytes utf8_step 0x8d bs = Inr 0 \<Longrightarrow>
     \<exists>c ys. bs = c # ys \<and> 0x80 \<le> unat c \<and> unat c < 0xC0 \<and> run_bytes utf8_step 0x8c ys = Inr 0"
  "run_bytes utf8_step 0x8e bs = Inr 0 \<Longrightarrow>
     \<exists>c ys. bs = c # ys \<and> 0x80 \<le> unat c \<and> unat c < 0xC0 \<and> run_bytes utf8_step 0x8d ys = Inr 0"
  "run_bytes utf8_step 0xa5 bs = Inr 0 \<Longrightarrow>
     \<exists>c ys. bs = c # ys \<and> 0xA0 \<le> unat c \<and> unat c < 0xC0 \<and> run_bytes utf8_step 0x8c ys = Inr 0"
  "run_bytes utf8_step 0x85 bs = Inr 0 \<Longrightarrow>
     \<exists>c ys. bs = c # ys \<and> 0x80 \<le> unat c \<and> unat c < 0xA0 \<and> run_bytes utf8_step 0x8c ys = Inr 0"
  "run_bytes utf8_step 0x9a bs = Inr 0 \<Longrightarrow>
     \<exists>c ys. bs = c # ys \<and> 0x90 \<le> unat c \<and> unat c < 0xC0 \<and> run_bytes utf8_step 0x8d ys = Inr 0"
  "run_bytes utf8_step 0x82 bs = Inr 0 \<Longrightarrow>
     \<exists>c ys. bs = c # ys \<and> 0x80 \<le> unat c \<and> unat c < 0x90 \<and> run_bytes utf8_step 0x8d ys = Inr 0"
  by (cases bs; simp add: utf8_step_tail split: if_splits)+

lemma div_mod_shift [simp]:
  "l < 64 \<Longrightarrow> (k * 64 + l) div 64 = (k :: nat)"
  "l < 64 \<Longrightarrow> (k * 64 + l) mod 64 = (l :: nat)"
  by simp_all

lemma div_4096: "n div 4096 = n div 64 div (64 :: nat)" "n div 262144 = n div 64 div 64 div (64 :: nat)"
  by (simp_all flip: div_mult2_eq)

lemma encode2:
  assumes "2 \<le> k" "k < 32" "l < 64" and "n = k * 64 + l"
  shows "scalar_value n" and "utf8_encode n = [0xC0 + k, 0x80 + l]"
proof -
  have "n div 64 = k" "n mod 64 = l" unfolding assms(4) by (rule div_mod_shift assms(3))+
  then show "scalar_value n" "utf8_encode n = [0xC0 + k, 0x80 + l]"
    using assms by (auto simp: utf8_encode_def scalar_value_def)
qed

lemma encode3:
  assumes "k < 16" "l < 64" "j < 64" "k = 0 \<Longrightarrow> 32 \<le> l" "k = 13 \<Longrightarrow> l < 32"
    and "n = m * 64 + j" and "m = k * 64 + l"
  shows "scalar_value n" and "utf8_encode n = [0xE0 + k, 0x80 + l, 0x80 + j]"
proof -
  have m: "m div 64 = k" "m mod 64 = l" unfolding assms(7) by (rule div_mod_shift assms(2))+
  have n: "n div 64 = m" "n mod 64 = j" unfolding assms(6) by (rule div_mod_shift assms(3))+
  have "k = 0 \<longrightarrow> 32 \<le> l" "k = 13 \<longrightarrow> l < 32" using assms(4,5) by blast+
  moreover have "k < 13 \<or> k = 13 \<or> 13 < k" by linarith
  ultimately have "32 \<le> m" "m < 1024" "m < 0x360 \<or> 0x380 \<le> m"
    using assms(1,2,7) by auto
  then have "0x800 \<le> n" "n < 0x10000" "scalar_value n" 
    using assms(3,6) unfolding scalar_value_def by linarith+
  then show "scalar_value n" "utf8_encode n = [0xE0 + k, 0x80 + l, 0x80 + j]"
    by (simp_all add: utf8_encode_def div_4096 m n)
qed

lemma encode4:
  assumes "k < 5" "l < 64" "j < 64" "i < 64" "k = 0 \<Longrightarrow> 16 \<le> l" "k = 4 \<Longrightarrow> l < 16"
    and "n = m * 64 + i" and "m = p * 64 + j" and "p = k * 64 + l"
  shows "scalar_value n" and "utf8_encode n = [0xF0 + k, 0x80 + l, 0x80 + j, 0x80 + i]"
proof -
  have p: "p div 64 = k" "p mod 64 = l" unfolding assms(9) by (rule div_mod_shift assms(2))+
  have m: "m div 64 = p" "m mod 64 = j" unfolding assms(8) by (rule div_mod_shift assms(3))+
  have n: "n div 64 = m" "n mod 64 = i" unfolding assms(7) by (rule div_mod_shift assms(4))+
  have "16 \<le> p" "p < 272" using assms(1,2,5,6,9) by linarith+
  then have "0x10000 \<le> n" "n \<le> 0x10FFFF" "scalar_value n" 
    using assms(3,4,7,8) unfolding scalar_value_def by linarith+
  then show "scalar_value n" "utf8_encode n = [0xF0 + k, 0x80 + l, 0x80 + j, 0x80 + i]"
    by (simp_all add: utf8_encode_def div_4096 p m n)
qed

lemma run_starts_scalar:
  assumes "run_bytes utf8_step 0 bs = Inr 0" and "bs \<noteq> []"
  shows "starts_scalar bs"
proof -
  obtain a as where bs: "bs = a # as" using assms(2) by (cases bs) auto
  define k where "k = unat a"
  have "k < 0x80 \<or> 0xC2 \<le> k \<and> k < 0xE0 \<or> 0xE0 \<le> k \<and> k < 0xF0 \<or> 0xF0 \<le> k \<and> k \<le> 0xF4"
    using assms(1) by (auto simp: bs utf8_step_lead Let_def k_def split: if_splits)
  then consider "k < 0x80" | "0xC2 \<le> k" "k < 0xE0" | "0xE0 \<le> k" "k < 0xF0" | "0xF0 \<le> k" "k \<le> 0xF4"
    by blast
  then show ?thesis
  proof cases
    case 1
    then have "run_bytes utf8_step 0 as = Inr 0"
      using assms(1) by (simp add: bs utf8_step_lead Let_def k_def)
    then show ?thesis using 1 unfolding starts_scalar_def bs
      by (intro exI [of _ k] exI [of _ "[a]"] exI [of _ as])
        (simp add: k_def scalar_value_def utf8_encode_def)
  next
    case 2
    then have "run_bytes utf8_step 0x8c as = Inr 0"
      using assms(1) by (simp add: bs utf8_step_lead Let_def k_def)
    from run_tail(1) [OF this] obtain b ys where as: "as = b # ys" "0x80 \<le> unat b"
      "unat b < 0xC0" "run_bytes utf8_step 0 ys = Inr 0" by blast
    note e = encode2 [of "k - 0xC0" "unat b - 0x80", OF _ _ _ refl]
    show ?thesis using 2 as e unfolding starts_scalar_def bs
      by (intro exI [of _ "(k - 0xC0) * 64 + (unat b - 0x80)"] exI [of _ "[a, b]"] exI [of _ ys])
        (simp add: k_def)
  next
    case 3
    then obtain s where s: "run_bytes utf8_step s as = Inr 0"
        "s = (if k = 0xE0 then 0xa5 else if k = 0xED then 0x85 else 0x8d)"
      using assms(1) by (auto simp: bs utf8_step_lead Let_def k_def split: if_splits)
    then obtain b as' where as: "as = b # as'" "run_bytes utf8_step 0x8c as' = Inr 0"
        "0x80 \<le> unat b" "unat b < 0xC0"
        "k = 0xE0 \<Longrightarrow> 0xA0 \<le> unat b" "k = 0xED \<Longrightarrow> unat b < 0xA0"
      by (auto dest!: run_tail(2,4,5) split: if_splits)
    from run_tail(1) [OF as(2)] obtain c ys where as': "as' = c # ys" "0x80 \<le> unat c"
      "unat c < 0xC0" "run_bytes utf8_step 0 ys = Inr 0" by blast
    define n where "n = ((k - 0xE0) * 64 + (unat b - 0x80)) * 64 + (unat c - 0x80)"
    have "k - 0xE0 < 16" "unat b - 0x80 < 64" "unat c - 0x80 < 64"
      "k - 0xE0 = 0 \<Longrightarrow> 32 \<le> unat b - 0x80" "k - 0xE0 = 13 \<Longrightarrow> unat b - 0x80 < 32"
      using 3 as(3-6) as'(2,3) by fastforce+
    from encode3 [OF this n_def refl] have "scalar_value n" "utf8_encode n = [k, unat b, unat c]"
      using 3 as(3-6) as'(2,3) by simp_all
    then show ?thesis unfolding starts_scalar_def bs as(1) as'(1)
      using as'(4) by (intro exI [of _ n] exI [of _ "[a, b, c]"] exI [of _ ys]) (simp add: k_def)
  next
    case 4
    then obtain s where s: "run_bytes utf8_step s as = Inr 0"
        "s = (if k = 0xF0 then 0x9a else if k < 0xF4 then 0x8e else 0x82)"
      using assms(1) by (auto simp: bs utf8_step_lead Let_def k_def split: if_splits)
    then obtain b as' where as: "as = b # as'" "run_bytes utf8_step 0x8d as' = Inr 0"
        "0x80 \<le> unat b" "unat b < 0xC0"
        "k = 0xF0 \<Longrightarrow> 0x90 \<le> unat b" "k = 0xF4 \<Longrightarrow> unat b < 0x90"
      using 4 by (auto dest!: run_tail(3,6,7) split: if_splits)
    from run_tail(2) [OF as(2)] obtain c as'' where as': "as' = c # as''" "0x80 \<le> unat c"
      "unat c < 0xC0" "run_bytes utf8_step 0x8c as'' = Inr 0" by blast
    from run_tail(1) [OF as'(4)] obtain d ys where as'': "as'' = d # ys" "0x80 \<le> unat d"
      "unat d < 0xC0" "run_bytes utf8_step 0 ys = Inr 0" by blast
    define n where "n = (((k - 0xF0) * 64 + (unat b - 0x80)) * 64 + (unat c - 0x80)) * 64 + (unat d - 0x80)"
    have "k - 0xF0 < 5" "unat b - 0x80 < 64" "unat c - 0x80 < 64" "unat d - 0x80 < 64"
      "k - 0xF0 = 0 \<Longrightarrow> 16 \<le> unat b - 0x80" "k - 0xF0 = 4 \<Longrightarrow> unat b - 0x80 < 16"
      using 4 as(3-6) as'(2,3) as''(2,3) by fastforce+
    from encode4 [OF this n_def refl refl] have "scalar_value n" "utf8_encode n = [k, unat b, unat c, unat d]"
      using 4 as(3-6) as'(2,3) as''(2,3) by simp_all
    then show ?thesis unfolding starts_scalar_def bs as(1) as'(1) as''(1)
      using as''(4)
      by (intro exI [of _ n] exI [of _ "[a, b, c, d]"] exI [of _ ys]) (simp add: k_def)
  qed
qed

lemma run_utf8_text: "run_bytes utf8_step 0 bs = Inr 0 \<Longrightarrow> utf8_text bs"
proof (induction bs rule: length_induct)
  case (1 bs)
  show ?case
  proof (cases "bs = []")
    case True
    then show ?thesis unfolding utf8_text_def by (intro exI [of _ "[]"]) simp
  next
    case False
    then obtain n xs ys where *: "bs = xs @ ys" "xs \<noteq> []" "scalar_value n"
        "map unat xs = utf8_encode n" "run_bytes utf8_step 0 ys = Inr 0"
      using run_starts_scalar 1 unfolding starts_scalar_def by blast
    then have "utf8_text ys" using 1 by simp
    then obtain cps where "list_all scalar_value cps" "map unat ys = concat (map utf8_encode cps)"
      unfolding utf8_text_def by blast
    then show ?thesis
      using * unfolding utf8_text_def by (intro exI [of _ "n # cps"]) simp
  qed
qed

lemma run_utf8_text_iff: "run_bytes utf8_step 0 bs = Inr 0 \<longleftrightarrow> utf8_text bs"
  using run_utf8_text run_concat_encode unfolding utf8_text_def by blast

lemma utf8_completion:
  assumes "s \<in> utf8_states"
  obtains rest where "run_bytes utf8_step s rest = Inr 0"
proof -
  have "\<exists>rest \<in> {[], [0x80], [0x80, 0x80], [0x80, 0x80, 0x80], [0xA0, 0x80], [0x90, 0x80, 0x80]}.
      run_bytes utf8_step s rest = Inr 0"
    using assms by (auto simp: utf8_states_def utf8_step_tail)
  then show ?thesis using that by blast
qed

subsection \<open>Properties\<close>

text \<open>C23: starting between two characters, \<^verbatim>\<open>lws_check_utf8\<close> accepts a buffer and is again
  between two characters exactly when the buffer is the UTF-8 encoding of a sequence of Unicode
  scalar values: no overlong form, no surrogate, nothing above U+10FFFF.\<close>

theorem check_utf8_complete:
  "lws_check_utf8 0 buf = (0, 0) \<longleftrightarrow> utf8_text buf"
  by (auto simp: lws_check_utf8_def run_utf8_text_iff [symmetric] split: sum.splits)

text \<open>The validator reports an error at the first byte that cannot be repaired: a buffer is
  accepted exactly when some continuation makes it a text (the fail-fast rule of RFC 6455 8.1 for
  fragmented messages).\<close>

lemma check_utf8_prefix:
  "fst (lws_check_utf8 0 buf) = 0 \<longleftrightarrow> (\<exists>rest. utf8_text (buf @ rest))"
proof
  assume "fst (lws_check_utf8 0 buf) = 0"
  then obtain s where s: "run_bytes utf8_step 0 buf = Inr s"
    by (auto simp: lws_check_utf8_def split: sum.splits)
  then have "s \<in> utf8_states" 
    using utf8.run_inv [OF _ s] by (simp add: utf8_states_def)
  then obtain rest where "run_bytes utf8_step s rest = Inr 0" by (rule utf8_completion)
  then have "run_bytes utf8_step 0 (buf @ rest) = Inr 0"
    using s by (simp add: run_bytes_append_Inr)
  then show "\<exists>rest. utf8_text (buf @ rest)" by (auto simp: run_utf8_text_iff)
next
  assume "\<exists>rest. utf8_text (buf @ rest)"
  then obtain rest where "run_bytes utf8_step 0 (buf @ rest) = Inr 0"
    by (auto simp: run_utf8_text_iff)
  then show "fst (lws_check_utf8 0 buf) = 0"
    by (auto simp: lws_check_utf8_def elim: utf8.run_split)
qed

text \<open>Cutting a message into chunks does not change the verdict: checking \<open>xs @ ys\<close> in
  one call is checking \<open>xs\<close> and then \<open>ys\<close> from the state byte left by the first call, and a
  failing call leaves the state byte as it was.\<close>

lemma check_utf8_chunks:
  "lws_check_utf8 s (xs @ ys) =
     (if fst (lws_check_utf8 s xs) = 0
      then (case lws_check_utf8 (snd (lws_check_utf8 s xs)) ys of
              (r, s') \<Rightarrow> (r, if r = 0 then s' else s))
      else (1, s))"
  by (auto simp: lws_check_utf8_def run_bytes_append split: sum.splits)

end
