(* ===== verification/Ws_Client.thy ===== *)
theory Ws_Client
  imports Ws_Frames Utf8_Check
begin

text \<open>
  The receiving side of a client: \<^verbatim>\<open>lws_client_rx_sm\<close> of \<^verbatim>\<open>client-parser.c\<close> and the loop of \<^verbatim>\<open>lws_handshake_client\<close>
  (\<^verbatim>\<open>client.c\<close>) that feeds it. Other than the server's machine it enforces the order of fragments, checks text
  messages and close reasons with \<^verbatim>\<open>lws_check_utf8\<close> and ends a close by itself.
\<close>

subsection \<open>The label drain_extension\<close>

text \<open>The check of a text message; \<open>None\<close> is \<^verbatim>\<open>utf8_fail\<close>. A negative length is taken as a huge one.\<close>

definition client_check_text :: "int \<Rightarrow> tokens \<Rightarrow> ws \<Rightarrow> ws option" where
  "client_check_text n eff_buf wsi =
     (if check_utf8 wsi \<and> \<not> defeat_check_utf8 wsi then
        if token_len eff_buf < 0 then Some (set_fault Out_of_bounds wsi)
        else case lws_check_utf8 (utf8 wsi)
               (take (nat (token_len eff_buf)) (case token eff_buf of None \<Rightarrow> [] | Some bs \<Rightarrow> bs)) of (e, s) \<Rightarrow>
          if e \<noteq> 0 then None
          else if rx_packet_length wsi = 0 \<and> final wsi \<and> s \<noteq> 0 \<and> n = 0 then None
          else Some (wsi\<lparr>utf8 := s\<rparr>)
      else Some wsi)"

definition client_tell :: "env \<Rightarrow> cb_reason \<Rightarrow> byte list \<Rightarrow> ws \<Rightarrow> int \<times> ws" where
  "client_tell env callback_action data wsi =
     (if closing wsi then (0, wsi\<lparr>rx_ubuf_head := 0\<rparr>)
      else case protocol_callback env callback_action data wsi of
        (m, wsi) \<Rightarrow> if m \<noteq> 0 then (1, wsi) else (0, wsi\<lparr>rx_ubuf_head := 0\<rparr>))"

definition client_deliver :: "env \<Rightarrow> cb_reason \<Rightarrow> int \<Rightarrow> tokens \<Rightarrow> ws \<Rightarrow> int \<times> ws" where
  "client_deliver env callback_action n eff_buf wsi =
     (if token_len eff_buf < 0 \<and> callback_action \<noteq> CB_CLIENT_RECEIVE_PONG then (0, wsi\<lparr>rx_ubuf_head := 0\<rparr>)
      else if token eff_buf = None then (0, wsi\<lparr>rx_ubuf_head := 0\<rparr>)
      else
        let wsi = (if token_len eff_buf < 0 then set_fault Out_of_bounds wsi else terminate_token eff_buf wsi) in
        if \<not> has_callback env then (0, wsi\<lparr>rx_ubuf_head := 0\<rparr>)
        else
          client_tell env callback_action
            (take (nat (token_len eff_buf)) (case token eff_buf of None \<Rightarrow> [] | Some bs \<Rightarrow> bs))
            (if n \<noteq> 0 \<and> token_len eff_buf \<noteq> 0 then
               wsi\<lparr>rx_draining_ext := True, rx_draining_ext_list := wsi_id wsi # rx_draining_ext_list wsi\<rparr>
             else wsi))"

definition client_drain :: "env \<Rightarrow> cb_reason \<Rightarrow> bool \<Rightarrow> tokens \<Rightarrow> ws \<Rightarrow> int \<times> ws" where
  "client_drain env callback_action rx_draining eff_buf wsi =
     (case lws_ext_cb_active env EXT_CB_PAYLOAD_RX eff_buf wsi of (n, eff_buf, wsi) \<Rightarrow>
        if n < 0 then (-1, wsi)
        else if rx_draining \<and> token_len eff_buf = 0 then (0, wsi\<lparr>rx_ubuf_head := 0\<rparr>)
        else case client_check_text n eff_buf wsi of
          None \<Rightarrow> (-1, wsi)
        | Some wsi \<Rightarrow> client_deliver env callback_action n eff_buf wsi)"

subsection \<open>The label spill\<close>

definition bad_close_code :: "nat \<Rightarrow> bool" where
  "bad_close_code close_code \<longleftrightarrow> close_code < 1000 \<or> close_code = 1004 \<or> close_code = 1005 \<or> close_code = 1006 \<or>
     close_code = 1012 \<or> close_code = 1013 \<or> close_code = 1014 \<or> close_code = 1015 \<or>
     (1016 \<le> close_code \<and> close_code < 3000)"

text \<open>A close code a peer must not send is replaced by 1002, in the buffer.\<close>

definition client_fix_close :: "ws \<Rightarrow> ws" where
  "client_fix_close wsi =
     (if 2 \<le> rx_ubuf_head wsi \<and>
         bad_close_code (unat (rx_ubuf wsi ! 0) * 256 + unat (rx_ubuf wsi ! 1)) then
        rx_put 1 (ucast ((1002 :: u16) AND 0xff)) (rx_put 0 (ucast (drop_bit 8 (1002 :: u16) AND 0xff)) wsi)
      else wsi)"

definition client_spill_close :: "env \<Rightarrow> ws \<Rightarrow> int \<times> ws" where
  "client_spill_close env wsi =
     (if validate_utf8 env \<and> 2 < rx_ubuf_head wsi \<and>
         fst (lws_check_utf8 (utf8 wsi) (drop 2 (rx_payload wsi))) \<noteq> 0 then (-1, wsi)
      else if wsi_state wsi = LWSS_AWAITING_CLOSE_ACK then (-1, wsi)
      else
        let wsi = client_fix_close wsi in
        case user_callback_handle_rxflow env CB_WS_PEER_INITIATED_CLOSE (rx_payload wsi) wsi of (n, wsi) \<Rightarrow>
          if n \<noteq> 0 then (-1, wsi)
          else (-1, (snd (lws_write env (Some (rx_payload wsi)) LWS_WRITE_CLOSE wsi))
                      \<lparr>wsi_state := LWSS_RETURNED_CLOSE_ALREADY\<rparr>))"

definition client_ping :: "env \<Rightarrow> ws \<Rightarrow> int \<times> ws" where
  "client_ping env wsi =
     (if close_in_ping_buffer_len wsi \<noteq> 0 \<or> ping_pending_flag wsi then (0, wsi\<lparr>rx_ubuf_head := 0\<rparr>)
      else rx_process_as_ping env wsi)"

definition client_spill :: "env \<Rightarrow> ws \<Rightarrow> int \<times> ws" where
  "client_spill env wsi =
     (if opcode wsi = 8 then client_spill_close env wsi
      else if opcode wsi = 9 then client_ping env wsi
      else if opcode wsi = 10 then
        (let wsi = rx_pong_timeout env wsi
         in client_drain env CB_CLIENT_RECEIVE_PONG False (rx_tokens wsi) wsi)
      else if opcode wsi = 0 \<or> opcode wsi = 1 \<or> opcode wsi = 2 then
        client_drain env CB_CLIENT_RECEIVE False (rx_tokens wsi) wsi
      else
        case lws_ext_cb_active env EXT_CB_EXTENDED_PAYLOAD_RX (rx_tokens wsi) wsi of (_, _, wsi) \<Rightarrow>
          (0, wsi\<lparr>rx_ubuf_head := 0\<rparr>))"

subsection \<open>The state machine\<close>

text \<open>The opcode of a frame: what it resets, and which are refused.\<close>

definition client_opcode :: "env \<Rightarrow> byte \<Rightarrow> ws \<Rightarrow> int \<times> ws" where
  "client_opcode env c wsi =
     (let wsi = wsi\<lparr>opcode := c AND 0xf\<rparr> in
      if opcode wsi = 1 then
        (0, wsi\<lparr>rsv_first_msg := c AND 0x70, continuation_possible := True, check_utf8 := validate_utf8 env, utf8 := 0\<rparr>)
      else if opcode wsi = 2 then
        (0, wsi\<lparr>rsv_first_msg := c AND 0x70, check_utf8 := False, continuation_possible := True\<rparr>)
      else if opcode wsi = 0 then (if continuation_possible wsi then 0 else -1, wsi)
      else if opcode wsi = 8 then (0, wsi\<lparr>check_utf8 := False, utf8 := 0\<rparr>)
      else if opcode wsi \<in> {3, 4, 5, 6, 7, 0xb, 0xc, 0xd, 0xe, 0xf} then (-1, wsi)
      else (0, wsi\<lparr>defeat_check_utf8 := True\<rparr>))"

definition client_flags :: "env \<Rightarrow> byte \<Rightarrow> ws \<Rightarrow> int \<times> ws" where
  "client_flags env c wsi =
     (let wsi = wsi\<lparr>rsv := c AND 0x70\<rparr> in
      if exts env = [] \<and> rsv wsi \<noteq> 0 then (-1, wsi)
      else
        let wsi = wsi\<lparr>final := (drop_bit 7 c AND 1 \<noteq> 0)\<rparr> in
        if owed_a_fin wsi \<and> (opcode wsi = 1 \<or> opcode wsi = 2) then (-1, wsi)
        else
          let wsi = (if opcode wsi AND 8 = 0 \<and> final wsi
                     then wsi\<lparr>continuation_possible := False, owed_a_fin := False\<rparr> else wsi)
          in if opcode wsi AND 8 \<noteq> 0 \<and> \<not> final wsi then (-1, wsi)
             else
               let wsi = (if final wsi then wsi else wsi\<lparr>owed_a_fin := True\<rparr>);
                   wsi = (if opcode wsi = 1 \<or> opcode wsi = 2 then wsi\<lparr>frame_is_binary := (opcode wsi = 2)\<rparr> else wsi)
               in (0, wsi\<lparr>lws_rx_parse_state := RXPS_04_FRAME_HDR_LEN\<rparr>))"

definition client_new :: "env \<Rightarrow> byte \<Rightarrow> ws \<Rightarrow> int \<times> ws" where
  "client_new env c wsi =
     (let wsi = wsi\<lparr>defeat_check_utf8 := False\<rparr> in
      if ietf_spec_revision wsi \<noteq> 13 then (0, wsi)
      else case client_opcode env c wsi of (r, wsi) \<Rightarrow>
        if r < 0 then (-1, wsi) else client_flags env c wsi)"

text \<open>Behind the length, or behind the mask.\<close>

definition client_enter_payload :: "env \<Rightarrow> ws \<Rightarrow> int \<times> ws" where
  "client_enter_payload env wsi =
     (if rx_packet_length wsi \<noteq> 0 then (0, wsi\<lparr>lws_rx_parse_state := RXPS_PAYLOAD_UNTIL_LENGTH_EXHAUSTED\<rparr>)
      else client_spill env (wsi\<lparr>lws_rx_parse_state := RXPS_NEW\<rparr>))"

definition client_after_len :: "env \<Rightarrow> ws \<Rightarrow> int \<times> ws" where
  "client_after_len env wsi =
     (if this_frame_masked wsi then (0, wsi\<lparr>lws_rx_parse_state := RXPS_07_COLLECT_FRAME_KEY_1\<rparr>)
      else client_enter_payload env wsi)"

definition client_hdr_len :: "env \<Rightarrow> byte \<Rightarrow> ws \<Rightarrow> int \<times> ws" where
  "client_hdr_len env c wsi =
     (let wsi = wsi\<lparr>this_frame_masked := (c AND 0x80 \<noteq> 0)\<rparr> in
      if c AND 0x7f = 126 then
        (if opcode wsi AND 8 \<noteq> 0 then (-1, wsi)
         else (0, wsi\<lparr>lws_rx_parse_state := RXPS_04_FRAME_HDR_LEN16_2\<rparr>))
      else if c AND 0x7f = 127 then
        (if opcode wsi AND 8 \<noteq> 0 then (-1, wsi)
         else (0, wsi\<lparr>lws_rx_parse_state := RXPS_04_FRAME_HDR_LEN64_8\<rparr>))
      else client_after_len env (wsi\<lparr>rx_packet_length := ucast c\<rparr>))"

definition client_store :: "byte \<Rightarrow> ws \<Rightarrow> ws" where
  "client_store c wsi =
     (let wsi' = (if this_frame_masked wsi \<and> \<not> all_zero_nonce wsi then
                    rx_put (rx_ubuf_head wsi) (c XOR frame_mask wsi ! unat (mask_idx wsi AND 3))
                      (wsi\<lparr>mask_idx := mask_idx wsi + 1\<rparr>)
                  else rx_put (rx_ubuf_head wsi) c wsi)
      in wsi'\<lparr>rx_ubuf_head := rx_ubuf_head wsi + 1, rx_packet_length := rx_packet_length wsi - 1\<rparr>)"

definition client_payload_byte :: "env \<Rightarrow> byte \<Rightarrow> ws \<Rightarrow> int \<times> ws" where
  "client_payload_byte env c wsi =
     (let wsi = client_store c wsi in
      if rx_packet_length wsi = 0 then client_spill env (wsi\<lparr>lws_rx_parse_state := RXPS_NEW\<rparr>)
      else if rx_ubuf_head wsi \<noteq> rx_limit env then (0, wsi)
      else client_spill env wsi)"

definition lws_client_rx_sm :: "env \<Rightarrow> byte \<Rightarrow> ws \<Rightarrow> int \<times> ws" where
  "lws_client_rx_sm env c wsi =
     (if rx_draining_ext wsi then
        client_drain env CB_CLIENT_RECEIVE True no_tokens
          (wsi\<lparr>rx_draining_ext := False, rx_draining_ext_list := remove1 (wsi_id wsi) (rx_draining_ext_list wsi)\<rparr>)
      else case lws_rx_parse_state wsi of
        RXPS_NEW \<Rightarrow> client_new env c wsi
      | RXPS_04_FRAME_HDR_LEN \<Rightarrow> client_hdr_len env c wsi
      | RXPS_04_FRAME_HDR_LEN16_2 \<Rightarrow>
          (0, wsi\<lparr>rx_packet_length := push_bit 8 (ucast c), lws_rx_parse_state := RXPS_04_FRAME_HDR_LEN16_1\<rparr>)
      | RXPS_04_FRAME_HDR_LEN16_1 \<Rightarrow> client_after_len env (rx_len_byte 0 c RXPS_04_FRAME_HDR_LEN16_1 wsi)
      | RXPS_04_FRAME_HDR_LEN64_8 \<Rightarrow>
          (if c AND 0x80 \<noteq> 0 then (-1, wsi)
           else (0, wsi\<lparr>rx_packet_length := push_bit 56 (ucast c), lws_rx_parse_state := RXPS_04_FRAME_HDR_LEN64_7\<rparr>))
      | RXPS_04_FRAME_HDR_LEN64_7 \<Rightarrow> (0, rx_len_byte 48 c RXPS_04_FRAME_HDR_LEN64_6 wsi)
      | RXPS_04_FRAME_HDR_LEN64_6 \<Rightarrow> (0, rx_len_byte 40 c RXPS_04_FRAME_HDR_LEN64_5 wsi)
      | RXPS_04_FRAME_HDR_LEN64_5 \<Rightarrow> (0, rx_len_byte 32 c RXPS_04_FRAME_HDR_LEN64_4 wsi)
      | RXPS_04_FRAME_HDR_LEN64_4 \<Rightarrow> (0, rx_len_byte 24 c RXPS_04_FRAME_HDR_LEN64_3 wsi)
      | RXPS_04_FRAME_HDR_LEN64_3 \<Rightarrow> (0, rx_len_byte 16 c RXPS_04_FRAME_HDR_LEN64_2 wsi)
      | RXPS_04_FRAME_HDR_LEN64_2 \<Rightarrow> (0, rx_len_byte 8 c RXPS_04_FRAME_HDR_LEN64_1 wsi)
      | RXPS_04_FRAME_HDR_LEN64_1 \<Rightarrow> client_after_len env (rx_len_byte 0 c RXPS_04_FRAME_HDR_LEN64_1 wsi)
      | RXPS_07_COLLECT_FRAME_KEY_1 \<Rightarrow> (0, rx_mask_byte 0 c RXPS_07_COLLECT_FRAME_KEY_2 wsi)
      | RXPS_07_COLLECT_FRAME_KEY_2 \<Rightarrow> (0, rx_mask_byte 1 c RXPS_07_COLLECT_FRAME_KEY_3 wsi)
      | RXPS_07_COLLECT_FRAME_KEY_3 \<Rightarrow> (0, rx_mask_byte 2 c RXPS_07_COLLECT_FRAME_KEY_4 wsi)
      | RXPS_07_COLLECT_FRAME_KEY_4 \<Rightarrow> client_enter_payload env (rx_mask_byte 3 c RXPS_07_COLLECT_FRAME_KEY_4 wsi)
      | RXPS_PAYLOAD_UNTIL_LENGTH_EXHAUSTED \<Rightarrow> client_payload_byte env c wsi
      | _ \<Rightarrow> (1, wsi))"

text \<open>
  The loop of \<^verbatim>\<open>lws_handshake_client\<close> in the WebSocket modes. An extension that has more is drained with the server's
  machine. \<open>k\<close> bounds the turns that take no byte; running out of it is the fault \<open>Ext_loops\<close>.
\<close>

fun client_loop :: "nat \<Rightarrow> env \<Rightarrow> byte list \<Rightarrow> ws \<Rightarrow> int \<times> ws" where
  "client_loop 0 env buf wsi = (0, if buf = [] then wsi else set_fault Ext_loops wsi)"
| "client_loop (Suc k) env buf wsi =
     (if buf = [] then (0, wsi)
      else if \<not> rxflow_allow wsi then (0, snd (lws_rxflow_cache env buf wsi))
      else if rx_draining_ext wsi then
        (case lws_rx_sm env 0 wsi of (m, wsi) \<Rightarrow> if m < 0 then (-1, wsi) else client_loop k env buf wsi)
      else
        let wsi = (if rxflow_buffer wsi \<noteq> None then wsi\<lparr>rxflow_pos := rxflow_pos wsi + 1\<rparr> else wsi)
        in case lws_client_rx_sm env (hd buf) wsi of (m, wsi) \<Rightarrow>
             if m \<noteq> 0 then (-1, wsi) else client_loop k env (tl buf) wsi)"

definition lws_handshake_client :: "env \<Rightarrow> byte list \<Rightarrow> ws \<Rightarrow> int \<times> ws" where
  "lws_handshake_client env buf wsi = client_loop (length buf + ext_rounds env) env buf wsi"

subsection \<open>The bounds\<close>

text \<open>Between two bytes the buffer is never full.\<close>

definition client_inv :: "env \<Rightarrow> ws \<Rightarrow> bool" where
  "client_inv env wsi \<longleftrightarrow> rx_inv env wsi \<and> rx_ubuf_head wsi < rx_limit env"

text \<open>The contract of the extensions: that of the server, and no negative lengths.\<close>

definition client_exts_ok :: "env \<Rightarrow> bool" where
  "client_exts_ok env \<longleftrightarrow> exts_ok env \<and>
     (\<forall>x \<in> set (exts env). \<forall>wsi r t. 0 \<le> token_len t \<longrightarrow> 0 \<le> token_len (snd (x wsi r t)))"

lemma ext_active_nonneg:
  assumes "client_exts_ok env" and "lws_ext_cb_active env reason t wsi = (m, t', wsi')" and "0 \<le> token_len t"
  shows "0 \<le> token_len t'"
proof -
  have "(\<forall>x \<in> set xs. \<forall>wsi r t. 0 \<le> token_len t \<longrightarrow> 0 \<le> token_len (snd (x wsi r t))) \<Longrightarrow> 0 \<le> token_len t \<Longrightarrow>
      ext_cb_loop xs reason h t wsi = (m, t', wsi') \<Longrightarrow> 0 \<le> token_len t'" for xs h
  proof (induction xs reason h t wsi rule: ext_cb_loop.induct)
    case (2 x xs reason handled arg wsi)
    obtain k a where x: "x wsi reason arg = (k, a)" by (rule prod.exhaust)
    then have "0 \<le> token_len a" using 2(2,3) by (metis list.set_intros(1) snd_conv)
    then show ?case using 2 x by (auto simp: Let_def split: if_splits)
  qed simp
  then show ?thesis using assms by (auto simp: client_exts_ok_def lws_ext_cb_active_def)
qed

lemma client_keep_simps [simp]:
  "rx_inv env (defeat_check_utf8_update f wsi) = rx_inv env wsi"
  "rx_inv env (check_utf8_update f wsi) = rx_inv env wsi"
  "rx_inv env (utf8_update g wsi) = rx_inv env wsi"
  "rx_inv env (continuation_possible_update f wsi) = rx_inv env wsi"
  "rx_inv env (owed_a_fin_update f wsi) = rx_inv env wsi"
  by (simp_all add: rx_inv_def ws_ok_def)

text \<open>What a step leaves: the receiver's bounds, and room in the buffer when the machine goes on.\<close>

definition client_after :: "env \<Rightarrow> int \<times> ws \<Rightarrow> bool" where
  "client_after env rw \<longleftrightarrow> rx_inv env (snd rw) \<and> (fst rw = 0 \<longrightarrow> rx_ubuf_head (snd rw) < rx_limit env)"

lemma client_after_if [simp]: "client_after env (if b then x else y) \<longleftrightarrow> (if b then client_after env x else client_after env y)"
  by simp

lemma client_after_zero [simp]:
  "rx_inv env w \<Longrightarrow> 0 < rx_limit env \<Longrightarrow> client_after env (0, w\<lparr>rx_ubuf_head := 0\<rparr>)"
  "r \<noteq> 0 \<Longrightarrow> client_after env (r, w) = rx_inv env w"
  by (simp_all add: client_after_def)

lemma client_tell_after: "rx_inv env wsi \<Longrightarrow> 0 < rx_limit env \<Longrightarrow> client_after env (client_tell env act data wsi)"
  using inv.protocol_cb [of env wsi env act data] by (cases "protocol_callback env act data wsi") (simp add: client_tell_def)

lemma client_deliver_after:
  assumes "rx_inv env wsi" and "0 < rx_limit env" and "0 \<le> token_len t"
    and "token t \<noteq> None \<and> \<not> moved t \<Longrightarrow> token_len t \<le> int (rx_ubuf_head wsi)"
  shows "client_after env (client_deliver env act n t wsi)"
proof (cases "token t = None")
  case True
  then show ?thesis using assms by (simp add: client_deliver_def)
next
  case False
  have "rx_inv env (terminate_token t wsi)" using assms False by (intro rx_inv_terminate) auto
  then show ?thesis
    using False assms(2,3) by (auto simp: client_deliver_def Let_def client_tell_after)
qed

lemma client_check_text_keeps:
  assumes "client_check_text n t wsi = Some w" and "0 \<le> token_len t"
  shows "\<exists>s. w = wsi\<lparr>utf8 := s\<rparr>"
  using assms
  by (auto simp: client_check_text_def Let_def split: if_splits prod.splits intro: exI [of _ "utf8 wsi"])

lemma client_drain_after:
  assumes "client_exts_ok env" and "rx_inv env wsi" and "0 < rx_limit env" and "token t = None \<longrightarrow> token_len t = 0"
    and "0 \<le> token_len t" and "token_len t \<le> int (rx_ubuf_head wsi)"
  shows "client_after env (client_drain env act d t wsi)"
proof -
  obtain n t' w where e: "lws_ext_cb_active env EXT_CB_PAYLOAD_RX t wsi = (n, t', w)" by (rule prod_cases3)
  have w: "rx_inv env w" using inv.ext_active [OF e assms(2)] .
  have head: "rx_ubuf_head w = rx_ubuf_head wsi" using rx.ext_active [OF e refl] by (simp add: rx_part_def)
  have tok: "tok_le t t'" using ext_active_tok [OF _ e assms(4)] assms(1) by (simp add: client_exts_ok_def)
  have pos: "0 \<le> token_len t'" using ext_active_nonneg [OF assms(1) e assms(5)] .
  have "client_after env (client_deliver env act n t' w')" if chk: "client_check_text n t' w = Some w'" for w'
  proof -
    obtain s where "w' = w\<lparr>utf8 := s\<rparr>" using client_check_text_keeps [OF chk pos] by blast
    then show ?thesis
      using w head tok pos assms(3,5,6) by (intro client_deliver_after) (auto simp: tok_le_def)
  qed
  then show ?thesis
    using w assms(3) by (simp add: client_drain_def e split: option.split)
qed

lemma client_fix_close_inv: "rx_inv env wsi \<Longrightarrow> rx_inv env (client_fix_close wsi) \<and> rx_ubuf_head (client_fix_close wsi) = rx_ubuf_head wsi"
  by (auto simp: client_fix_close_def rx_inv_put) (simp_all add: rx_put_def set_fault_def)

lemma client_spill_after:
  assumes "client_exts_ok env" and "rx_inv env wsi" and "0 < rx_limit env"
  shows "client_after env (client_spill env wsi)"
proof -
  let ?f = "client_fix_close wsi"
  obtain n w where e: "user_callback_handle_rxflow env CB_WS_PEER_INITIATED_CLOSE (rx_payload ?f) ?f = (n, w)"
    by (rule prod.exhaust)
  have "rx_inv env ?f" using client_fix_close_inv [OF assms(2)] by simp
  then have w: "rx_inv env w" using inv.user_cb_rxflow e by (metis snd_conv)
  have close: "client_after env (client_spill_close env wsi)"
    unfolding client_spill_close_def Let_def e prod.case using assms(2) w by simp
  have ping: "client_after env (client_ping env wsi)"
    using rx_inv_ping [OF assms(2)] assms(2,3) by (simp add: client_ping_def rx_process_as_ping_def Let_def client_after_def)
  have pong: "rx_inv env (rx_pong_timeout env wsi)" "rx_ubuf_head (rx_pong_timeout env wsi) = rx_ubuf_head wsi"
    using assms(2) rx.set_timeout [of wsi "rx_part wsi" env NO_PENDING_TIMEOUT 0]
    by (auto simp: rx_pong_timeout_def rx_part_def)
  obtain n' t' w' where e': "lws_ext_cb_active env EXT_CB_EXTENDED_PAYLOAD_RX (rx_tokens wsi) wsi = (n', t', w')"
    by (rule prod_cases3)
  have w': "rx_inv env w'" using inv.ext_active [OF e' assms(2)] .
  show ?thesis
    unfolding client_spill_def e' prod.case Let_def
    using close ping assms w' pong by (simp add: client_drain_after rx_tokens_def)
qed

lemma client_sm_after:
  assumes "client_exts_ok env" and "client_inv env wsi"
  shows "client_after env (lws_client_rx_sm env c wsi)"
proof -
  have inv: "rx_inv env wsi" "rx_ubuf_head wsi < rx_limit env" "0 < rx_limit env" "length (frame_mask wsi) = 4"
    using assms(2) by (auto simp: client_inv_def rx_inv_def ws_ok_def)
  have enter: "client_after env (client_enter_payload env w)" if "rx_inv env w" "rx_ubuf_head w = rx_ubuf_head wsi" for w
    using that inv assms(1) by (simp add: client_enter_payload_def client_spill_after) (simp add: client_after_def)
  then have len: "client_after env (client_after_len env w)" if "rx_inv env w" "rx_ubuf_head w = rx_ubuf_head wsi" for w
    using that inv by (simp add: client_after_len_def) (simp add: client_after_def)
  have "client_after env (client_hdr_len env c wsi)"
    using inv len by (simp add: client_hdr_len_def Let_def) (simp add: client_after_def)
  moreover have "client_after env (client_new env c wsi)"
    using inv by (simp add: client_new_def client_opcode_def client_flags_def Let_def) (simp add: client_after_def)
  moreover have "client_after env (client_payload_byte env c wsi)"
  proof -
    have "rx_inv env (client_store c wsi) \<and> rx_ubuf_head (client_store c wsi) = rx_ubuf_head wsi + 1"
      using inv(1,2) by (auto simp: client_store_def rx_put_def rx_inv_def ws_ok_def Let_def)
    then show ?thesis
      using inv assms(1) by (simp add: client_payload_byte_def Let_def client_spill_after) (simp add: client_after_def)
  qed
  moreover have "client_after env (client_drain env CB_CLIENT_RECEIVE True no_tokens
      (wsi\<lparr>rx_draining_ext := False, rx_draining_ext_list := remove1 (wsi_id wsi) (rx_draining_ext_list wsi)\<rparr>))"
    using inv assms(1) by (intro client_drain_after) (simp_all add: no_tokens_def)
  ultimately show ?thesis
    using inv enter len
    by (simp add: lws_client_rx_sm_def rx_mask_byte_def rx_len_byte_def split: rx_parse_state.split)
      (simp add: client_after_def)
qed

definition client_step :: "env \<Rightarrow> ws \<Rightarrow> byte \<Rightarrow> ws + ws" where
  "client_step env wsi c = (case lws_client_rx_sm env c wsi of (r, wsi') \<Rightarrow> if r \<noteq> 0 then Inl wsi' else Inr wsi')"

interpretation client_machine: byte_machine "client_step env" "\<lambda>wsi. client_exts_ok env \<and> client_inv env wsi" for env
proof unfold_locales
  fix s c s'
  assume "client_exts_ok env \<and> client_inv env s" "client_step env s c = Inr s'"
  moreover from this have "lws_client_rx_sm env c s = (0, s')" by (auto simp: client_step_def split: prod.splits if_splits)
  ultimately show "client_exts_ok env \<and> client_inv env s'"
    using client_sm_after [of env s c] by (simp add: client_after_def client_inv_def)
qed

subsection \<open>A data frame\<close>

definition client_idle :: "ws \<Rightarrow> bool" where
  "client_idle wsi \<longleftrightarrow> lws_rx_parse_state wsi = RXPS_NEW \<and> \<not> rx_draining_ext wsi \<and> ietf_spec_revision wsi = 13 \<and> rx_ubuf_head wsi = 0"

text \<open>The order of fragments: a message begins when no other is open, and a continuation needs one that is.\<close>

definition fragment_ok :: "byte \<Rightarrow> ws \<Rightarrow> bool" where
  "fragment_ok opc wsi \<longleftrightarrow> (opc = 0 \<and> continuation_possible wsi \<or> (opc = 1 \<or> opc = 2) \<and> \<not> owed_a_fin wsi)"

definition client_started :: "env \<Rightarrow> byte \<Rightarrow> bool \<Rightarrow> ws \<Rightarrow> ws" where
  "client_started env opc fin wsi = wsi\<lparr>
     defeat_check_utf8 := False, opcode := opc, rsv_first_msg := (if opc = 0 then rsv_first_msg wsi else 0),
     check_utf8 := (if opc = 1 then validate_utf8 env else if opc = 2 then False else check_utf8 wsi),
     utf8 := (if opc = 1 then 0 else utf8 wsi), rsv := 0, final := fin, continuation_possible := \<not> fin, owed_a_fin := \<not> fin,
     frame_is_binary := (if opc = 0 then frame_is_binary wsi else opc = 2), lws_rx_parse_state := RXPS_04_FRAME_HDR_LEN\<rparr>"

lemma client_first_step:
  assumes "client_idle wsi" and "exts env = []" and "fragment_ok opc wsi"
  shows "client_step env wsi (if fin then opc OR 0x80 else opc) = Inr (client_started env opc fin wsi)"
proof -
  consider "opc = 0" "continuation_possible wsi" | "opc = 1" "\<not> owed_a_fin wsi" | "opc = 2" "\<not> owed_a_fin wsi"
    using assms(3) by (auto simp: fragment_ok_def)
  then show ?thesis
    using assms(1,2)
    by cases (cases fin; simp add: client_step_def lws_client_rx_sm_def client_new_def client_opcode_def client_flags_def
        client_idle_def client_started_def Let_def)+
qed

lemma enter_payload_state [simp]: "client_enter_payload env (w\<lparr>lws_rx_parse_state := x\<rparr>) = client_enter_payload env w"
  by (simp add: client_enter_payload_def)

lemma run_bytes_steps:
  "run_bytes f s [c] = f s c"
  "run_bytes f s (c # d # cs) = (case f s c of Inl e \<Rightarrow> Inl e | Inr s' \<Rightarrow> run_bytes f s' (d # cs))"
  by (simp_all split: sum.split)

lemma client_header_run:
  assumes "client_idle wsi" and "exts env = []" and "fragment_ok opc wsi" and "unat len < 2 ^ 63"
    and "w = (client_started env opc (wp AND LWS_WRITE_NO_FIN = 0) wsi)\<lparr>this_frame_masked := False, rx_packet_length := len\<rparr>"
  shows "run_bytes (client_step env) wsi (frame_header opc wp 0 len) =
    (case client_enter_payload env w of (r, w') \<Rightarrow> if r \<noteq> 0 then Inl w' else Inr w')"
proof -
  define fin where "fin = (wp AND LWS_WRITE_NO_FIN = 0)"
  define s where "s = client_started env opc fin wsi"
  have s: "lws_rx_parse_state s = RXPS_04_FRAME_HDR_LEN" "\<not> rx_draining_ext s" "opcode s AND 8 = 0"
    using assms(1,3) by (auto simp: s_def client_started_def client_idle_def fragment_ok_def)
  have first: "client_step env wsi (if fin then opc OR 0x80 else opc) = Inr s"
    unfolding s_def by (rule client_first_step [OF assms(1-3)])
  have w: "w = s\<lparr>this_frame_masked := False, rx_packet_length := len\<rparr>" by (simp add: assms(5) s_def fin_def)
  have "run_bytes (client_step env) s (tl (frame_header opc wp 0 len)) =
    (case client_enter_payload env w of (r, w') \<Rightarrow> if r \<noteq> 0 then Inl w' else Inr w')"
  proof (cases "unat len < 126")
    case True
    have "unat len < 128" using True by simp
    note b = len7_bits [OF this]
    have "ucast len AND 0x7f \<noteq> (126 :: byte)" "ucast len AND 0x7f \<noteq> (127 :: byte)"
      using True b by auto
    moreover have "len < 126" using True by (simp add: word_less_nat_alt)
    ultimately show ?thesis
      using s by (simp add: frame_header_def Let_def run_bytes_steps client_step_def lws_client_rx_sm_def client_hdr_len_def
          client_after_len_def b w del: run_bytes.simps)
  next
    case False
    then have big: "\<not> len < 126" by (simp add: word_less_nat_alt)
    show ?thesis
    proof (cases "unat len < 65536")
      case True
      have "len < 65536" using True by (simp add: word_less_nat_alt)
      with big s show ?thesis
        using len16_bits [OF True]
        by (simp add: frame_header_def Let_def client_step_def lws_client_rx_sm_def client_hdr_len_def rx_len_byte_def
            client_after_len_def w run_bytes_steps del: run_bytes.simps)
    next
      case False
      have "\<not> len < 65536" using False by (simp add: word_less_nat_alt)
      with big s show ?thesis
        using len64_bits [OF assms(4)]
        by (simp add: and.assoc frame_header_def Let_def client_step_def lws_client_rx_sm_def client_hdr_len_def rx_len_byte_def
            client_after_len_def w run_bytes_steps del: run_bytes.simps)
    qed
  qed
  note rest = this
  have hdr: "frame_header opc wp 0 len = (if fin then opc OR 0x80 else opc) # tl (frame_header opc wp 0 len)"
    by (simp add: frame_header_def Let_def fin_def)
  show ?thesis by (subst hdr) (simp only: run_bytes.simps first sum.case rest)
qed

subsection \<open>The payload\<close>

definition client_stored :: "byte list \<Rightarrow> ws \<Rightarrow> ws" where
  "client_stored bs wsi = (rx_stored bs (wsi\<lparr>all_zero_nonce := True\<rparr>))\<lparr>all_zero_nonce := all_zero_nonce wsi\<rparr>"

lemma client_stored_Cons:
  assumes "rx_ubuf_head wsi < length (rx_ubuf wsi)"
  shows "client_stored bs (client_stored [c] wsi) = client_stored (c # bs) wsi"
proof -
  let ?w = "wsi\<lparr>all_zero_nonce := True\<rparr>"
  have "(rx_stored [c] ?w)\<lparr>all_zero_nonce := True\<rparr> = rx_stored [c] ?w" by (simp add: rx_stored_def)
  then show ?thesis
    using rx_stored_Cons [of ?w bs c] assms by (simp add: client_stored_def)
qed

lemma client_stored_append:
  assumes "rx_ubuf_head wsi + length bs < length (rx_ubuf wsi)"
  shows "client_stored [c] (client_stored bs wsi) = client_stored (bs @ [c]) wsi"
proof -
  let ?w = "wsi\<lparr>all_zero_nonce := True\<rparr>"
  have "(rx_stored bs ?w)\<lparr>all_zero_nonce := True\<rparr> = rx_stored bs ?w" by (simp add: rx_stored_def)
  then show ?thesis
    using rx_stored_append [of ?w bs c] assms by (simp add: client_stored_def)
qed

lemma client_store_stored:
  assumes "rx_ubuf_head wsi < length (rx_ubuf wsi)" and "\<not> this_frame_masked wsi"
  shows "client_store c wsi = client_stored [c] wsi"
  using assms
  by (simp add: client_store_def client_stored_def rx_stored_def rx_data_def rx_put_def Let_def upd_conv_take_nth_drop)

lemma client_stored_fields [simp]:
  "lws_rx_parse_state (client_stored bs wsi) = lws_rx_parse_state wsi" "rx_ubuf_head (client_stored bs wsi) = rx_ubuf_head wsi + length bs"
  "rx_packet_length (client_stored bs wsi) = rx_packet_length wsi - of_nat (length bs)"
  "rx_draining_ext (client_stored bs wsi) = rx_draining_ext wsi" "this_frame_masked (client_stored bs wsi) = this_frame_masked wsi"
  by (simp_all add: client_stored_def rx_stored_def)

lemma client_stored_inv:
  "rx_inv env wsi \<Longrightarrow> rx_ubuf_head wsi + length bs \<le> rx_limit env \<Longrightarrow> rx_inv env (client_stored bs wsi)"
  by (simp add: client_stored_def rx_stored_def rx_inv_def ws_ok_def rx_data_def)

lemma client_run_payload:
  assumes "lws_rx_parse_state wsi = RXPS_PAYLOAD_UNTIL_LENGTH_EXHAUSTED" and "\<not> rx_draining_ext wsi" "\<not> this_frame_masked wsi"
    and "rx_inv env wsi" and "length bs < unat (rx_packet_length wsi)" and "rx_ubuf_head wsi + length bs < rx_limit env"
  shows "run_bytes (client_step env) wsi bs = Inr (client_stored bs wsi)"
  using assms
proof (induction bs arbitrary: wsi)
  case Nil
  then show ?case by (simp add: client_stored_def rx_stored_def rx_data_def)
next
  case (Cons c bs)
  let ?w = "client_stored [c] wsi"
  have h: "rx_ubuf_head wsi < length (rx_ubuf wsi)" using Cons.prems(4,6) by (simp add: rx_inv_def)
  have len: "unat (rx_packet_length ?w) = unat (rx_packet_length wsi) - 1"
    using Cons.prems(5) by (simp add: unat_sub word_le_nat_alt)
  then have "rx_packet_length ?w \<noteq> 0" using Cons.prems(5) by auto
  then have step: "client_step env wsi c = Inr ?w"
    using Cons.prems(1-3,6) client_store_stored [OF h Cons.prems(3), of c]
    by (simp add: client_step_def lws_client_rx_sm_def client_payload_byte_def Let_def)
  have "run_bytes (client_step env) ?w bs = Inr (client_stored bs ?w)"
    using Cons.prems len client_stored_inv [OF Cons.prems(4), of "[c]"] by (intro Cons.IH) simp_all
  then show ?case by (simp add: step client_stored_Cons [OF h])
qed

lemma client_run_frame:
  assumes "client_idle wsi" and "exts env = []" and "fragment_ok opc wsi" and "rx_inv env wsi"
    and "length payload \<le> rx_limit env" and "length payload < 2 ^ 63"
    and "w = (client_stored payload ((client_started env opc (wp AND LWS_WRITE_NO_FIN = 0) wsi)
      \<lparr>this_frame_masked := False, rx_packet_length := of_nat (length payload)\<rparr>))\<lparr>lws_rx_parse_state := RXPS_NEW\<rparr>"
  shows "run_bytes (client_step env) wsi (tx_frame LWSCM_WS_SERVING opc wp msk payload) =
    (case client_spill env w of (r, w') \<Rightarrow> if r \<noteq> 0 then Inl w' else Inr w')"
proof -
  define len :: u64 where "len = of_nat (length payload)"
  define h where "h = (client_started env opc (wp AND LWS_WRITE_NO_FIN = 0) wsi)\<lparr>this_frame_masked := False, rx_packet_length := len\<rparr>"
  have len: "unat len = length payload" using assms(6) by (simp add: len_def unat_of_nat)
  have hdr: "run_bytes (client_step env) wsi (frame_header opc wp 0 len) =
      (case client_enter_payload env h of (r, w') \<Rightarrow> if r \<noteq> 0 then Inl w' else Inr w')"
    using assms(6) len by (intro client_header_run [OF assms(1-3) _ h_def]) simp
  have frame: "tx_frame LWSCM_WS_SERVING opc wp msk payload = frame_header opc wp 0 len @ payload"
    by (simp add: tx_frame_def len_def)
  show ?thesis
  proof (cases "payload = []")
    case True
    then have "w = h\<lparr>lws_rx_parse_state := RXPS_NEW\<rparr>"
      by (simp add: assms(7) h_def client_stored_def rx_stored_def rx_data_def len_def)
    then show ?thesis using True hdr by (simp add: tx_frame_def client_enter_payload_def len_def h_def)
  next
    case False
    let ?o = "h\<lparr>lws_rx_parse_state := RXPS_PAYLOAD_UNTIL_LENGTH_EXHAUSTED\<rparr>"
    let ?m = "client_stored (butlast payload) ?o"
    have "len \<noteq> 0" using False len by auto
    then have open': "run_bytes (client_step env) wsi (frame_header opc wp 0 len) = Inr ?o"
      using hdr by (simp add: client_enter_payload_def h_def)
    have o: "rx_inv env ?o" "rx_ubuf_head ?o = 0" "\<not> rx_draining_ext ?o"
      using assms(1,4) by (simp_all add: h_def client_started_def client_idle_def)
    have lt: "Suc (length (butlast payload)) = length payload" using False by simp
    have body: "run_bytes (client_step env) ?o (butlast payload) = Inr ?m"
      using o lt len assms(5) by (intro client_run_payload) (simp_all add: h_def)
    have h: "rx_ubuf_head ?o + length (butlast payload) < length (rx_ubuf ?o)"
      using o lt assms(5) by (simp add: rx_inv_def)
    have m: "rx_ubuf_head ?m < length (rx_ubuf ?m)"
      using h by (simp add: client_stored_def rx_stored_def rx_data_def)
    have all: "client_stored [last payload] ?m = client_stored payload ?o"
      using client_stored_append [OF h, of "last payload"] False by simp
    have "client_payload_byte env (last payload) ?m = client_spill env w"
    proof -
      have "rx_packet_length (client_stored payload ?o) = 0" by (simp add: h_def len_def)
      moreover have "(client_stored payload ?o)\<lparr>lws_rx_parse_state := RXPS_NEW\<rparr> = w"
        by (simp add: assms(7) h_def client_stored_def rx_stored_def len_def)
          (simp add: rx_data_def)
      moreover have "client_store (last payload) ?m = client_stored payload ?o"
        using client_store_stored [OF m] all by (simp add: h_def)
      ultimately show ?thesis by (simp add: client_payload_byte_def Let_def)
    qed
    then have "client_step env ?m (last payload) = (case client_spill env w of (r, w') \<Rightarrow> if r \<noteq> 0 then Inl w' else Inr w')"
      using o(3) by (simp add: client_step_def lws_client_rx_sm_def)
    then have "run_bytes (client_step env) ?o (butlast payload @ [last payload]) =
        (case client_spill env w of (r, w') \<Rightarrow> if r \<noteq> 0 then Inl w' else Inr w')"
      unfolding run_bytes_append body by (simp split: prod.split)
    then show ?thesis unfolding frame run_bytes_append_Inr [OF open'] using False by simp
  qed
qed

subsection \<open>What a server sends, read by the client\<close>

text \<open>Only what belongs to the message being read differs.\<close>

definition client_only :: "ws \<Rightarrow> ws \<Rightarrow> bool" where
  "client_only w wsi \<longleftrightarrow> w = wsi\<lparr>
     opcode := opcode w, rsv := rsv w, final := final w, rsv_first_msg := rsv_first_msg w, frame_is_binary := frame_is_binary w,
     this_frame_masked := this_frame_masked w, rx_packet_length := rx_packet_length w, continuation_possible := continuation_possible w,
     owed_a_fin := owed_a_fin w, check_utf8 := check_utf8 w, defeat_check_utf8 := defeat_check_utf8 w, utf8 := utf8 w,
     rx_ubuf := rx_ubuf w, rx_ubuf_head := rx_ubuf_head w\<rparr>"

lemma client_only_state:
  assumes "client_only w wsi"
  shows "wsi_state w = wsi_state wsi" "ws_log w = ws_log wsi" "lws_rx_parse_state w = lws_rx_parse_state wsi"
    "rx_draining_ext w = rx_draining_ext wsi" "ietf_spec_revision w = ietf_spec_revision wsi" "closing w = closing wsi"
  by (subst assms [unfolded client_only_def], simp add: closing_def)+

text \<open>Whether the text of a frame is checked, from which state of the validator, and whether the frame is refused.\<close>

definition text_checked :: "env \<Rightarrow> byte \<Rightarrow> ws \<Rightarrow> bool" where
  "text_checked env opc wsi \<longleftrightarrow> (if opc = 1 then validate_utf8 env else opc = 0 \<and> check_utf8 wsi)"

definition text_start :: "byte \<Rightarrow> ws \<Rightarrow> byte" where
  "text_start opc wsi = (if opc = 1 then 0 else utf8 wsi)"

definition text_refused :: "env \<Rightarrow> byte \<Rightarrow> bool \<Rightarrow> byte list \<Rightarrow> ws \<Rightarrow> bool" where
  "text_refused env opc fin payload wsi \<longleftrightarrow> text_checked env opc wsi \<and>
     (fst (lws_check_utf8 (text_start opc wsi) payload) \<noteq> 0 \<or> fin \<and> snd (lws_check_utf8 (text_start opc wsi) payload) \<noteq> 0)"

lemma client_spill_data:
  assumes "exts env = []" and "has_callback env" and "\<not> closing w" and "rx_inv env w" and "opcode w \<in> {0, 1, 2}"
    and "rx_packet_length w = 0" and "\<not> defeat_check_utf8 w" and "lws_check_utf8 (utf8 w) (rx_payload w) = (e, s)"
  shows "client_spill env w =
    (if check_utf8 w \<and> (e \<noteq> 0 \<or> final w \<and> s \<noteq> 0) then (-1, w)
     else case protocol_callback env CB_CLIENT_RECEIVE (rx_payload w)
       (w\<lparr>utf8 := if check_utf8 w then s else utf8 w, rx_ubuf := (rx_ubuf w)[rx_ubuf_head w := 0]\<rparr>) of
       (m, w') \<Rightarrow> if m \<noteq> 0 then (1, w') else (0, w'\<lparr>rx_ubuf_head := 0\<rparr>))"
proof -
  have len: "rx_ubuf_head w < length (rx_ubuf w)" using assms(4) by (simp add: rx_inv_def)
  have all: "take (rx_ubuf_head w) (rx_payload w) = rx_payload w" by (simp add: rx_payload_def)
  have "client_spill env w = client_drain env CB_CLIENT_RECEIVE False (rx_tokens w) w"
    using assms(5) by (auto simp: client_spill_def)
  also have "\<dots> = (case client_check_text 0 (rx_tokens w) w of None \<Rightarrow> (-1, w)
      | Some w' \<Rightarrow> client_deliver env CB_CLIENT_RECEIVE 0 (rx_tokens w) w')"
    using assms(1) by (simp add: client_drain_def lws_ext_cb_active_def)
  also have "client_check_text 0 (rx_tokens w) w =
      (if check_utf8 w \<and> (e \<noteq> 0 \<or> final w \<and> s \<noteq> 0) then None else Some (w\<lparr>utf8 := if check_utf8 w then s else utf8 w\<rparr>))"
    using assms(6-8) all by (simp add: client_check_text_def rx_tokens_def)
  finally have spill: "client_spill env w = (case if check_utf8 w \<and> (e \<noteq> 0 \<or> final w \<and> s \<noteq> 0) then None
      else Some (w\<lparr>utf8 := if check_utf8 w then s else utf8 w\<rparr>) of None \<Rightarrow> (-1, w)
      | Some w' \<Rightarrow> client_deliver env CB_CLIENT_RECEIVE 0 (rx_tokens w) w')" .
  have deliver: "client_deliver env CB_CLIENT_RECEIVE 0 (rx_tokens w) (w\<lparr>utf8 := x\<rparr>) =
      (case protocol_callback env CB_CLIENT_RECEIVE (rx_payload w) (w\<lparr>utf8 := x, rx_ubuf := (rx_ubuf w)[rx_ubuf_head w := 0]\<rparr>) of
        (m, w') \<Rightarrow> if m \<noteq> 0 then (1, w') else (0, w'\<lparr>rx_ubuf_head := 0\<rparr>))" for x
    using assms(2,3) len all
    by (simp add: client_deliver_def rx_tokens_def terminate_token_def rx_put_def client_tell_def closing_def)
  show ?thesis unfolding spill by (simp only: deliver option.case if_distrib [where f = "case_option _ _"])
qed

lemma client_frame:
  assumes "client_idle wsi" and "exts env = []" "has_callback env" and "fragment_ok opc wsi" and "rx_inv env wsi" "\<not> closing wsi"
    and "length payload \<le> rx_limit env" and "length payload < 2 ^ 63" and "fin = (wp AND LWS_WRITE_NO_FIN = 0)"
  shows "\<exists>w. client_only w wsi \<and> rx_inv env w \<and> opcode w = opc \<and> final w = fin \<and> continuation_possible w = (\<not> fin) \<and> owed_a_fin w = (\<not> fin) \<and>
    check_utf8 w = text_checked env opc wsi \<and>
    utf8 w = (if text_checked env opc wsi \<and> \<not> text_refused env opc fin payload wsi
      then snd (lws_check_utf8 (text_start opc wsi) payload) else text_start opc wsi) \<and>
    run_bytes (client_step env) wsi (tx_frame LWSCM_WS_SERVING opc wp msk payload) =
      (if text_refused env opc fin payload wsi then Inl w
       else case protocol_callback env CB_CLIENT_RECEIVE payload w of
         (m, w') \<Rightarrow> if m \<noteq> 0 then Inl w' else Inr (w'\<lparr>rx_ubuf_head := 0\<rparr>))"
proof -
  define h where "h = (client_started env opc fin wsi)\<lparr>this_frame_masked := False, rx_packet_length := of_nat (length payload)\<rparr>"
  define w where "w = (client_stored payload h)\<lparr>lws_rx_parse_state := RXPS_NEW\<rparr>"
  obtain e s where es: "lws_check_utf8 (text_start opc wsi) payload = (e, s)" by (rule prod.exhaust)
  have h: "rx_inv env h" "rx_ubuf_head h = 0" "length (rx_ubuf h) = rx_limit env + 4"
    using assms(1,5) by (simp_all add: h_def client_started_def client_idle_def rx_inv_def ws_ok_def)
  have run: "run_bytes (client_step env) wsi (tx_frame LWSCM_WS_SERVING opc wp msk payload) =
      (case client_spill env w of (r, w') \<Rightarrow> if r \<noteq> 0 then Inl w' else Inr w')"
    using assms by (intro client_run_frame) (simp_all add: w_def h_def)
  have opc: "opc \<in> {0, 1, 2}" using assms(4) by (auto simp: fragment_ok_def)
  have payload: "rx_payload w = payload" "rx_ubuf_head w = length payload" "length (rx_ubuf w) = rx_limit env + 4"
    using h assms(7) by (simp_all add: w_def client_stored_def rx_stored_def rx_payload_def rx_data_def)
  have w: "rx_inv env w" "opcode w = opc" "final w = fin" "rx_packet_length w = 0" "\<not> defeat_check_utf8 w"
    "check_utf8 w = text_checked env opc wsi" "utf8 w = text_start opc wsi"
    "continuation_possible w = (\<not> fin)" "owed_a_fin w = (\<not> fin)"
    using client_stored_inv [of env h payload] h assms(7) opc
    by (simp_all add: w_def) (auto simp: h_def client_stored_def rx_stored_def client_started_def text_checked_def text_start_def)
  have only: "client_only w wsi"
    using assms(1) by (simp add: client_only_def w_def h_def client_stored_def rx_stored_def client_started_def client_idle_def)
  have close: "\<not> closing w" using client_only_state(6) [OF only] assms(6) by simp
  note spill = client_spill_data [OF assms(2,3) close w(1) _ w(4,5), unfolded w(2,3,6,7) payload, OF opc es]
  show ?thesis
  proof (cases "text_refused env opc fin payload wsi")
    case True
    then have "client_spill env w = (-1, w)" using spill by (simp add: text_refused_def es)
    then show ?thesis using True run only w by (intro exI [of _ w]) simp
  next
    case False
    let ?w = "w\<lparr>utf8 := if text_checked env opc wsi then s else text_start opc wsi, rx_ubuf := (rx_ubuf w)[length payload := 0]\<rparr>"
    have "client_spill env w = (case protocol_callback env CB_CLIENT_RECEIVE payload ?w of
        (m, w') \<Rightarrow> if m \<noteq> 0 then (1, w') else (0, w'\<lparr>rx_ubuf_head := 0\<rparr>))"
      using spill False by (auto simp: text_refused_def es)
    then have "run_bytes (client_step env) wsi (tx_frame LWSCM_WS_SERVING opc wp msk payload) =
        (case protocol_callback env CB_CLIENT_RECEIVE payload ?w of
          (m, w') \<Rightarrow> if m \<noteq> 0 then Inl w' else Inr (w'\<lparr>rx_ubuf_head := 0\<rparr>))"
      using run by (simp split: prod.split)
    moreover have "client_only ?w wsi"
      using only unfolding client_only_def
      by (drule_tac arg_cong [of _ _ "\<lambda>x. x\<lparr>utf8 := if text_checked env opc wsi then s else text_start opc wsi, rx_ubuf := (rx_ubuf w)[length payload := 0]\<rparr>"]) simp
    moreover have "rx_inv env ?w" using w(1) by (simp add: rx_inv_def ws_ok_def)
    ultimately show ?thesis using False w es by (intro exI [of _ ?w]) simp
  qed
qed

text \<open>C30: What a server's \<^verbatim>\<open>lws_write\<close> puts on the wire for a data frame is what the client's application is given. The frame,
  with any of the three forms of length and an empty payload included, read byte by byte between two frames, ends in one
  \<^verbatim>\<open>LWS_CALLBACK_CLIENT_RECEIVE\<close> with the payload, the opcode and the fin bit, whose verdict decides; only a text that is not
  UTF-8, or ends inside of a character, is refused without a callback.\<close>

theorem client_reads_server_frame:
  assumes "client_idle wsi" and "exts env = []" "has_callback env" and "fragment_ok opc wsi" and "rx_inv env wsi" "\<not> closing wsi"
    and "length payload \<le> rx_limit env" and "length payload < 2 ^ 63"
  shows "\<exists>w. client_only w wsi \<and> opcode w = opc \<and> final w = (wp AND LWS_WRITE_NO_FIN = 0) \<and>
    run_bytes (client_step env) wsi (tx_frame LWSCM_WS_SERVING opc wp msk payload) =
      (if text_refused env opc (wp AND LWS_WRITE_NO_FIN = 0) payload wsi then Inl w
       else case protocol_callback env CB_CLIENT_RECEIVE payload w of
         (m, w') \<Rightarrow> if m \<noteq> 0 then Inl w' else Inr (w'\<lparr>rx_ubuf_head := 0\<rparr>))"
proof -
  obtain w where "client_only w wsi" "opcode w = opc" "final w = (wp AND LWS_WRITE_NO_FIN = 0)"
    "run_bytes (client_step env) wsi (tx_frame LWSCM_WS_SERVING opc wp msk payload) =
      (if text_refused env opc (wp AND LWS_WRITE_NO_FIN = 0) payload wsi then Inl w
       else case protocol_callback env CB_CLIENT_RECEIVE payload w of
         (m, w') \<Rightarrow> if m \<noteq> 0 then Inl w' else Inr (w'\<lparr>rx_ubuf_head := 0\<rparr>))"
    using client_frame [OF assms refl] by blast
  then show ?thesis by blast
qed

subsection \<open>Messages\<close>

text \<open>The frames of a message in pieces, and an application that takes everything.\<close>

fun message_frames :: "byte \<Rightarrow> byte list list \<Rightarrow> byte list" where
  "message_frames opc [] = []"
| "message_frames opc [p] = tx_frame LWSCM_WS_SERVING opc 0 [] p"
| "message_frames opc (p # q # ps) = tx_frame LWSCM_WS_SERVING opc LWS_WRITE_NO_FIN [] p @ message_frames 0 (q # ps)"

definition takes_all :: "env \<Rightarrow> bool" where
  "takes_all env \<longleftrightarrow> has_callback env \<and> exts env = [] \<and> (\<forall>wsi r d. user_cb env wsi r d = (0, []))"

definition between_frames :: "env \<Rightarrow> ws \<Rightarrow> bool" where
  "between_frames env wsi \<longleftrightarrow> client_idle wsi \<and> rx_inv env wsi \<and> \<not> closing wsi"

lemma quiet_frame:
  assumes "between_frames env wsi" and "takes_all env" and "fragment_ok opc wsi" and "length payload \<le> rx_limit env" "length payload < 2 ^ 63"
    and "fin = (wp AND LWS_WRITE_NO_FIN = 0)"
  shows "\<exists>w. (text_refused env opc fin payload wsi \<longrightarrow> run_bytes (client_step env) wsi (tx_frame LWSCM_WS_SERVING opc wp msk payload) = Inl w \<and>
      ws_log w = ws_log wsi) \<and>
    (\<not> text_refused env opc fin payload wsi \<longrightarrow> run_bytes (client_step env) wsi (tx_frame LWSCM_WS_SERVING opc wp msk payload) = Inr w \<and>
      ws_log w = ws_log wsi @ [Ev_callback CB_CLIENT_RECEIVE payload] \<and> between_frames env w \<and>
      continuation_possible w = (\<not> fin) \<and> owed_a_fin w = (\<not> fin) \<and> check_utf8 w = text_checked env opc wsi \<and>
      (text_checked env opc wsi \<longrightarrow> utf8 w = snd (lws_check_utf8 (text_start opc wsi) payload)))"
proof -
  have "client_idle wsi" "rx_inv env wsi" "\<not> closing wsi" "exts env = []" "has_callback env"
    using assms(1,2) by (simp_all add: between_frames_def takes_all_def)
  then obtain w where w: "client_only w wsi" "rx_inv env w" "continuation_possible w = (\<not> fin)" "owed_a_fin w = (\<not> fin)"
      "check_utf8 w = text_checked env opc wsi"
      "utf8 w = (if text_checked env opc wsi \<and> \<not> text_refused env opc fin payload wsi
        then snd (lws_check_utf8 (text_start opc wsi) payload) else text_start opc wsi)"
    and run: "run_bytes (client_step env) wsi (tx_frame LWSCM_WS_SERVING opc wp msk payload) =
      (if text_refused env opc fin payload wsi then Inl w
       else case protocol_callback env CB_CLIENT_RECEIVE payload w of
         (m, w') \<Rightarrow> if m \<noteq> 0 then Inl w' else Inr (w'\<lparr>rx_ubuf_head := 0\<rparr>))"
    using client_frame [OF _ _ _ assms(3) _ _ assms(4-6), of msk] by blast
  note same = client_only_state [OF w(1)]
  have call: "protocol_callback env CB_CLIENT_RECEIVE payload w = (0, log_event (Ev_callback CB_CLIENT_RECEIVE payload) w)"
    using assms(2) by (simp add: protocol_callback_def takes_all_def)
  show ?thesis
  proof (cases "text_refused env opc fin payload wsi")
    case True
    then show ?thesis using run same(2) by (intro exI [of _ w]) simp
  next
    case False
    let ?w = "(log_event (Ev_callback CB_CLIENT_RECEIVE payload) w)\<lparr>rx_ubuf_head := 0\<rparr>"
    have "between_frames env ?w"
      using assms(1) same w(2) by (simp add: between_frames_def client_idle_def closing_def log_event_def rx_inv_def ws_ok_def)
    then show ?thesis using False run same(2) w call by (intro exI [of _ ?w]) (simp add: log_event_def)
  qed
qed

lemma utf8_run_append: "run_bytes utf8_step s (xs @ ys) = Inr t \<longleftrightarrow>
    fst (lws_check_utf8 s xs) = 0 \<and> run_bytes utf8_step (snd (lws_check_utf8 s xs)) ys = Inr t"
  by (auto simp: run_bytes_append lws_check_utf8_def split: sum.splits)

text \<open>Whether the pieces of a message are text, from the state the first one starts in.\<close>

definition message_ok :: "env \<Rightarrow> byte \<Rightarrow> byte list list \<Rightarrow> ws \<Rightarrow> bool" where
  "message_ok env opc ps wsi \<longleftrightarrow> (text_checked env opc wsi \<longrightarrow> run_bytes utf8_step (text_start opc wsi) (concat ps) = Inr 0)"

lemma message_run:
  assumes "between_frames env wsi" and "takes_all env" and "fragment_ok opc wsi" and "ps \<noteq> []"
    and "\<forall>p \<in> set ps. length p \<le> rx_limit env \<and> length p < 2 ^ 63"
  shows "(message_ok env opc ps wsi \<longrightarrow> (\<exists>w. run_bytes (client_step env) wsi (message_frames opc ps) = Inr w \<and>
      ws_log w = ws_log wsi @ map (Ev_callback CB_CLIENT_RECEIVE) ps \<and> between_frames env w \<and> \<not> owed_a_fin w)) \<and>
    (\<not> message_ok env opc ps wsi \<longrightarrow> (\<exists>w. run_bytes (client_step env) wsi (message_frames opc ps) = Inl w \<and>
      (\<exists>k < length ps. ws_log w = ws_log wsi @ map (Ev_callback CB_CLIENT_RECEIVE) (take k ps))))"
  using assms
proof (induction opc ps arbitrary: wsi rule: message_frames.induct)
  case (2 opc p)
  have "text_refused env opc True p wsi \<longleftrightarrow> \<not> message_ok env opc [p] wsi"
    using utf8_run_append [of "text_start opc wsi" p "[]" 0] by (auto simp: text_refused_def message_ok_def)
  then show ?case
    using quiet_frame [OF 2(1-3), of p True 0 "[]"] 2(5) by (auto intro: exI [of _ 0])
next
  case (3 opc p q ps)
  let ?st = "text_start opc wsi"
  have no_fin: "LWS_WRITE_NO_FIN \<noteq> 0" by (simp add: LWS_WRITE_NO_FIN_def)
  have fits: "length p \<le> rx_limit env" "length p < 2 ^ 63" using 3(6) by simp_all
  obtain w where w: "text_refused env opc False p wsi \<longrightarrow>
        run_bytes (client_step env) wsi (tx_frame LWSCM_WS_SERVING opc LWS_WRITE_NO_FIN [] p) = Inl w \<and> ws_log w = ws_log wsi"
    "\<not> text_refused env opc False p wsi \<longrightarrow>
        run_bytes (client_step env) wsi (tx_frame LWSCM_WS_SERVING opc LWS_WRITE_NO_FIN [] p) = Inr w \<and>
        ws_log w = ws_log wsi @ [Ev_callback CB_CLIENT_RECEIVE p] \<and> between_frames env w \<and>
        continuation_possible w \<and> check_utf8 w = text_checked env opc wsi \<and>
        (text_checked env opc wsi \<longrightarrow> utf8 w = snd (lws_check_utf8 ?st p))"
    using quiet_frame [OF 3(2-4) fits, of False LWS_WRITE_NO_FIN "[]"] no_fin by auto
  show ?case
  proof (cases "text_refused env opc False p wsi")
    case True
    then have "\<not> message_ok env opc (p # q # ps) wsi"
      using utf8_run_append [of ?st p "concat (q # ps)" 0] by (auto simp: text_refused_def message_ok_def)
    then show ?thesis using True w(1) by (auto simp: run_bytes_append intro: exI [of _ 0])
  next
    case False
    then have run: "run_bytes (client_step env) wsi (tx_frame LWSCM_WS_SERVING opc LWS_WRITE_NO_FIN [] p) = Inr w"
      and next': "ws_log w = ws_log wsi @ [Ev_callback CB_CLIENT_RECEIVE p]" "between_frames env w" "fragment_ok 0 w"
        "check_utf8 w = text_checked env opc wsi" "text_checked env opc wsi \<longrightarrow> utf8 w = snd (lws_check_utf8 ?st p)"
      using w(2) by (simp_all add: fragment_ok_def)
    have same: "message_ok env opc (p # q # ps) wsi \<longleftrightarrow> message_ok env 0 (q # ps) w"
      using False next'(4,5) utf8_run_append [of ?st p "concat (q # ps)" 0]
      by (auto simp: text_refused_def message_ok_def text_checked_def [of env 0] text_start_def [of 0])
    have rest: "run_bytes (client_step env) wsi (message_frames opc (p # q # ps)) = run_bytes (client_step env) w (message_frames 0 (q # ps))"
      by (simp add: run_bytes_append run)
    note ih = 3(1) [OF next'(2) 3(3) next'(3)]
    show ?thesis
    proof (cases "message_ok env 0 (q # ps) w")
      case True
      then show ?thesis using ih 3(6) next'(1) unfolding rest same by auto
    next
      case bad: False
      then obtain v k where "run_bytes (client_step env) w (message_frames 0 (q # ps)) = Inl v" "k < length (q # ps)"
        "ws_log v = ws_log w @ map (Ev_callback CB_CLIENT_RECEIVE) (take k (q # ps))"
        using ih 3(6) by auto
      then show ?thesis
        using bad next'(1) unfolding rest same by (intro conjI impI) (auto intro!: exI [of _ "Suc k"])
    qed
  qed
qed simp

text \<open>C29: A message a server sends in pieces of any size, even cut inside of a character, reaches the client's application piece by
  piece, in order, when it is binary, when text is not checked, or when the pieces together are UTF-8; otherwise the connection
  is ended before the end of the message, and the application has seen only the pieces in front.\<close>

theorem client_reads_message:
  assumes "between_frames env wsi" and "takes_all env" and "opc = 1 \<or> opc = 2" and "\<not> owed_a_fin wsi" and "ps \<noteq> []"
    and "\<forall>p \<in> set ps. length p \<le> rx_limit env \<and> length p < 2 ^ 63"
  shows "if opc = 1 \<and> validate_utf8 env \<and> \<not> utf8_text (concat ps)
    then \<exists>w. run_bytes (client_step env) wsi (message_frames opc ps) = Inl w \<and>
      (\<exists>k < length ps. ws_log w = ws_log wsi @ map (Ev_callback CB_CLIENT_RECEIVE) (take k ps))
    else \<exists>w. run_bytes (client_step env) wsi (message_frames opc ps) = Inr w \<and>
      ws_log w = ws_log wsi @ map (Ev_callback CB_CLIENT_RECEIVE) ps \<and> between_frames env w \<and> \<not> owed_a_fin w"
proof -
  have "fragment_ok opc wsi" using assms(3,4) by (auto simp: fragment_ok_def)
  note run = message_run [OF assms(1,2) this assms(5,6)]
  have "message_ok env opc ps wsi \<longleftrightarrow> \<not> (opc = 1 \<and> validate_utf8 env \<and> \<not> utf8_text (concat ps))"
    using assms(3) run_utf8_text_iff [of "concat ps"] by (auto simp: message_ok_def text_checked_def text_start_def)
  then show ?thesis using run by simp
qed

subsection \<open>The loop stays in bounds\<close>

lemma server_drain_head: "0 \<le> fst (rx_drain_extension env act d t wsi) \<Longrightarrow> rx_ubuf_head (snd (rx_drain_extension env act d t wsi)) = 0"
  by (auto simp: rx_drain_extension_def Let_def split: prod.splits if_splits)

lemma server_spill_head: "0 \<le> fst (rx_spill env wsi) \<Longrightarrow> rx_ubuf_head (snd (rx_spill env wsi)) = 0"
  by (auto simp: rx_spill_def rx_spill_close_def rx_process_as_ping_def Let_def server_drain_head split: prod.splits if_splits)

text \<open>The server's machine, which drains extensions for the client too, leaves room as well.\<close>

lemma server_sm_room:
  assumes "exts_ok env" and "client_inv env wsi" and "0 \<le> fst (lws_rx_sm env c wsi)"
  shows "client_inv env (snd (lws_rx_sm env c wsi))"
proof -
  have inv: "rx_inv env (snd (lws_rx_sm env c wsi))"
    using rx_sm_keeps [OF assms(1) _ prod.collapse [symmetric]] assms(2) by (simp add: client_inv_def)
  have room: "rx_ubuf_head wsi < rx_limit env" "0 < rx_limit env" using assms(2) by (simp_all add: client_inv_def)
  have "rx_ubuf_head (snd (rx_payload_byte env c wsi)) < rx_limit env" if "0 \<le> fst (rx_payload_byte env c wsi)"
  proof -
    have head: "rx_ubuf_head (rx_store c wsi) = rx_ubuf_head wsi + 1" by (simp add: rx_store_def Let_def)
    show ?thesis
      using that room server_spill_head by (auto simp: rx_payload_byte_def Let_def head split: if_splits)
  qed
  moreover have "rx_ubuf_head (snd (rx_hdr_len env c wsi)) < rx_limit env" if "0 \<le> fst (rx_hdr_len env c wsi)"
    using that room server_spill_head by (auto simp: rx_hdr_len_def Let_def split: if_splits)
  moreover have first: "rx_ubuf_head (snd (rx_first c w)) = rx_ubuf_head w" for w
    by (simp add: rx_first_def Let_def)
  moreover have "rx_ubuf_head (snd (rx_new env c wsi)) < rx_limit env" if "0 \<le> fst (rx_new env c wsi)"
    using that room server_drain_head first by (auto simp: rx_new_def split: if_splits)
  ultimately have "rx_ubuf_head (snd (lws_rx_sm env c wsi)) < rx_limit env"
    using assms(3) room server_spill_head
    by (auto simp: lws_rx_sm_def rx_mask_byte_def rx_len_byte_def rx_after_len_def Let_def split: rx_parse_state.splits if_splits)
  then show ?thesis using inv by (simp add: client_inv_def)
qed

lemma client_loop_inv:
  "client_exts_ok env \<Longrightarrow> client_inv env wsi \<Longrightarrow> client_loop k env buf wsi = (r, wsi') \<Longrightarrow>
     rx_inv env wsi' \<and> (r = 0 \<longrightarrow> client_inv env wsi')"
proof (induction k env buf wsi rule: client_loop.induct)
  case (1 env buf wsi)
  then show ?case by (auto simp: client_inv_def rx_inv_def ws_ok_def set_fault_def split: if_splits)
next
  case (2 k env buf wsi)
  have inv: "rx_inv env wsi" "exts_ok env" using 2(3,4) by (simp_all add: client_inv_def client_exts_ok_def)
  define w where "w = (if rxflow_buffer wsi \<noteq> None then wsi\<lparr>rxflow_pos := rxflow_pos wsi + 1\<rparr> else wsi)"
  have w: "client_inv env w" using 2(4) by (simp add: w_def client_inv_def rx_inv_def ws_ok_def)
  obtain m v where server: "lws_rx_sm env 0 wsi = (m, v)" by (rule prod.exhaust)
  obtain n u where client: "lws_client_rx_sm env (hd buf) w = (n, u)" by (rule prod.exhaust)
  have v: "rx_inv env v" "0 \<le> m \<Longrightarrow> client_inv env v"
    using rx_sm_keeps [OF inv(2,1) server] server_sm_room [OF inv(2) 2(4), of 0] server by simp_all
  have u: "rx_inv env u" "n = 0 \<Longrightarrow> client_inv env u"
    using client_sm_after [OF 2(3) w, of "hd buf"] client by (simp_all add: client_after_def client_inv_def)
  have cache: "client_inv env (snd (lws_rxflow_cache env buf wsi))"
    using 2(4) by (simp add: lws_rxflow_cache_def client_inv_def rx_inv_def ws_ok_def)
  consider "buf = []" | "buf \<noteq> []" "\<not> rxflow_allow wsi" | "buf \<noteq> []" "rxflow_allow wsi" "rx_draining_ext wsi"
    | "buf \<noteq> []" "rxflow_allow wsi" "\<not> rx_draining_ext wsi" by blast
  then show ?case
  proof cases
    case 1
    then show ?thesis using 2(4,5) by (simp add: client_inv_def)
  next
    case flow: 2
    then show ?thesis using 2(5) cache by (auto simp: client_inv_def)
  next
    case 3
    then show ?thesis using 2(5) v 2(1) [OF 3(1) _ 3(3) server [symmetric]] 2(3) by (auto simp: server split: if_splits)
  next
    case 4
    then have step: "client_loop (Suc k) env buf wsi = (if n \<noteq> 0 then (-1, u) else client_loop k env (tl buf) u)"
      unfolding client_loop.simps(2) Let_def w_def [symmetric] client prod.case by simp
    then show ?thesis using 2(5) u 2(2) [OF 4(1) _ 4(3) w_def client [symmetric]] 2(3) 4(2) by (auto simp: step split: if_splits)
  qed
qed

text \<open>C31: No bytes a server sends make its client write outside of a buffer, although the client's machine, other than the
  server's, does not check for room before it stores a byte: the buffer is spilt when it is full, and everything that lets the
  machine go on empties it. The application's callbacks are arbitrary; extensions do not give negative lengths.\<close>

theorem client_stays_in_bounds:
  assumes "client_exts_ok env" and "client_inv env wsi" and "lws_handshake_client env buf wsi = (r, wsi')"
  shows "rx_inv env wsi' \<and> (r = 0 \<longrightarrow> client_inv env wsi')"
  using assms by (simp add: lws_handshake_client_def client_loop_inv)

subsection \<open>The first byte of a frame\<close>

lemma fin_bit: "drop_bit 7 c AND 1 = (0 :: byte) \<longleftrightarrow> c AND 0x80 = 0"
proof -
  have "unat (drop_bit 7 c AND 1) = unat c div 128 mod 2"
    by (simp add: and_one_eq unat_mod unat_drop_bit_eq drop_bit_eq_div unat_div)
  moreover have "unat c div 128 mod 2 = 0 \<longleftrightarrow> unat c < 128"
  proof -
    have "unat c div 128 < 2" by (rule less_mult_imp_div_less) simp
    then have "unat c div 128 mod 2 = unat c div 128" by (rule mod_less)
    then show ?thesis by (simp add: div_eq_0_iff)
  qed
  moreover have "drop_bit 7 c AND 1 = 0 \<longleftrightarrow> unat (drop_bit 7 c AND 1) = 0" by (simp only: unat_eq_0)
  moreover have "c AND 0x80 = 0 \<longleftrightarrow> unat c < 128" using high_bit_set [of c] by linarith
  ultimately show ?thesis by metis
qed

lemma opcode_cases:
  obtains "c AND 0xf = 0" | "c AND 0xf = 1" | "c AND 0xf = 2" | "c AND 0xf = 8" | "c AND 0xf = 9" | "c AND 0xf = 10"
    | "c AND 0xf \<in> {3, 4, 5, 6, 7, 0xb, 0xc, 0xd, 0xe, 0xf :: byte}"
proof -
  have "unat c mod 16 \<in> {0, 1, 2, 8, 9, 10} \<Longrightarrow> c AND 0xf \<in> {0, 1, 2, 8, 9, 10}"
    by (simp add: byte_eq_iff unat_and_mask_byte)
  then show thesis using that reserved_opcode [of c] by blast
qed

text \<open>Which first bytes of a frame the client refuses, exactly: a reserved opcode, a reserved bit when no extension is there to
  know it, a continuation of nothing, a new message while one is open, and a control frame without the fin bit. A ping or pong
  that is accepted in the middle of a message leaves the message as it is.\<close>

lemma client_first_byte:
  assumes "client_idle wsi"
  shows "(fst (lws_client_rx_sm env c wsi) < 0 \<longleftrightarrow>
      c AND 0xf \<notin> {0, 1, 2, 8, 9, 10} \<or> c AND 0x70 \<noteq> 0 \<and> exts env = [] \<or>
      c AND 0xf = 0 \<and> \<not> continuation_possible wsi \<or> c AND 0xf \<in> {1, 2} \<and> owed_a_fin wsi \<or>
      c AND 0xf \<in> {8, 9, 10} \<and> c AND 0x80 = 0) \<and>
    (\<forall>w. lws_client_rx_sm env c wsi = (0, w) \<and> c AND 0xf \<in> {9, 10} \<longrightarrow>
      continuation_possible w = continuation_possible wsi \<and> owed_a_fin w = owed_a_fin wsi \<and>
      check_utf8 w = check_utf8 wsi \<and> utf8 w = utf8 wsi)"
proof -
  have new: "lws_client_rx_sm env c wsi = client_new env c wsi" "ietf_spec_revision wsi = 13"
    using assms by (simp_all add: lws_client_rx_sm_def client_idle_def)
  note defs = client_new_def client_opcode_def client_flags_def Let_def fin_bit new(2)
  show ?thesis unfolding new(1)
    by (rule opcode_cases [of c]) (auto simp: defs split: if_splits)
qed

subsection \<open>More from an extension\<close>

text \<open>An extension that gives the letter B when it is asked for more.\<close>

definition one_more :: env where
  "one_more = (plain_env 9)\<lparr>exts := [\<lambda>wsi reason t.
     if reason = EXT_CB_PAYLOAD_RX then
       (case token t of None \<Rightarrow> (0, \<lparr>token = Some [66], token_len = 1, moved = True\<rparr>) | Some _ \<Rightarrow> (1, t))
     else (0, t)]\<rparr>"

text \<open>\<^verbatim>\<open>lws_handshake_client\<close> drains an extension with \<^verbatim>\<open>lws_rx_sm\<close>, the server's machine. What the extension has left then
  comes to the client's application as \<^verbatim>\<open>LWS_CALLBACK_RECEIVE\<close>; and when the buffer was spilt inside of a frame, the server's
  machine takes the zero byte it is called with for payload, until the frame ends: the application gets zeroes in place of the
  rest of the payload, and the rest of the payload is read as a frame header, which ends the connection.\<close>

lemma client_drained_by_server:
  "ws_log (snd (lws_handshake_client one_more [0x82, 1, 65, 0x82] (plain_conn LWSCM_WS_CLIENT))) =
     [Ev_ext EXT_CB_PAYLOAD_RX, Ev_callback CB_CLIENT_RECEIVE [65], Ev_ext EXT_CB_PAYLOAD_RX, Ev_callback CB_RECEIVE [66]] \<and>
   ws_log (snd (lws_handshake_client (one_more\<lparr>rx_buffer_size := 2, ext_rounds := 9\<rparr>) [0x82, 4, 65, 66, 67, 68] (plain_conn LWSCM_WS_CLIENT))) =
     [Ev_ext EXT_CB_PAYLOAD_RX, Ev_callback CB_CLIENT_RECEIVE [65, 66],
      Ev_ext EXT_CB_PAYLOAD_RX, Ev_callback CB_RECEIVE [0, 0], Ev_ext EXT_CB_PAYLOAD_RX, Ev_callback CB_RECEIVE [66]] \<and>
   fst (lws_handshake_client (one_more\<lparr>rx_buffer_size := 2, ext_rounds := 9\<rparr>) [0x82, 4, 65, 66, 67, 68] (plain_conn LWSCM_WS_CLIENT)) = -1"
  by (intro conjI; code_simp)

lemma plain_client: "between_frames (plain_env lim) (plain_conn LWSCM_WS_CLIENT)" "takes_all (plain_env lim)"
    "client_idle (plain_conn LWSCM_WS_CLIENT)" "client_inv (plain_env lim) (plain_conn LWSCM_WS_CLIENT)" "client_exts_ok (plain_env lim)"
    "\<not> owed_a_fin (plain_conn LWSCM_WS_CLIENT)"
  using plain_rx_inv [of lim] plain_idle [of LWSCM_WS_CLIENT] plain_exts_ok [of lim]
  by (simp_all add: between_frames_def takes_all_def client_idle_def rx_idle_def client_inv_def client_exts_ok_def)
    (simp_all add: plain_env_def plain_conn_def lws_union_transition_def lws_create_new_server_wsi_def)

theorem client_reads_server_frame_witness:
  "\<exists>w. client_only w (plain_conn LWSCM_WS_CLIENT) \<and>
     run_bytes (client_step (plain_env 9)) (plain_conn LWSCM_WS_CLIENT) (tx_frame LWSCM_WS_SERVING 1 LWS_WRITE_TEXT [] [72, 105]) =
     Inr ((log_event (Ev_callback CB_CLIENT_RECEIVE [72, 105]) w)\<lparr>rx_ubuf_head := 0\<rparr>)"
proof -
  have ok: "client_idle (plain_conn LWSCM_WS_CLIENT)" "rx_inv (plain_env 9) (plain_conn LWSCM_WS_CLIENT)" "\<not> closing (plain_conn LWSCM_WS_CLIENT)"
    "exts (plain_env 9) = []" "has_callback (plain_env 9)" "fragment_ok 1 (plain_conn LWSCM_WS_CLIENT)"
    using plain_client(1)[of 9] plain_client(2)[of 9] plain_client(3,6) by (simp_all add: between_frames_def takes_all_def fragment_ok_def)
  have call: "protocol_callback (plain_env 9) r d w = (0, log_event (Ev_callback r d) w)" for r d w
    by (simp add: protocol_callback_def plain_env_def)
  have "\<not> text_refused (plain_env 9) 1 (LWS_WRITE_TEXT AND LWS_WRITE_NO_FIN = 0) [72, 105] (plain_conn LWSCM_WS_CLIENT)" by code_simp
  then show ?thesis
    using client_reads_server_frame [OF ok(1,4,5,6,2,3), where payload = "[72, 105]" and wp = LWS_WRITE_TEXT and msk = "[]"]
    by (auto simp: call)
qed

theorem client_reads_message_witness:
  "\<exists>w. run_bytes (client_step (plain_env 9)) (plain_conn LWSCM_WS_CLIENT) (message_frames 1 [[0xe2], [], [0x82, 0xac]]) = Inr w \<and>
     ws_log w = [Ev_callback CB_CLIENT_RECEIVE [0xe2], Ev_callback CB_CLIENT_RECEIVE [], Ev_callback CB_CLIENT_RECEIVE [0x82, 0xac]]"
proof -
  have "run_bytes utf8_step 0 (concat [[0xe2], [], [0x82, 0xac]]) = Inr 0" by code_simp
  then have "utf8_text (concat [[0xe2], [], [0x82, 0xac]])" by (simp only: run_utf8_text_iff)
  then show ?thesis
    using client_reads_message [OF plain_client(1,2) disjI1 [OF refl] plain_client(6), of "[[0xe2], [], [0x82, 0xac]]" 9]
      plain_idle(5) by auto
qed

theorem client_stays_in_bounds_witness:
  "rx_inv (plain_env 9) (snd (lws_handshake_client (plain_env 9) [0x81, 1, 65] (plain_conn LWSCM_WS_CLIENT)))"
  using client_stays_in_bounds [OF plain_client(5,4) prod.collapse [symmetric]] by blast

end
