(* ===== verification/Sha1.thy ===== *)
theory Sha1
  imports Lws_Prelude
begin

text \<open>
  \<^verbatim>\<open>sha-1.c\<close>: the hash behind \<^verbatim>\<open>Sec-WebSocket-Accept\<close>. The context keeps the chaining value
  \<^verbatim>\<open>h\<close>, the bit count \<^verbatim>\<open>c\<close>, the 64 byte block \<^verbatim>\<open>m\<close> and the number \<^verbatim>\<open>count\<close> of bytes in it; the
  unions of the C structure are read through functions here. The build is little endian, so
  \<^verbatim>\<open>sha1_step\<close> first reverses every group of four bytes of the block, after which
  \<^verbatim>\<open>m.b32[i]\<close> is the big endian reading of the original bytes.
  The specification is FIPS 180: padding of the whole message, blocks, an 80 word schedule.
\<close>

subsection \<open>The context\<close>

record sha1_ctxt =
  h_b32 :: "u32 list"
  c_b64 :: u64
  m_b8 :: "byte list"
  count :: byte

text \<open>\<^verbatim>\<open>m.b32[i]\<close> of a little endian machine.\<close>

definition le32 :: "byte list \<Rightarrow> u32" where
  "le32 bs = ucast (bs ! 0) OR push_bit 8 (ucast (bs ! 1)) OR push_bit 16 (ucast (bs ! 2)) OR
     push_bit 24 (ucast (bs ! 3))"

definition m_b32 :: "byte list \<Rightarrow> u32 list" where
  "m_b32 m = map (\<lambda>i. le32 (take 4 (drop (4 * i) m))) [0..<16]"

text \<open>\<^verbatim>\<open>_K\<close> and the macros \<^verbatim>\<open>F0\<close> to \<^verbatim>\<open>F3\<close> and \<^verbatim>\<open>S\<close>.\<close>

definition sha1_K :: "nat \<Rightarrow> u32" where
  "sha1_K t = [0x5a827999, 0x6ed9eba1, 0x8f1bbcdc, 0xca62c1d6] ! (t div 20)"

definition sha1_F0 :: "u32 \<Rightarrow> u32 \<Rightarrow> u32 \<Rightarrow> u32" where
  "sha1_F0 b c d = (b AND c) OR (NOT b AND d)"

definition sha1_F1 :: "u32 \<Rightarrow> u32 \<Rightarrow> u32 \<Rightarrow> u32" where
  "sha1_F1 b c d = (b XOR c) XOR d"

definition sha1_F2 :: "u32 \<Rightarrow> u32 \<Rightarrow> u32 \<Rightarrow> u32" where
  "sha1_F2 b c d = (b AND c) OR (b AND d) OR (c AND d)"

definition sha1_F3 :: "u32 \<Rightarrow> u32 \<Rightarrow> u32 \<Rightarrow> u32" where
  "sha1_F3 b c d = (b XOR c) XOR d"

definition sha1_S :: "nat \<Rightarrow> u32 \<Rightarrow> u32" where
  "sha1_S n x = push_bit n x OR drop_bit (32 - n) x"

subsection \<open>One block\<close>

text \<open>
  The working variables are \<open>(W, a, b, c, d, e)\<close>; \<open>W\<close> is the sixteen word array that the
  later rounds overwrite in place.
\<close>

type_synonym sha1_vars = "u32 list \<times> u32 \<times> u32 \<times> u32 \<times> u32 \<times> u32"

definition sha1_mix :: "nat \<Rightarrow> u32 list \<Rightarrow> u32 list" where
  "sha1_mix s W =
     W[s := sha1_S 1 (W ! ((s + 13) mod 16) XOR W ! ((s + 8) mod 16) XOR
       W ! ((s + 2) mod 16) XOR W ! s)]"

definition sha1_round :: "(u32 \<Rightarrow> u32 \<Rightarrow> u32 \<Rightarrow> u32) \<Rightarrow> bool \<Rightarrow> nat \<Rightarrow> sha1_vars \<Rightarrow> sha1_vars" where
  "sha1_round F mix t v =
     (case v of (W, a, b, c, d, e) \<Rightarrow>
        let s = t mod 16;
            W' = (if mix then sha1_mix s W else W);
            tmp = sha1_S 5 a + F b c d + e + W' ! s + sha1_K t
        in (W', tmp, a, sha1_S 30 b, c, d))"

definition sha1_rounds :: "sha1_vars \<Rightarrow> sha1_vars" where
  "sha1_rounds v =
     fold (sha1_round sha1_F3 True) [60..<80]
       (fold (sha1_round sha1_F2 True) [40..<60]
         (fold (sha1_round sha1_F1 True) [20..<40]
           (fold (\<lambda>t. sha1_round sha1_F0 (16 \<le> t) t) [0..<20] v)))"

text \<open>The byte swap of the block: index \<open>i\<close> gets the byte of \<open>i XOR 3\<close>.\<close>

definition sha1_swap :: "byte list \<Rightarrow> byte list" where
  "sha1_swap m = map (\<lambda>i. m ! (4 * (i div 4) + (3 - i mod 4))) [0..<64]"

definition sha1_step :: "sha1_ctxt \<Rightarrow> sha1_ctxt" where
  "sha1_step ctxt =
     (let m = sha1_swap (m_b8 ctxt); H = h_b32 ctxt in
      case sha1_rounds (m_b32 m, H ! 0, H ! 1, H ! 2, H ! 3, H ! 4) of (W, a, b, c, d, e) \<Rightarrow>
        ctxt\<lparr>h_b32 := [H ! 0 + a, H ! 1 + b, H ! 2 + c, H ! 3 + d, H ! 4 + e],
             m_b8 := replicate 64 0\<rparr>)"

subsection \<open>The stream operations\<close>

definition sha1_init :: sha1_ctxt where
  "sha1_init = \<lparr>h_b32 = [0x67452301, 0xefcdab89, 0x98badcfe, 0x10325476, 0xc3d2e1f0],
     c_b64 = 0, m_b8 = replicate 64 0, count = 0\<rparr>"

text \<open>The macro \<^verbatim>\<open>PUTPAD\<close>.\<close>

definition sha1_putpad :: "byte \<Rightarrow> sha1_ctxt \<Rightarrow> sha1_ctxt" where
  "sha1_putpad x ctxt =
     (let ctxt = ctxt\<lparr>m_b8 := (m_b8 ctxt)[unat (count ctxt) mod 64 := x],
                      count := (count ctxt + 1) mod 64\<rparr>
      in if count ctxt mod 64 = 0 then sha1_step ctxt else ctxt)"

text \<open>\<^verbatim>\<open>bzero(&m.b8[start], n)\<close> and \<^verbatim>\<open>memcpy(&m.b8[start], bs, n)\<close>.\<close>

definition block_write :: "nat \<Rightarrow> byte list \<Rightarrow> byte list \<Rightarrow> byte list" where
  "block_write start bs m = take start m @ bs @ drop (start + length bs) m"

text \<open>\<^verbatim>\<open>c.b8[i]\<close> of the little endian count.\<close>

definition c_b8 :: "sha1_ctxt \<Rightarrow> nat \<Rightarrow> byte" where
  "c_b8 ctxt i = ucast (drop_bit (8 * i) (c_b64 ctxt))"

definition sha1_pad :: "sha1_ctxt \<Rightarrow> sha1_ctxt" where
  "sha1_pad ctxt =
     (let ctxt = sha1_putpad 0x80 ctxt;
          padstart = unat (count ctxt) mod 64;
          padlen = 64 - padstart;
          (ctxt, padstart, padlen) =
            (if padlen < 8 then
               let ctxt = sha1_step (ctxt\<lparr>m_b8 := block_write padstart (replicate padlen 0) (m_b8 ctxt),
                                          count := (count ctxt + of_nat padlen) mod 64\<rparr>);
                   padstart = unat (count ctxt) mod 64
               in (ctxt, padstart, 64 - padstart)
             else (ctxt, padstart, padlen));
          ctxt = ctxt\<lparr>m_b8 := block_write padstart (replicate (padlen - 8) 0) (m_b8 ctxt),
                      count := (count ctxt + (of_nat padlen - 8)) mod 64\<rparr>
      in fold (\<lambda>i ctxt. sha1_putpad (c_b8 ctxt i) ctxt) [7, 6, 5, 4, 3, 2, 1, 0] ctxt)"

text \<open>
  The loop over the input; \<open>inp\<close> is the input from \<^verbatim>\<open>off\<close> on. The first guard of the
  recursion is \<^verbatim>\<open>off < len\<close>.
\<close>

function sha1_loop :: "sha1_ctxt \<Rightarrow> byte list \<Rightarrow> sha1_ctxt" where
  "sha1_loop ctxt inp =
     (if inp \<noteq> [] then
        let gapstart = unat (count ctxt) mod 64;
            gaplen = 64 - gapstart;
            copysiz = (if gaplen < length inp then gaplen else length inp);
            ctxt = ctxt\<lparr>m_b8 := block_write gapstart (take copysiz inp) (m_b8 ctxt),
                        count := (count ctxt + of_nat copysiz) mod 64,
                        c_b64 := c_b64 ctxt + of_nat copysiz * 8\<rparr>;
            ctxt = (if count ctxt mod 64 = 0 then sha1_step ctxt else ctxt)
        in sha1_loop ctxt (drop copysiz inp)
      else ctxt)"
  by pat_completeness auto
termination
  by (relation "measure (\<lambda>(_, inp). length inp)") (auto simp: Let_def)

declare sha1_loop.simps [simp del]

text \<open>The digest bytes, read from \<^verbatim>\<open>h.b8\<close> in big endian order.\<close>

definition be32_bytes :: "u32 \<Rightarrow> byte list" where
  "be32_bytes w = [ucast (drop_bit 24 w), ucast (drop_bit 16 w), ucast (drop_bit 8 w), ucast w]"

definition sha1_result :: "sha1_ctxt \<Rightarrow> byte list" where
  "sha1_result ctxt = concat (map be32_bytes (h_b32 (sha1_pad ctxt)))"

definition lws_SHA1 :: "byte list \<Rightarrow> byte list" where
  "lws_SHA1 d = sha1_result (sha1_loop sha1_init d)"

subsection \<open>The specification: FIPS 180\<close>

text \<open>Message of less than \<open>2 ^ 61\<close> bytes, padded to a multiple of 64 bytes.\<close>

definition be64_bytes :: "u64 \<Rightarrow> byte list" where
  "be64_bytes w = map (\<lambda>i. ucast (drop_bit (8 * i) w)) [7, 6, 5, 4, 3, 2, 1, 0]"

definition fips_pad :: "byte list \<Rightarrow> byte list" where
  "fips_pad d = d @ [0x80] @ replicate ((119 - length d mod 64) mod 64) 0 @
     be64_bytes (8 * of_nat (length d))"

text \<open>The schedule: sixteen words of the block, then the recurrence, as a list that grows to 80.\<close>

definition be32 :: "byte list \<Rightarrow> u32" where
  "be32 bs = push_bit 24 (ucast (bs ! 0)) OR push_bit 16 (ucast (bs ! 1)) OR
     push_bit 8 (ucast (bs ! 2)) OR ucast (bs ! 3)"

definition fips_words :: "byte list \<Rightarrow> u32 list" where
  "fips_words block = map (\<lambda>i. be32 (take 4 (drop (4 * i) block))) [0..<16]"

fun fips_schedule :: "nat \<Rightarrow> u32 list \<Rightarrow> u32 list" where
  "fips_schedule 0 W = W"
| "fips_schedule (Suc n) W =
     (let t = length W in
      fips_schedule n (W @ [word_rotl 1 (W ! (t - 3) XOR W ! (t - 8) XOR W ! (t - 14) XOR W ! (t - 16))]))"

definition fips_f :: "nat \<Rightarrow> u32 \<Rightarrow> u32 \<Rightarrow> u32 \<Rightarrow> u32" where
  "fips_f t b c d =
     (if t < 20 then (b AND c) XOR (NOT b AND d)
      else if t < 40 then b XOR c XOR d
      else if t < 60 then (b AND c) XOR (b AND d) XOR (c AND d)
      else b XOR c XOR d)"

definition fips_k :: "nat \<Rightarrow> u32" where
  "fips_k t = (if t < 20 then 0x5a827999 else if t < 40 then 0x6ed9eba1
     else if t < 60 then 0x8f1bbcdc else 0xca62c1d6)"

definition fips_round ::
  "u32 list \<Rightarrow> nat \<Rightarrow> u32 \<times> u32 \<times> u32 \<times> u32 \<times> u32 \<Rightarrow> u32 \<times> u32 \<times> u32 \<times> u32 \<times> u32" where
  "fips_round W t v =
     (case v of (a, b, c, d, e) \<Rightarrow>
        (word_rotl 5 a + fips_f t b c d + e + fips_k t + W ! t, a, word_rotl 30 b, c, d))"

definition fips_block :: "u32 list \<Rightarrow> byte list \<Rightarrow> u32 list" where
  "fips_block H block =
     (case fold (fips_round (fips_schedule 64 (fips_words block))) [0..<80]
             (H ! 0, H ! 1, H ! 2, H ! 3, H ! 4) of
        (a, b, c, d, e) \<Rightarrow> [H ! 0 + a, H ! 1 + b, H ! 2 + c, H ! 3 + d, H ! 4 + e])"

fun fips_blocks :: "nat \<Rightarrow> u32 list \<Rightarrow> byte list \<Rightarrow> u32 list" where
  "fips_blocks 0 H m = H"
| "fips_blocks (Suc n) H m = fips_blocks n (fips_block H (take 64 m)) (drop 64 m)"

definition fips_sha1 :: "byte list \<Rightarrow> byte list" where
  "fips_sha1 d =
     (let m = fips_pad d in
      concat (map be32_bytes (fips_blocks (length m div 64)
        [0x67452301, 0xefcdab89, 0x98badcfe, 0x10325476, 0xc3d2e1f0] m)))"


subsection \<open>One block is the FIPS compression\<close>

lemma length_fips_schedule: "length (fips_schedule n W) = length W + n"
  by (induction n W rule: fips_schedule.induct) (simp_all add: Let_def)

lemma fips_schedule_prefix: "i < length W \<Longrightarrow> fips_schedule n W ! i = W ! i"
  by (induction n W rule: fips_schedule.induct) (simp_all add: Let_def nth_append)

lemma fips_schedule_rec:
  "16 \<le> length W \<Longrightarrow> length W \<le> t \<Longrightarrow> t < length W + n \<Longrightarrow>
   fips_schedule n W ! t = word_rotl 1 (fips_schedule n W ! (t - 3) XOR fips_schedule n W ! (t - 8) XOR
     fips_schedule n W ! (t - 14) XOR fips_schedule n W ! (t - 16))"
proof (induction n W rule: fips_schedule.induct)
  case (2 n W)
  show ?case
  proof (cases "t = length W")
    case True
    then show ?thesis using 2(2) by (simp add: Let_def fips_schedule_prefix nth_append)
  next
    case False
    then show ?thesis using 2 by (simp add: Let_def)
  qed
qed simp

lemma length_fips_words [simp]: "length (fips_words b) = 16"
  by (simp add: fips_words_def)

lemma sha1_S_rotl:
  assumes "n < 32"
  shows "sha1_S n x = word_rotl n x"
proof (rule bit_word_eqI)
  fix k assume "k < LENGTH(32)"
  then have k: "k < 32" by simp
  have "(k + 32 - n) mod 32 = (if n \<le> k then k - n else 32 + k - n)"
  proof (cases "n \<le> k")
    case True
    then have "k + 32 - n = (k - n) + 32" by simp
    then show ?thesis using True k by (simp only: mod_add_self2) simp
  qed (use assms k in simp)
  then show "bit (sha1_S n x) k = bit (word_rotl n x) k"
    using assms k bit_imp_le_length [of x "32 + k - n"] unfolding sha1_S_def
    by (auto simp: bit_simps)
qed

lemma m_b32_swap:
  assumes "length m = 64"
  shows "m_b32 (sha1_swap m) = fips_words m"
proof -
  have "le32 (take 4 (drop (4 * i) (sha1_swap m))) = be32 (take 4 (drop (4 * i) m))" if "i < 16" for i
  proof -
    have "sha1_swap m ! (4 * i + j) = m ! (4 * i + (3 - j))" if "j < 4" for j
      using \<open>i < 16\<close> that by (simp add: sha1_swap_def)
    from this [of 0] this [of 1] this [of 2] this [of 3] show ?thesis
      using that assms by (simp add: le32_def be32_def sha1_swap_def ac_simps)
  qed
  then show ?thesis by (simp add: m_b32_def fips_words_def)
qed

text \<open>The sixteen words in place are a window of the schedule.\<close>

definition window :: "u32 list \<Rightarrow> nat \<Rightarrow> u32 list \<Rightarrow> bool" where
  "window S t W \<longleftrightarrow> length W = 16 \<and> (\<forall>i. max t 16 - 16 \<le> i \<and> i < max t 16 \<longrightarrow> W ! (i mod 16) = S ! i)"

definition schedule :: "u32 list \<Rightarrow> bool" where
  "schedule S \<longleftrightarrow> length S = 80 \<and> (\<forall>t. 16 \<le> t \<and> t < 80 \<longrightarrow>
     S ! t = word_rotl 1 (S ! (t - 3) XOR S ! (t - 8) XOR S ! (t - 14) XOR S ! (t - 16)))"

lemma windowD: "window S t W \<Longrightarrow> max t 16 - 16 \<le> i \<Longrightarrow> i < max t 16 \<Longrightarrow> j = i mod 16 \<Longrightarrow> W ! j = S ! i"
  unfolding window_def by blast

lemma mod_16_back:
  assumes "k \<le> t" and "k \<le> 16"
  shows "(t mod 16 + (16 - k)) mod 16 = (t - k) mod (16 :: nat)"
proof -
  have "(t mod 16 + (16 - k)) mod 16 = (t + (16 - k)) mod 16" by (rule mod_add_left_eq)
  also have "t + (16 - k) = (t - k) + 16" using assms by simp
  finally show ?thesis by (simp only: mod_add_self2)
qed

lemma mod_16_other:
  assumes "i < t" and "t < i + 16"
  shows "i mod 16 \<noteq> t mod (16 :: nat)"
proof
  assume "i mod 16 = t mod 16"
  then have "16 dvd t - i" using assms(1) by (metis less_imp_le mod_eq_dvd_iff_nat)
  then show False using assms by (auto dest!: dvd_imp_le)
qed

lemma sha1_mix_window:
  assumes "schedule S" and w: "window S t W" and t: "16 \<le> t" "t < 80"
  shows "sha1_mix (t mod 16) W ! (t mod 16) = S ! t" and "window S (Suc t) (sha1_mix (t mod 16) W)"
proof -
  have bk: "W ! ((t mod 16 + (16 - k)) mod 16) = S ! (t - k)" if "1 \<le> k" "k \<le> 16" for k
  proof -
    have "W ! ((t - k) mod 16) = S ! (t - k)"
      by (rule windowD [OF w _ _ refl]) (use t that in auto)
    then show ?thesis using that t by (simp only: mod_16_back)
  qed
  have W: "W ! ((t mod 16 + 13) mod 16) = S ! (t - 3)" "W ! ((t mod 16 + 8) mod 16) = S ! (t - 8)"
    "W ! ((t mod 16 + 2) mod 16) = S ! (t - 14)" "W ! (t mod 16) = S ! (t - 16)"
    using bk [of 3] bk [of 8] bk [of 14] bk [of 16] by simp_all
  have "length W = 16" using w by (simp add: window_def)
  then show *: "sha1_mix (t mod 16) W ! (t mod 16) = S ! t"
    using assms(1) t by (simp add: sha1_mix_def schedule_def W W(3) [simplified] sha1_S_rotl)
  have other: "sha1_mix (t mod 16) W ! (i mod 16) = W ! (i mod 16)" if "i mod 16 \<noteq> t mod 16" for i
    using that by (simp add: sha1_mix_def)
  show "window S (Suc t) (sha1_mix (t mod 16) W)"
    unfolding window_def
  proof (intro conjI allI impI)
    show "length (sha1_mix (t mod 16) W) = 16" using \<open>length W = 16\<close> by (simp add: sha1_mix_def)
    fix i assume i: "max (Suc t) 16 - 16 \<le> i \<and> i < max (Suc t) 16"
    show "sha1_mix (t mod 16) W ! (i mod 16) = S ! i"
    proof (cases "i = t")
      case False
      then have "i mod 16 \<noteq> t mod 16" using i t by (intro mod_16_other) (auto simp: max_def split: if_splits)
      moreover have "W ! (i mod 16) = S ! i" using w i t False by (auto simp: window_def max_def)
      ultimately show ?thesis by (simp add: other)
    qed (simp add: *)
  qed
qed

lemma sha1_round_fips:
  assumes "schedule S" and "window S t W" and "t < 80" and "mix \<longleftrightarrow> 16 \<le> t" and "F = fips_f t"
  shows "\<exists>W'. sha1_round F mix t (W, v) = (W', fips_round S t v) \<and> window S (Suc t) W'"
proof -
  have K: "sha1_K t = fips_k t"
  proof -
    have "t div 20 = (if t < 20 then 0 else if t < 40 then 1 else if t < 60 then 2 else 3)"
      using assms(3) by (simp, linarith)
    then show ?thesis by (simp add: sha1_K_def fips_k_def)
  qed
  show ?thesis
  proof (cases "16 \<le> t")
    case True
    then show ?thesis
      using sha1_mix_window [OF assms(1,2) True assms(3)] assms(4,5) K
      by (auto simp: sha1_round_def fips_round_def Let_def sha1_S_rotl split: prod.splits)
  next
    case False
    then have "window S (Suc t) W" "W ! t = S ! t"
      using assms(2) by (auto simp: window_def max_def)
    then show ?thesis
      using False assms(4,5) K
      by (auto simp: sha1_round_def fips_round_def Let_def sha1_S_rotl split: prod.splits)
  qed
qed

lemma fips_f_cases:
  "t < 20 \<Longrightarrow> sha1_F0 = fips_f t" "20 \<le> t \<Longrightarrow> t < 40 \<Longrightarrow> sha1_F1 = fips_f t"
  "40 \<le> t \<Longrightarrow> t < 60 \<Longrightarrow> sha1_F2 = fips_f t" "60 \<le> t \<Longrightarrow> sha1_F3 = fips_f t"
  by (auto simp: fips_f_def sha1_F0_def sha1_F1_def sha1_F2_def sha1_F3_def fun_eq_iff bit_simps
      intro!: bit_word_eqI)

text \<open>A loop of rounds with one function, as in the four loops of the code.\<close>

lemma sha1_rounds_part:
  assumes "schedule S" and "window S k W" and "k \<le> n" and "n \<le> 80"
    and "\<And>t. k \<le> t \<Longrightarrow> t < n \<Longrightarrow> R t = sha1_round (fips_f t) (16 \<le> t) t"
  shows "\<exists>W'. fold R [k..<n] (W, v) = (W', fold (fips_round S) [k..<n] v) \<and> window S n W'"
  using assms(3-5)
proof (induction n)
  case 0
  then show ?case using assms(2) by simp
next
  case (Suc n)
  show ?case
  proof (cases "k = Suc n")
    case True
    then show ?thesis using assms(2) by simp
  next
    case False
    then have "k \<le> n" using Suc.prems(1) by simp
    then obtain W' where "fold R [k..<n] (W, v) = (W', fold (fips_round S) [k..<n] v)" "window S n W'"
      using Suc by auto
    then show ?thesis
      using \<open>k \<le> n\<close> Suc.prems(2,3) sha1_round_fips [OF assms(1), of n W' "16 \<le> n" "fips_f n"]
      by auto
  qed
qed

lemma sha1_rounds_fips:
  assumes "length w = 16"
  shows "\<exists>W'. sha1_rounds (w, v) = (W', fold (fips_round (fips_schedule 64 w)) [0..<80] v)"
proof -
  let ?S = "fips_schedule 64 w"
  have S: "schedule ?S" unfolding schedule_def
    using fips_schedule_rec [of w _ 64] assms by (simp add: length_fips_schedule)
  have W: "window ?S 0 w"
    using assms by (simp add: window_def fips_schedule_prefix)
  let ?f = "\<lambda>a b v. fold (fips_round ?S) [a..<b] v"
  obtain W1 where 1: "fold (\<lambda>t. sha1_round sha1_F0 (16 \<le> t) t) [0..<20] (w, v) = (W1, ?f 0 20 v)"
      "window ?S 20 W1"
    using sha1_rounds_part [OF S W, of 20 "\<lambda>t. sha1_round sha1_F0 (16 \<le> t) t" v]
    by (auto simp: fips_f_cases simp del: upt_rec_numeral)
  obtain W2 where 2: "fold (sha1_round sha1_F1 True) [20..<40] (W1, ?f 0 20 v) = (W2, ?f 20 40 (?f 0 20 v))"
      "window ?S 40 W2"
    using sha1_rounds_part [OF S 1(2), of 40 "sha1_round sha1_F1 True" "?f 0 20 v"] by (auto simp: fips_f_cases simp del: upt_rec_numeral)
  obtain W3 where 3: "fold (sha1_round sha1_F2 True) [40..<60] (W2, ?f 20 40 (?f 0 20 v)) =
      (W3, ?f 40 60 (?f 20 40 (?f 0 20 v)))" "window ?S 60 W3"
    using sha1_rounds_part [OF S 2(2), of 60 "sha1_round sha1_F2 True" "?f 20 40 (?f 0 20 v)"] by (auto simp: fips_f_cases simp del: upt_rec_numeral)
  obtain W4 where 4: "fold (sha1_round sha1_F3 True) [60..<80] (W3, ?f 40 60 (?f 20 40 (?f 0 20 v))) =
      (W4, ?f 60 80 (?f 40 60 (?f 20 40 (?f 0 20 v))))"
    using sha1_rounds_part [OF S 3(2), of 80 "sha1_round sha1_F3 True" "?f 40 60 (?f 20 40 (?f 0 20 v))"] by (auto simp: fips_f_cases simp del: upt_rec_numeral)
  have "[0..<80] = [0..<20] @ [20..<40] @ [40..<60] @ [60..<80]"
    using upt_add_eq_append [of 0 20 60] upt_add_eq_append [of 20 40 40] upt_add_eq_append [of 40 60 20]
    by (simp del: upt_rec_numeral)
  then show ?thesis by (simp add: sha1_rounds_def 1(1) 2(1) 3(1) 4 del: upt_rec_numeral)
qed

lemma sha1_step_fips:
  assumes "length (m_b8 ctxt) = 64"
  shows "sha1_step ctxt = ctxt\<lparr>h_b32 := fips_block (h_b32 ctxt) (m_b8 ctxt), m_b8 := replicate 64 0\<rparr>"
  using sha1_rounds_fips [of "fips_words (m_b8 ctxt)"
      "(h_b32 ctxt ! 0, h_b32 ctxt ! 1, h_b32 ctxt ! 2, h_b32 ctxt ! 3, h_b32 ctxt ! 4)"] assms
  by (auto simp: sha1_step_def fips_block_def m_b32_swap Let_def split: prod.splits)


subsection \<open>The context as a message prefix\<close>

lemma fips_blocks_append:
  "64 * n \<le> length d \<Longrightarrow> fips_blocks n H (d @ e) = fips_blocks n H d"
  by (induction n H d arbitrary: e rule: fips_blocks.induct) simp_all

lemma fips_blocks_Suc_last:
  "64 * n + 64 \<le> length d \<Longrightarrow>
     fips_blocks (Suc n) H d = fips_block (fips_blocks n H d) (take 64 (drop (64 * n) d))"
proof (induction n H d rule: fips_blocks.induct)
  case (2 n H m)
  have "fips_blocks (Suc (Suc n)) H m = fips_blocks (Suc n) (fips_block H (take 64 m)) (drop 64 m)"
    by (rule fips_blocks.simps)
  also have "\<dots> = fips_block (fips_blocks n (fips_block H (take 64 m)) (drop 64 m))
      (take 64 (drop (64 * n) (drop 64 m)))"
    using 2 by simp
  finally show ?case by (simp add: add.commute)
qed simp

definition sha1_H0 :: "u32 list" where
  "sha1_H0 = [0x67452301, 0xefcdab89, 0x98badcfe, 0x10325476, 0xc3d2e1f0]"

text \<open>The block, its fill count and the chaining value stand for the message \<open>d\<close> so far.\<close>

definition sha1_holds :: "byte list \<Rightarrow> sha1_ctxt \<Rightarrow> bool" where
  "sha1_holds d ctxt \<longleftrightarrow>
     unat (count ctxt) = length d mod 64 \<and> length (m_b8 ctxt) = 64 \<and>
     take (length d mod 64) (m_b8 ctxt) = drop (64 * (length d div 64)) d \<and>
     h_b32 ctxt = fips_blocks (length d div 64) sha1_H0 d"

text \<open>Writing bytes behind the fill count; a full block is hashed. All stream operations do this.\<close>

definition sha1_absorb :: "byte list \<Rightarrow> sha1_ctxt \<Rightarrow> sha1_ctxt" where
  "sha1_absorb bs ctxt =
     (let ctxt = ctxt\<lparr>m_b8 := block_write (unat (count ctxt) mod 64) bs (m_b8 ctxt),
                      count := (count ctxt + of_nat (length bs)) mod 64\<rparr>
      in if count ctxt mod 64 = 0 then sha1_step ctxt else ctxt)"

lemma unat_count_add:
  assumes "unat (c :: byte) < 64" and "k \<le> 64"
  shows "unat ((c + of_nat k) mod 64) = (unat c + k) mod 64"
proof -
  have "unat (of_nat k :: byte) = k" using assms by (simp add: unat_of_nat)
  moreover have "unat (c + of_nat k) = unat c + unat (of_nat k :: byte)"
    using assms calculation by (simp add: unat_word_ariths)
  ultimately show ?thesis by (simp add: unat_mod)
qed

lemma sha1_absorb_holds:
  assumes h: "sha1_holds d ctxt" and room: "length bs \<le> 64 - length d mod 64"
    and "bs \<noteq> [] \<or> length d mod 64 \<noteq> 0"
  shows "sha1_holds (d @ bs) (sha1_absorb bs ctxt)"
proof -
  let ?n = "length d mod 64" and ?q = "length d div 64"
  let ?c = "ctxt\<lparr>m_b8 := block_write ?n bs (m_b8 ctxt), count := (count ctxt + of_nat (length bs)) mod 64\<rparr>"
  have c: "unat (count ctxt) = ?n" "length (m_b8 ctxt) = 64"
    "take ?n (m_b8 ctxt) = drop (64 * ?q) d" "h_b32 ctxt = fips_blocks ?q sha1_H0 d"
    using h by (simp_all add: sha1_holds_def)
  have n: "?n < 64" "length d = 64 * ?q + ?n" by simp_all
  have cnt: "unat (count ?c) = (?n + length bs) mod 64"
    using unat_count_add [of "count ctxt" "length bs"] c(1) room by simp
  have m: "take (?n + length bs) (m_b8 ?c) = drop (64 * ?q) (d @ bs)" "length (m_b8 ?c) = 64"
    using c n(1) room by (simp_all add: block_write_def min_def minus_mult_div_eq_mod)
  have full: "(count ?c mod 64 = 0) \<longleftrightarrow> ?n + length bs = 64"
  proof -
    have "(count ?c mod 64 = 0) \<longleftrightarrow> (?n + length bs) mod 64 = 0"
      unfolding byte_eq_iff unat_mod cnt by simp
    also have "\<dots> \<longleftrightarrow> ?n + length bs = 64"
      using n(1) room assms(3) by (cases "?n + length bs < 64") auto
    finally show ?thesis .
  qed
  show ?thesis
  proof (cases "?n + length bs = 64")
    case True
    have len: "length (d @ bs) = 64 * Suc ?q"
      unfolding length_append mult_Suc_right using n(2) True by linarith
    have "sha1_absorb bs ctxt = sha1_step ?c"
      using full True c(1) by (simp add: sha1_absorb_def Let_def)
    also have "\<dots> = ?c\<lparr>h_b32 := fips_block (h_b32 ?c) (m_b8 ?c), m_b8 := replicate 64 0\<rparr>"
      by (rule sha1_step_fips) (rule m(2))
    moreover have "fips_block (h_b32 ?c) (m_b8 ?c) = fips_blocks (Suc ?q) sha1_H0 (d @ bs)"
      using fips_blocks_Suc_last [of ?q "d @ bs" sha1_H0] len m c(4) n True
      by (simp add: fips_blocks_append)
    moreover have "length (d @ bs) div 64 = Suc ?q" "length (d @ bs) mod 64 = 0"
      unfolding len by simp_all
    ultimately show ?thesis using cnt True len by (simp add: sha1_holds_def)
  next
    case False
    then have lt: "?n + length bs < 64" using room n(1) by linarith
    have "length (d @ bs) = 64 * ?q + (?n + length bs)" by simp
    then have dm: "length (d @ bs) div 64 = ?q" "length (d @ bs) mod 64 = ?n + length bs"
      using lt by (metis div_mult_self4 div_less add.right_neutral zero_neq_numeral, metis mod_mult_self4 mod_less)
    have "sha1_absorb bs ctxt = ?c"
      using full False c(1) by (simp add: sha1_absorb_def Let_def)
    then show ?thesis
      using cnt lt m c(4) by (simp add: sha1_holds_def dm del: length_append) (simp add: fips_blocks_append)
  qed
qed

lemma sha1_absorb_c_b64 [simp]: "c_b64 (sha1_absorb bs ctxt) = c_b64 ctxt"
  by (simp add: sha1_absorb_def sha1_step_def Let_def split: prod.splits)

lemma sha1_putpad_absorb: "sha1_putpad x ctxt = sha1_absorb [x] ctxt"
  if "sha1_holds d ctxt"
proof -
  have "unat (count ctxt) mod 64 < length (m_b8 ctxt)" using that by (simp add: sha1_holds_def)
  then show ?thesis
    by (simp add: sha1_putpad_def sha1_absorb_def block_write_def upd_conv_take_nth_drop)
qed

lemma sha1_holds_init: "sha1_holds [] sha1_init"
  by (simp add: sha1_holds_def sha1_init_def sha1_H0_def)

lemma sha1_holds_c_b64 [simp]: "sha1_holds d (c_b64_update f ctxt) = sha1_holds d ctxt"
  by (simp add: sha1_holds_def)

lemma sha1_absorb_update:
  "sha1_absorb bs (c_b64_update f ctxt) = c_b64_update f (sha1_absorb bs ctxt)"
  by (simp add: sha1_absorb_def sha1_step_def Let_def split: prod.splits)

lemma sha1_loop_holds:
  assumes "sha1_holds d ctxt"
  shows "sha1_holds (d @ inp) (sha1_loop ctxt inp) \<and>
    c_b64 (sha1_loop ctxt inp) = c_b64 ctxt + of_nat (length inp) * 8"
  using assms
proof (induction inp arbitrary: d ctxt rule: length_induct)
  case (1 inp)
  show ?case
  proof (cases "inp = []")
    case True
    then show ?thesis using 1 by (subst (1 2) sha1_loop.simps) simp
  next
    case False
    define n where "n = (if 64 - length d mod 64 < length inp then 64 - length d mod 64 else length inp)"
    define ctxt' where "ctxt' = sha1_absorb (take n inp) (ctxt\<lparr>c_b64 := c_b64 ctxt + of_nat n * 8\<rparr>)"
    have n: "n \<le> length inp" "0 < n" using False by (simp_all add: n_def)
    have c: "unat (count ctxt) = length d mod 64" using "1.prems" by (simp add: sha1_holds_def)
    have step: "sha1_loop ctxt inp = sha1_loop ctxt' (drop n inp)"
    proof -
      have g: "unat (count ctxt) mod 64 = length d mod 64" by (simp add: c)
      have l: "length (take n inp) = n" using n(1) by simp
      show ?thesis
        by (subst sha1_loop.simps)
          (simp only: Let_def g n_def [symmetric] False simp_thms if_True ctxt'_def sha1_absorb_def l,
           cases ctxt, use g in simp)
    qed
    have "sha1_holds (d @ take n inp) ctxt'"
      unfolding ctxt'_def using "1.prems" n False
      by (intro sha1_absorb_holds) (simp_all add: n_def)
    moreover have "length (drop n inp) < length inp" using n by simp
    ultimately have "sha1_holds ((d @ take n inp) @ drop n inp) (sha1_loop ctxt' (drop n inp)) \<and>
        c_b64 (sha1_loop ctxt' (drop n inp)) = c_b64 ctxt' + of_nat (length (drop n inp)) * 8"
      using 1 by blast
    then show ?thesis
      unfolding step using n(1) by (simp add: ctxt'_def of_nat_diff algebra_simps)
  qed
qed

text \<open>The zeros of the padding, in one or two writes.\<close>

lemma sha1_zeros:
  assumes "sha1_holds d ctxt" and "length d mod 64 + k < 64"
  shows "sha1_holds (d @ replicate k 0)
    (ctxt\<lparr>m_b8 := block_write (length d mod 64) (replicate k 0) (m_b8 ctxt),
          count := (count ctxt + of_nat k) mod 64\<rparr>)"
proof (cases "k = 0 \<and> length d mod 64 = 0")
  case True
  then have "count ctxt = 0" using assms by (simp add: sha1_holds_def unat_eq_0)
  then show ?thesis using assms(1) True by (simp add: block_write_def sha1_holds_def)
next
  case False
  let ?c = "ctxt\<lparr>m_b8 := block_write (length d mod 64) (replicate k 0) (m_b8 ctxt),
          count := (count ctxt + of_nat k) mod 64\<rparr>"
  have c: "unat (count ctxt) = length d mod 64" using assms by (simp add: sha1_holds_def)
  have "unat (count ?c) = length d mod 64 + k"
    using unat_count_add [of "count ctxt" k] c assms(2) by simp
  then have "count ?c mod 64 \<noteq> 0"
    using False assms(2) unfolding byte_eq_iff unat_mod by auto
  then have "sha1_absorb (replicate k 0) ctxt = ?c"
    using c by (simp add: sha1_absorb_def Let_def)
  then show ?thesis
    using sha1_absorb_holds [OF assms(1), of "replicate k 0"] assms(2) False by auto
qed

lemma sha1_length_bytes:
  assumes "sha1_holds d ctxt"
  shows "sha1_holds (d @ be64_bytes (c_b64 ctxt))
    (fold (\<lambda>i ctxt. sha1_putpad (c_b8 ctxt i) ctxt) [7, 6, 5, 4, 3, 2, 1, 0] ctxt)"
proof -
  have "sha1_holds (d @ map (\<lambda>i. ucast (drop_bit (8 * i) w)) js)
      (fold (\<lambda>i ctxt. sha1_putpad (c_b8 ctxt i) ctxt) js ctxt)"
    if "c_b64 ctxt = w" "sha1_holds d ctxt" for js d ctxt w
    using that
  proof (induction js arbitrary: d ctxt)
    case (Cons j js)
    have "sha1_holds (d @ [c_b8 ctxt j]) (sha1_putpad (c_b8 ctxt j) ctxt)"
      using Cons.prems(2) by (subst sha1_putpad_absorb, assumption, intro sha1_absorb_holds) 
        (simp_all add: Suc_le_eq)
    moreover have "c_b64 (sha1_putpad (c_b8 ctxt j) ctxt) = w"
      using Cons.prems sha1_putpad_absorb by simp
    ultimately show ?case
      using Cons.IH [of "sha1_putpad (c_b8 ctxt j) ctxt" "d @ [c_b8 ctxt j]"] Cons.prems(1)
      by (simp add: c_b8_def)
  qed simp
  from this [OF refl assms] show ?thesis by (simp only: be64_bytes_def)
qed

lemma pad_zeros:
  assumes "n < 64" and "p = Suc n mod 64"
  shows "(119 - n) mod 64 = (if 64 - p < 8 then 64 - p else 0) + (56 - (if 64 - p < 8 then 0 else p))"
proof -
  consider "n = 63" | "56 \<le> n" "n < 63" | "n < 56" using assms(1) by linarith
  then show ?thesis
  proof cases
    case 3
    then have "119 - n = (55 - n) + 64" "p = Suc n" using assms(2) by simp_all
    then show ?thesis using 3 by (simp only: mod_add_self2) simp
  qed (use assms(2) in simp_all)
qed

lemma sha1_pad_holds:
  assumes "sha1_holds d ctxt"
  shows "sha1_holds (d @ [0x80] @ replicate ((119 - length d mod 64) mod 64) 0 @ be64_bytes (c_b64 ctxt))
    (sha1_pad ctxt)"
proof -
  define c1 where "c1 = sha1_putpad 0x80 ctxt"
  define p where "p = length (d @ [0x80]) mod 64"
  have h1: "sha1_holds (d @ [0x80]) c1" and b1: "c_b64 c1 = c_b64 ctxt"
    using assms sha1_absorb_holds [OF assms, of "[0x80]"] sha1_putpad_absorb [OF assms]
    by (simp_all add: c1_def Suc_le_eq)
  have cnt: "unat (count c1) = p" and p: "p < 64" using h1 by (simp_all add: sha1_holds_def p_def)
  define c2 where "c2 = (if 64 - p < 8 then sha1_absorb (replicate (64 - p) 0) c1 else c1)"
  define d2 where "d2 = (if 64 - p < 8 then d @ [0x80] @ replicate (64 - p) 0 else d @ [0x80])"
  define s where "s = (if 64 - p < 8 then 0 else p)"
  have h2: "sha1_holds d2 c2" and b2: "c_b64 c2 = c_b64 ctxt"
    using h1 b1 sha1_absorb_holds [OF h1, of "replicate (64 - p) 0"] p
    by (auto simp: c2_def d2_def p_def)
  have s: "length d2 mod 64 = s" "s \<le> 56" "unat (count c2) = s"
  proof -
    have "length d2 mod 64 = s"
    proof (cases "64 - p < 8")
      case True
      have "length d2 = length (d @ [0x80]) + (64 - p)" using True by (simp add: d2_def)
      then have "length d2 mod 64 = (p + (64 - p)) mod 64" by (simp only: p_def mod_add_left_eq)
      then show ?thesis using True p by (simp add: s_def)
    qed (simp add: d2_def s_def p_def)
    then show "length d2 mod 64 = s" "unat (count c2) = s"
      using h2 by (simp_all add: sha1_holds_def)
    show "s \<le> 56" unfolding s_def by auto
  qed
  define c3 where "c3 = c2\<lparr>m_b8 := block_write s (replicate (56 - s) 0) (m_b8 c2),
      count := (count c2 + of_nat (56 - s)) mod 64\<rparr>"
  have h3: "sha1_holds (d2 @ replicate (56 - s) 0) c3" and b3: "c_b64 c3 = c_b64 ctxt"
    using sha1_zeros [OF h2, of "56 - s"] s b2 by (simp_all add: c3_def)
  have d3: "d2 @ replicate (56 - s) 0 = d @ [0x80] @ replicate ((119 - length d mod 64) mod 64) 0"
  proof -
    have "p = Suc (length d mod 64) mod 64" by (simp add: p_def mod_Suc_eq)
    then have "(119 - length d mod 64) mod 64 = (if 64 - p < 8 then 64 - p else 0) + (56 - s)"
      unfolding s_def by (intro pad_zeros) simp_all
    then show ?thesis by (simp add: d2_def s_def replicate_add)
  qed
  define G where "G = fold (\<lambda>i ctxt. sha1_putpad (c_b8 ctxt i) ctxt) [7, 6, 5, 4, 3, 2, 1, 0]"
  have pad: "sha1_pad ctxt = G c3"
  proof (cases "64 - p < 8")
    case True
    have "unat ((count c1 + of_nat (64 - p)) mod 64) = 0"
      using unat_count_add [of "count c1" "64 - p"] cnt p by simp
    then have "(count c1 + of_nat (64 - p)) mod 64 = 0" by (simp add: unat_eq_0)
    then have c2: "c2 = sha1_step (c1\<lparr>m_b8 := block_write p (replicate (64 - p) 0) (m_b8 c1),
        count := (count c1 + of_nat (64 - p)) mod 64\<rparr>)"
      using True cnt p by (simp add: c2_def sha1_absorb_def Let_def)
    have g: "unat (count c1) mod 64 = p" "unat (count c2) mod 64 = 0"
      using cnt p s(3) True by (simp_all add: s_def)
    have "(of_nat (64 - 0) - 8 :: byte) = of_nat (56 - s)" using True by (simp add: s_def)
    then show ?thesis
      unfolding sha1_pad_def Let_def G_def [symmetric] c1_def [symmetric] g(1) c3_def
      using True by (simp add: c2 [symmetric] g(2) s_def)
  next
    case False
    have g: "unat (count c1) mod 64 = p" using cnt p by simp
    have "(of_nat (64 - p) - 8 :: byte) = of_nat (56 - s)"
      using False of_nat_diff [of 8 "64 - p", where 'a = byte] by (simp add: s_def)
    then show ?thesis
      unfolding sha1_pad_def Let_def G_def [symmetric] c1_def [symmetric] g c3_def
      using False by (simp add: c2_def s_def)
  qed
  show ?thesis
    using sha1_length_bytes [OF h3] unfolding pad G_def b3 d3 by (simp only: append_assoc)
qed

subsection \<open>Properties\<close>

lemma sha1_result_fips:
  assumes "sha1_holds d ctxt" and "c_b64 ctxt = of_nat (length d) * 8"
  shows "sha1_result ctxt = fips_sha1 d"
proof -
  have "h_b32 (sha1_pad ctxt) = fips_blocks (length (fips_pad d) div 64) sha1_H0 (fips_pad d)"
    using sha1_pad_holds [OF assms(1)] assms(2) by (simp add: fips_pad_def sha1_holds_def mult.commute)
  then show ?thesis by (simp add: sha1_result_def fips_sha1_def sha1_H0_def Let_def)
qed

lemma sha1_loop_init:
  "sha1_holds d (sha1_loop sha1_init d)" "c_b64 (sha1_loop sha1_init d) = of_nat (length d) * 8"
  using sha1_loop_holds [OF sha1_holds_init, of d] by (simp_all add: sha1_init_def)

text \<open>C20: \<^verbatim>\<open>lws_SHA1\<close> is SHA-1 of FIPS 180 for every message: its in-place sixteen word schedule,
  the byte swapping on a little endian machine and the padding that runs over into a second block
  all agree with the standard's padding of the whole message, 80 word schedule and compression.\<close>

theorem lws_SHA1_is_fips180: "lws_SHA1 d = fips_sha1 d"
  by (simp add: lws_SHA1_def sha1_result_fips sha1_loop_init)

text \<open>Hashing is a stream operation: the context after \<open>xs @ ys\<close> and the context after
  \<open>xs\<close> and then \<open>ys\<close> give the same digest, and the fill count stays below 64.\<close>

lemma sha1_loop_chunks:
  "sha1_result (sha1_loop (sha1_loop sha1_init xs) ys) = lws_SHA1 (xs @ ys) \<and>
   unat (count (sha1_loop (sha1_loop sha1_init xs) ys)) < 64"
proof -
  have "sha1_holds (xs @ ys) (sha1_loop (sha1_loop sha1_init xs) ys)"
    and "c_b64 (sha1_loop (sha1_loop sha1_init xs) ys) = of_nat (length (xs @ ys)) * 8"
    using sha1_loop_holds [OF sha1_loop_init(1), of xs ys] sha1_loop_init(2) [of xs]
    by (simp_all add: algebra_simps)
  moreover from this have "unat (count (sha1_loop (sha1_loop sha1_init xs) ys)) < 64"
    by (simp add: sha1_holds_def)
  ultimately show ?thesis
    using sha1_result_fips [OF sha1_loop_init, of "xs @ ys"]
    by (simp only: lws_SHA1_def sha1_result_fips simp_thms)
qed

end
