(* ===== verification/Base64.thy ===== *)
theory Base64
  imports Lws_Prelude
begin

text \<open>
  \<^verbatim>\<open>base64-decode.c\<close>: the encoder that writes the \<^verbatim>\<open>Sec-WebSocket-Key\<close> and
  \<^verbatim>\<open>Sec-WebSocket-Accept\<close> headers and the decoder. Both write into a buffer of a given size;
  the model returns the bytes written to it together with the returned value, so that an
  overrun of the caller's buffer is visible.
\<close>

subsection \<open>The encoder\<close>

definition b64_encode_table :: "byte list" where
  "b64_encode_table =
     bytes_of (''ABCDEFGHIJKLMNOPQRSTUVWXYZ'' @ ''abcdefghijklmnopqrstuvwxyz0123456789+/'')"

text \<open>
  One turn of the loop reads up to three bytes (\<open>triple\<close>, filled with zeros) and appends four
  characters; \<open>-1\<close> when they do not fit with one more byte left.
\<close>

function b64_encode_loop :: "int \<Rightarrow> int \<Rightarrow> byte list \<Rightarrow> byte list \<Rightarrow> byte list \<times> int" where
  "b64_encode_loop out_size done out inp =
     (if inp \<noteq> [] then
        let len = min 3 (length inp);
            t0 = inp ! 0;
            t1 = (if 1 < length inp then inp ! 1 else 0);
            t2 = (if 2 < length inp then inp ! 2 else 0)
        in if out_size \<le> done + 4 then (out, -1)
           else b64_encode_loop out_size (done + 4)
             (out @ [b64_encode_table ! unat (drop_bit 2 t0),
                     b64_encode_table ! unat (push_bit 4 (t0 AND 0x03) OR drop_bit 4 (t1 AND 0xf0)),
                     (if 1 < len then
                        b64_encode_table ! unat (push_bit 2 (t1 AND 0x0f) OR drop_bit 6 (t2 AND 0xc0))
                      else of_char CHR ''=''),
                     (if 2 < len then b64_encode_table ! unat (t2 AND 0x3f)
                      else of_char CHR ''='')])
             (drop 3 inp)
      else if out_size \<le> done + 1 then (out, -1)
      else (out @ [0], done))"
  by pat_completeness auto
termination by (relation "measure (\<lambda>(_, _, _, inp). length inp)") auto

declare b64_encode_loop.simps [simp del]

definition lws_b64_encode_string :: "byte list \<Rightarrow> int \<Rightarrow> byte list \<times> int" where
  "lws_b64_encode_string inp out_size = b64_encode_loop out_size 0 [] inp"

subsection \<open>The decoder\<close>

definition b64_decode_table :: "byte list" where
  "b64_decode_table =
     bytes_of (''|$$$}rstuvwxyz{$$$$$$$>?@ABCDEFGHIJKLMNOPQRSTUVW'' @
               ''$$$$$$XYZ['' @ [CHR 0x5c] @ '']^_'' @ [CHR 0x60] @ ''abcdefghijklmnopq'')"

text \<open>The value of a character plus one, 0 for a character outside of the alphabet.\<close>

definition b64_value :: "byte \<Rightarrow> byte" where
  "b64_value c =
     (let v = (if c < 43 \<or> 122 < c then 0 else b64_decode_table ! unat (c - 43))
      in if v \<noteq> 0 then (if v = of_char CHR ''$'' then 0 else v - 61) else v)"

text \<open>
  The inner \<^verbatim>\<open>while (*in && !v)\<close>: skip characters until one with a value; the last character
  read, its value and the rest of the input.
\<close>

fun b64_fetch :: "byte \<Rightarrow> byte list \<Rightarrow> byte \<times> byte \<times> byte list" where
  "b64_fetch c [] = (c, 0, [])"
| "b64_fetch c (x # inp) =
     (let v = b64_value x in if v \<noteq> 0 then (x, v, inp) else b64_fetch x inp)"

text \<open>
  The \<^verbatim>\<open>for (i = 0; i < 4 && *in; i++)\<close>: \<open>n\<close> turns are left, so \<^verbatim>\<open>i\<close> is \<open>4 - n\<close>. An entry of
  \<^verbatim>\<open>quad\<close> for which no value was found keeps what it held before.
\<close>

fun b64_group :: "nat \<Rightarrow> int \<Rightarrow> byte \<Rightarrow> byte list \<Rightarrow> byte list \<Rightarrow> int \<times> byte \<times> byte list \<times> byte list" where
  "b64_group 0 len c quad inp = (len, c, quad, inp)"
| "b64_group (Suc n) len c quad inp =
     (if inp = [] then (len, c, quad, inp)
      else case b64_fetch 0 inp of (c', v, inp') \<Rightarrow>
        if c' \<noteq> 0 then
          b64_group n (len + 1) c' (if v \<noteq> 0 then quad[3 - n := v - 1] else quad) inp'
        else b64_group n len c' (quad[3 - n := 0]) inp')"

lemma b64_fetch_length: "length (snd (snd (b64_fetch c inp))) \<le> length inp"
  by (induction c inp rule: b64_fetch.induct) (auto simp: Let_def)

lemma b64_fetch_shorter: "inp \<noteq> [] \<Longrightarrow> length (snd (snd (b64_fetch c inp))) < length inp"
  by (cases inp) (auto simp: Let_def le_imp_less_Suc b64_fetch_length)

lemma b64_group_length: "length (snd (snd (snd (b64_group n len c quad inp)))) \<le> length inp"
proof (induction n len c quad inp rule: b64_group.induct)
  case (2 n len c quad inp)
  then show ?case
    using b64_fetch_length [of 0 inp] by (fastforce split: prod.splits)
qed simp

lemma b64_group_shorter:
  assumes "inp \<noteq> []"
  shows "length (snd (snd (snd (b64_group (Suc n) len c quad inp)))) < length inp"
proof -
  obtain c' v inp' where f: "b64_fetch 0 inp = (c', v, inp')" by (rule prod_cases3)
  then have "length inp' < length inp" using b64_fetch_shorter [OF assms, of 0] by simp
  then have "length (snd (snd (snd (b64_group n l d q inp')))) < length inp" for l d q
    by (rule le_less_trans [OF b64_group_length])
  then show ?thesis using assms by (simp add: f)
qed

lemma b64_group_4_shorter:
  "inp \<noteq> [] \<Longrightarrow> b64_group 4 len c quad inp = (len', c', q, inp') \<Longrightarrow> length inp' < length inp"
  using b64_group_shorter [of inp 3 len c quad] by (simp del: b64_group.simps)

function b64_decode_loop ::
  "int \<Rightarrow> int \<Rightarrow> byte list \<Rightarrow> byte list \<Rightarrow> byte list \<Rightarrow> byte list \<times> int" where
  "b64_decode_loop out_size done out quad inp =
     (if inp \<noteq> [] then
        case b64_group 4 0 0 quad inp of (len, c, q, inp') \<Rightarrow>
          if out_size < done + len - 1 then (out, -1)
          else let len = (if inp' = [] \<and> c = of_char CHR ''='' then len - 1 else len);
                   out = out @
                     (if 2 \<le> len then [push_bit 2 (q ! 0) OR drop_bit 4 (q ! 1)] else []) @
                     (if 3 \<le> len then [push_bit 4 (q ! 1) OR drop_bit 2 (q ! 2)] else []) @
                     (if 4 \<le> len then [(push_bit 6 (q ! 2) AND 0xc0) OR q ! 3] else [])
               in b64_decode_loop out_size (done + len - 1) out q inp'
      else if out_size \<le> done + 1 then (out, -1)
      else (out @ [0], done))"
  by pat_completeness auto
termination
  by (relation "measure (\<lambda>(_, _, _, _, inp). length inp)")
    (simp, clarsimp, metis b64_group_4_shorter)

declare b64_decode_loop.simps [simp del]

text \<open>\<open>quad\<close> is the content of the uninitialised array of the caller's stack.\<close>

definition lws_b64_decode_string :: "byte list \<Rightarrow> byte list \<Rightarrow> int \<Rightarrow> byte list \<times> int" where
  "lws_b64_decode_string quad inp out_size = b64_decode_loop out_size 0 [] quad (c_str inp)"


subsection \<open>The tables\<close>

lemma b64_encode_table_eval [code]: "b64_encode_table = [
  65, 66, 67, 68, 69, 70, 71, 72, 73, 74, 75, 76, 77, 78, 79, 80, 81, 82, 83, 84, 85, 86, 87, 88,
  89, 90, 97, 98, 99, 100, 101, 102, 103, 104, 105, 106, 107, 108, 109, 110, 111, 112, 113, 114,
  115, 116, 117, 118, 119, 120, 121, 122, 48, 49, 50, 51, 52, 53, 54, 55, 56, 57, 43, 47]"
  by code_simp

lemma b64_decode_table_eval [code]: "b64_decode_table = [
  124, 36, 36, 36, 125, 114, 115, 116, 117, 118, 119, 120, 121, 122, 123, 36, 36, 36, 36, 36, 36,
  36, 62, 63, 64, 65, 66, 67, 68, 69, 70, 71, 72, 73, 74, 75, 76, 77, 78, 79, 80, 81, 82, 83, 84,
  85, 86, 87, 36, 36, 36, 36, 36, 36, 88, 89, 90, 91, 92, 93, 94, 95, 96, 97, 98, 99, 100, 101,
  102, 103, 104, 105, 106, 107, 108, 109, 110, 111, 112, 113]"
  by code_simp

lemma b64_value_table: "map b64_value b64_encode_table = map (\<lambda>k. of_nat k + 1) [0..<64]"
  by code_simp

lemma b64_table_chars: "0 \<notin> set b64_encode_table" "of_char CHR ''='' \<notin> set b64_encode_table"
  "length b64_encode_table = 64"
  by (simp_all add: b64_encode_table_eval)

lemma b64_value_nth:
  assumes "k < 64"
  shows "b64_value (b64_encode_table ! k) = of_nat k + 1"
proof -
  have "map b64_value b64_encode_table ! k = of_nat k + 1"
    using assms by (simp add: b64_value_table)
  then show ?thesis using assms by (simp add: b64_table_chars)
qed

lemma b64_nth_chars:
  "k < 64 \<Longrightarrow> b64_encode_table ! k \<noteq> 0" "k < 64 \<Longrightarrow> b64_encode_table ! k \<noteq> of_char CHR ''=''"
  using b64_table_chars nth_mem [of k b64_encode_table] by fastforce+

lemma b64_value_pad: "b64_value (of_char CHR ''='') = 0"
  by code_simp

lemma b64_of_nat_succ: "k < 64 \<Longrightarrow> (of_nat k + 1 :: byte) \<noteq> 0"
  by (simp add: word_unat_eq_iff unat_word_ariths)

lemma b64_fetch_char:
  "k < 64 \<Longrightarrow> b64_fetch c (b64_encode_table ! k # inp) = (b64_encode_table ! k, of_nat k + 1, inp)"
  by (simp add: b64_value_nth b64_of_nat_succ)

subsection \<open>The specification\<close>

text \<open>RFC 4648: three bytes are a 24 bit number, written as four digits to base 64.\<close>

definition b64_sextets :: "nat \<Rightarrow> nat list" where
  "b64_sextets k = [k div 262144, k div 4096 mod 64, k div 64 mod 64, k mod 64]"

fun b64_text :: "byte list \<Rightarrow> byte list" where
  "b64_text [] = []"
| "b64_text [a] = map (nth b64_encode_table) (take 2 (b64_sextets (unat a * 65536))) @
     bytes_of ''==''"
| "b64_text [a, b] =
     map (nth b64_encode_table) (take 3 (b64_sextets (unat a * 65536 + unat b * 256))) @ bytes_of ''=''"
| "b64_text (a # b # c # bs) =
     map (nth b64_encode_table) (b64_sextets (unat a * 65536 + unat b * 256 + unat c)) @ b64_text bs"

declare b64_text.simps(2-4) [simp del]

lemma sextet_arith:
  "b < 256 \<Longrightarrow> (a * 256 + b) div 16 mod 64 = a mod 4 * 16 + b div (16 :: nat)"
  "c < 4 \<Longrightarrow> ((a * 256 + b) * 4 + c) mod 64 = b mod 16 * 4 + (c :: nat)"
proof -
  have shift: "(x * 64 + y) mod 64 = y" if "y < 64" for x y :: nat using that by simp
  have "(a * 256 + b) div 16 = a * 16 + b div 16"
    using div_mult_self3 [of 16 "a * 16" b] by (simp add: mult.assoc)
  also have "\<dots> = a div 4 * 64 + (a mod 4 * 16 + b div 16)"
    using div_mult_mod_eq [of a 4] by linarith
  finally have eq: "(a * 256 + b) div 16 = a div 4 * 64 + (a mod 4 * 16 + b div 16)" .
  show "(a * 256 + b) div 16 mod 64 = a mod 4 * 16 + b div (16 :: nat)" if "b < 256"
    unfolding eq using that by (intro shift) linarith
  obtain q r where b: "b = q * 16 + r" "b div 16 = q" "b mod 16 = r" by (metis div_mult_mod_eq)
  have eq: "(a * 256 + b) * 4 + c = (a * 16 + b div 16) * 64 + (b mod 16 * 4 + c)"
    unfolding b(2,3) by (simp add: b(1))
  show "((a * 256 + b) * 4 + c) mod 64 = b mod 16 * 4 + (c :: nat)" if "c < 4"
    unfolding eq using that by (intro shift) linarith
qed

lemma b64_sextets_bytes:
  assumes "b < 256" "c < 256"
  shows "b64_sextets (a * 65536 + b * 256 + c) =
    [a div 4, a mod 4 * 16 + b div 16, b mod 16 * 4 + c div 64, c mod 64]"
proof -
  define k where "k = a * 65536 + b * 256 + c"
  have k8: "k div 256 = a * 256 + b" using assms by (simp add: k_def)
  have "k div 65536 = k div 256 div 256" by (simp flip: div_mult2_eq)
  then have k16: "k div 65536 = a" using assms k8 by simp
  have "k div 262144 = a div 4" by (simp flip: k16 div_mult2_eq)
  moreover have "k div 4096 = (a * 256 + b) div 16" by (simp flip: k8 div_mult2_eq)
  then have "k div 4096 mod 64 = a mod 4 * 16 + b div 16" using assms sextet_arith(1) by simp
  moreover have "k div 64 = (a * 256 + b) * 4 + c div 64"
    using div_mult_self3 [of 64 "(a * 256 + b) * 4" c] by (simp add: k_def)
  then have "k div 64 mod 64 = b mod 16 * 4 + c div 64"
    using assms sextet_arith(2) [of "c div 64"] by simp
  moreover have "k mod 64 = c mod 64"
    using mod_mult_self3 [of "(a * 256 + b) * 4" 64 c] by (simp add: k_def algebra_simps)
  ultimately show ?thesis by (simp add: b64_sextets_def flip: k_def)
qed

lemma b64_text_Cons:
  "b64_text [a] = [b64_encode_table ! (unat a div 4), b64_encode_table ! (unat a mod 4 * 16),
     of_char CHR ''='', of_char CHR ''='']"
  "b64_text [a, b] = [b64_encode_table ! (unat a div 4),
     b64_encode_table ! (unat a mod 4 * 16 + unat b div 16),
     b64_encode_table ! (unat b mod 16 * 4), of_char CHR ''='']"
  "b64_text (a # b # c # bs) = [b64_encode_table ! (unat a div 4),
     b64_encode_table ! (unat a mod 4 * 16 + unat b div 16),
     b64_encode_table ! (unat b mod 16 * 4 + unat c div 64), b64_encode_table ! (unat c mod 64)]
     @ b64_text bs"
  using b64_sextets_bytes [of 0 0 "unat a"] b64_sextets_bytes [of "unat b" 0 "unat a"]
    b64_sextets_bytes [of "unat b" "unat c" "unat a"]
  by (simp_all add: bytes_of_def b64_text.simps)

lemma b64_fields:
  "unat (push_bit 4 (a AND 3) OR drop_bit 4 (b AND 0xf0)) = unat a mod 4 * 16 + unat b div 16"
  "unat (push_bit 2 (b AND 0x0f) OR drop_bit 6 (c AND 0xc0)) = unat b mod 16 * 4 + unat c div 64"
  for a b c :: byte
proof -
  have "unat b div 16 < 16" "unat c div 64 < 4"
    using unat_byte_lt [of b] unat_byte_lt [of c] by linarith+
  then show
    "unat (push_bit 4 (a AND 3) OR drop_bit 4 (b AND 0xf0)) = unat a mod 4 * 16 + unat b div 16"
    "unat (push_bit 2 (b AND 0x0f) OR drop_bit 6 (c AND 0xc0)) = unat b mod 16 * 4 + unat c div 64"
    unfolding unat_and_high_byte
    by (subst unat_or_join; simp add: unat_and_mask_byte)+
qed

lemma byte_join:
  assumes "x * 2 ^ n + y < 256" and "y < 2 ^ n"
  shows "push_bit n (of_nat x) OR of_nat y = (of_nat (x * 2 ^ n + y) :: byte)"
proof -
  have "x * 1 \<le> x * 2 ^ n" by (rule mult_le_mono2) simp
  then have "x < 256" "y < 256" using assms(1) by linarith+
  then have "unat (push_bit n (of_nat x) OR of_nat y :: byte) = x * 2 ^ n + y"
    using assms by (subst unat_or_join) simp_all
  then show ?thesis
    unfolding byte_eq_iff by (simp only: unat_of_nat_byte [OF assms(1)])
qed

lemma byte_drop: "x < 256 \<Longrightarrow> drop_bit n (of_nat x) = (of_nat (x div 2 ^ n) :: byte)"
proof -
  assume "x < 256"
  moreover from this have "x div 2 ^ n < 256" using div_le_dividend [of x "2 ^ n"] by linarith
  ultimately show ?thesis
    unfolding byte_eq_iff by (simp only: unat_drop_bit unat_of_nat_byte)
qed

lemma byte_trunc:
  "x < 64 \<Longrightarrow> push_bit 4 (of_nat x) = (push_bit 4 (of_nat (x mod 16)) :: byte)"
  "x < 64 \<Longrightarrow> push_bit 6 (of_nat x) AND 0xc0 = (push_bit 6 (of_nat (x mod 4)) :: byte)"
proof -
  have "list_all (\<lambda>x. push_bit 4 (of_nat x) = (push_bit 4 (of_nat (x mod 16)) :: byte) \<and>
      push_bit 6 (of_nat x) AND 0xc0 = (push_bit 6 (of_nat (x mod 4)) :: byte)) [0..<64]"
    by code_simp
  then show "x < 64 \<Longrightarrow> push_bit 4 (of_nat x) = (push_bit 4 (of_nat (x mod 16)) :: byte)"
    "x < 64 \<Longrightarrow> push_bit 6 (of_nat x) AND 0xc0 = (push_bit 6 (of_nat (x mod 4)) :: byte)"
    by (simp_all only: list_all_iff set_upt atLeast0LessThan Ball_def lessThan_iff)
qed

lemma b64_fields_back:
  assumes "a < 256" "b < 256" "c < 256"
  shows "push_bit 2 (of_nat (a div 4)) OR drop_bit 4 (of_nat (a mod 4 * 16 + b div 16)) = (of_nat a :: byte)"
    and "push_bit 4 (of_nat (a mod 4 * 16 + b div 16)) OR drop_bit 2 (of_nat (b mod 16 * 4 + c div 64))
      = (of_nat b :: byte)"
    and "(push_bit 6 (of_nat (b mod 16 * 4 + c div 64)) AND 0xc0) OR of_nat (c mod 64) = (of_nat c :: byte)"
proof -
  have div: "b div 16 < 16" "c div 64 < 4" using assms by linarith+
  then have small: "a mod 4 * 16 + b div 16 < 64" "b mod 16 * 4 + c div 64 < 64" by linarith+
  have parts: "(a mod 4 * 16 + b div 16) mod 16 = b div 16" "(b mod 16 * 4 + c div 64) mod 4 = c div 64"
    "(a mod 4 * 16 + b div 16) div 16 = a mod 4" "(b mod 16 * 4 + c div 64) div 4 = b mod 16"
    using div by simp_all
  show "push_bit 2 (of_nat (a div 4)) OR drop_bit 4 (of_nat (a mod 4 * 16 + b div 16)) = (of_nat a :: byte)"
    using byte_drop [of "a mod 4 * 16 + b div 16" 4] byte_join [of "a div 4" 2 "a mod 4"] small assms(1)
    by (simp add: parts)
  show "push_bit 4 (of_nat (a mod 4 * 16 + b div 16)) OR drop_bit 2 (of_nat (b mod 16 * 4 + c div 64))
      = (of_nat b :: byte)"
    using byte_drop [of "b mod 16 * 4 + c div 64" 2] byte_join [of "b div 16" 4 "b mod 16"] small assms(2)
      byte_trunc(1) [OF small(1)]
    by (simp add: parts)
  show "(push_bit 6 (of_nat (b mod 16 * 4 + c div 64)) AND 0xc0) OR of_nat (c mod 64) = (of_nat c :: byte)"
    using byte_join [of "c div 64" 6 "c mod 64"] small assms(3) byte_trunc(2) [OF small(2)]
    by (simp add: parts)
qed

lemma unat_push_bit_2: "unat (push_bit 2 (b AND 0x0f) :: byte) = unat b mod 16 * 4"
  using b64_fields(2) [of b 0] by simp

lemma b64_encode_loop_ok:
  assumes "dn + int (length (b64_text inp)) + 1 < out_size"
  shows "b64_encode_loop out_size dn out inp =
    (out @ b64_text inp @ [0], dn + int (length (b64_text inp)))"
  using assms
proof (induction out_size dn out inp rule: b64_encode_loop.induct)
  case (1 out_size dn out inp)
  show ?case
  proof (cases inp rule: b64_text.cases)
    case 1
    then show ?thesis using "1.prems" by (subst b64_encode_loop.simps) simp
  next
    case (2 a)
    then show ?thesis using "1.prems"
      by (subst b64_encode_loop.simps, subst b64_encode_loop.simps)
        (simp add: b64_text_Cons b64_fields unat_and_mask_byte unat_push_bit_2 Let_def del: push_bit_and drop_bit_and b64_fields [of _ 0, simplified])
  next
    case (3 a b)
    then show ?thesis using "1.prems"
      by (subst b64_encode_loop.simps, subst b64_encode_loop.simps)
        (simp add: b64_text_Cons b64_fields unat_and_mask_byte unat_push_bit_2 Let_def del: push_bit_and drop_bit_and b64_fields [of _ 0, simplified])
  next
    case (4 a b c bs)
    then show ?thesis using "1.prems" "1.IH"
      by (subst b64_encode_loop.simps)
        (simp add: b64_text_Cons b64_fields unat_and_mask_byte unat_push_bit_2 Let_def del: push_bit_and drop_bit_and)
  qed
qed

lemma b64_indices [simp]:
  "unat (a :: byte) div 4 < 64" "x mod 4 * 16 + unat (b :: byte) div 16 < 64"
  "x mod 16 * 4 + unat (c :: byte) div 64 < 64" "x mod 4 * 16 < (64 :: nat)" "x mod 16 * 4 < (64 :: nat)"
  using unat_byte_lt [of a] unat_byte_lt [of b] unat_byte_lt [of c] by linarith+

lemma b64_text_no_nul: "0 \<notin> set (b64_text inp)"
  by (induction inp rule: b64_text.induct) (simp_all add: b64_text_Cons b64_nth_chars [THEN not_sym])

subsection \<open>Decoding what was encoded\<close>

lemma b64_group_turn:
  "k < 64 \<Longrightarrow> b64_group (Suc n) len c quad (b64_encode_table ! k # inp) =
     b64_group n (len + 1) (b64_encode_table ! k) (quad[3 - n := of_nat k]) inp"
  by (simp only: b64_group.simps b64_fetch_char)
    (simp add: b64_nth_chars b64_of_nat_succ)

lemma b64_group_pad:
  "b64_group (Suc n) len c quad [of_char CHR ''=''] = (len + 1, of_char CHR ''='', quad, [])"
  "b64_group (Suc n) len c quad [of_char CHR ''='', of_char CHR ''=''] =
     (len + 1, of_char CHR ''='', quad, [])"
  using b64_value_pad by (cases n; simp)+

lemma b64_group_text:
  assumes "i < 64" "j < 64"
  shows "k < 64 \<Longrightarrow> l < 64 \<Longrightarrow> b64_group 4 0 c [q0, q1, q2, q3]
      (b64_encode_table ! i # b64_encode_table ! j # b64_encode_table ! k # b64_encode_table ! l # inp)
    = (4, b64_encode_table ! l, [of_nat i, of_nat j, of_nat k, of_nat l], inp)"
    and "k < 64 \<Longrightarrow> b64_group 4 0 c [q0, q1, q2, q3]
      [b64_encode_table ! i, b64_encode_table ! j, b64_encode_table ! k, of_char CHR ''='']
    = (4, of_char CHR ''='', [of_nat i, of_nat j, of_nat k, q3], [])"
    and "b64_group 4 0 c [q0, q1, q2, q3]
      [b64_encode_table ! i, b64_encode_table ! j, of_char CHR ''='', of_char CHR ''='']
    = (3, of_char CHR ''='', [of_nat i, of_nat j, q2, q3], [])"
  using assms b64_value_pad
  by (simp_all only: numeral_eq_Suc pred_numeral_simps BitM.simps b64_group_turn b64_group_pad) (simp_all)

lemma b64_decode_text:
  assumes "length quad = 4" and "dn + int (length inp) + 1 < out_size"
  shows "b64_decode_loop out_size dn out quad (b64_text inp) = (out @ inp @ [0], dn + int (length inp))"
  using assms
proof (induction inp arbitrary: dn out quad rule: b64_text.induct)
  case 1
  then show ?case by (subst b64_decode_loop.simps) simp
next
  case (2 a)
  then obtain q0 q1 q2 q3 where "quad = [q0, q1, q2, q3]"
    by (auto simp: numeral_eq_Suc length_Suc_conv)
  then show ?case
    using 2(2) b64_fields_back(1) [of "unat a" 0 0]
    by (subst b64_decode_loop.simps, subst b64_decode_loop.simps)
      (simp add: b64_text_Cons b64_group_text [simplified] del: of_nat_mult of_nat_add)
next
  case (3 a b)
  then obtain q0 q1 q2 q3 where "quad = [q0, q1, q2, q3]"
    by (auto simp: numeral_eq_Suc length_Suc_conv)
  then show ?case
    using 3(2) b64_fields_back(1,2) [of "unat a" "unat b" 0]
    by (subst b64_decode_loop.simps, subst b64_decode_loop.simps)
      (simp add: b64_text_Cons b64_group_text [simplified] del: of_nat_mult of_nat_add)
next
  case (4 a b c bs)
  then obtain q0 q1 q2 q3 where "quad = [q0, q1, q2, q3]"
    by (auto simp: numeral_eq_Suc length_Suc_conv)
  then show ?case
    using 4 b64_fields_back [of "unat a" "unat b" "unat c"] b64_nth_chars(2) [of "unat c mod 64"]
    by (subst b64_decode_loop.simps)
      (simp add: b64_text_Cons b64_group_text [simplified] del: of_nat_mult of_nat_add)
qed

subsection \<open>Room in the caller's buffer\<close>

lemma div_3_step: "(5 + n) div 3 = Suc (Suc (Suc n) div 3)"
  by presburger

lemma length_b64_text: "length (b64_text inp) = 4 * ((length inp + 2) div 3)"
  by (induction inp rule: b64_text.induct) (simp_all add: b64_text_Cons div_3_step)

lemma b64_encode_loop_small:
  assumes "out_size \<le> dn + int (length (b64_text inp)) + 1" and "length out = nat dn"
    and "0 \<le> dn" and "dn \<le> out_size"
  shows "snd (b64_encode_loop out_size dn out inp) = -1 \<and>
    int (length (fst (b64_encode_loop out_size dn out inp))) \<le> out_size"
  using assms
proof (induction inp arbitrary: dn out rule: length_induct)
  case (1 inp)
  show ?case
  proof (cases "inp = [] \<or> out_size \<le> dn + 4")
    case True
    then show ?thesis using "1.prems"
      by (subst b64_encode_loop.simps; subst b64_encode_loop.simps) (auto simp: Let_def)
  next
    case False
    then have len: "length (b64_text inp) = 4 + length (b64_text (drop 3 inp))"
      by (cases inp rule: b64_text.cases) (simp_all add: length_b64_text div_3_step)
    have "snd (b64_encode_loop out_size (dn + 4) out' (drop 3 inp)) = -1 \<and>
        int (length (fst (b64_encode_loop out_size (dn + 4) out' (drop 3 inp)))) \<le> out_size"
      if "length out' = nat (dn + 4)" for out'
      using 1 False len that by (intro "1.IH" [rule_format]) auto
    then show ?thesis using "1.prems" False
      by (subst (1 2) b64_encode_loop.simps) (simp add: Let_def)
  qed
qed

lemma b64_fetch_read: "0 \<notin> set inp \<Longrightarrow> inp \<noteq> [] \<or> c \<noteq> 0 \<Longrightarrow> fst (b64_fetch c inp) \<noteq> 0"
  by (induction c inp rule: b64_fetch.induct) (auto simp: Let_def)

lemma b64_fetch_rest: "set (snd (snd (b64_fetch c inp))) \<subseteq> set inp"
  by (induction c inp rule: b64_fetch.induct) (auto simp: Let_def)

lemma b64_group_len:
  "b64_group n len c quad inp = (len', c', quad', inp') \<Longrightarrow> 0 \<notin> set inp \<Longrightarrow>
     len \<le> len' \<and> len' \<le> len + int n \<and> (0 < n \<and> inp \<noteq> [] \<longrightarrow> len < len') \<and> set inp' \<subseteq> set inp"
proof (induction n len c quad inp rule: b64_group.induct)
  case (2 n len c quad inp)
  show ?case
  proof (cases "inp = []")
    case False
    obtain d v rest where f: "b64_fetch 0 inp = (d, v, rest)" by (rule prod_cases3)
    then have "d \<noteq> 0" "0 \<notin> set rest" "set rest \<subseteq> set inp"
      using b64_fetch_read [of inp 0] b64_fetch_rest [of 0 inp] 2(4) False by auto
    then show ?thesis
      using 2(1) [OF False f [symmetric] refl] 2(3,4) False f
      by (auto split: if_splits)
  qed (use 2(3) in simp)
qed simp

lemma b64_decode_loop_room:
  assumes "int (length out) = dn \<or> inp = [] \<and> int (length out) = dn + 1" and "int (length out) \<le> out_size"
    and "0 \<notin> set inp"
  shows "int (length (fst (b64_decode_loop out_size dn out quad inp))) \<le> out_size"
  using assms
proof (induction inp arbitrary: dn out quad rule: length_induct)
  case (1 inp)
  show ?case
  proof (cases "inp = []")
    case True
    then show ?thesis using "1.prems" by (subst b64_decode_loop.simps) auto
  next
    case False
    obtain len c q inp' where g: "b64_group 4 0 0 quad inp = (len, c, q, inp')"
      by (metis prod_cases4)
    have len: "0 < len" "len \<le> 4" "0 \<notin> set inp'"
      using b64_group_len [OF g "1.prems"(3)] False "1.prems"(3) by auto
    have "int (length (fst (b64_decode_loop out_size dn' out' q inp'))) \<le> out_size"
      if "int (length out') = dn' \<or> inp' = [] \<and> int (length out') = dn' + 1"
        and "int (length out') \<le> out_size" for dn' out'
      using 1 that len(3) b64_group_4_shorter [OF False g] by blast
    then show ?thesis
      using False g len "1.prems"(1,2)
      by (subst b64_decode_loop.simps) (auto simp: Let_def)
  qed
qed

subsection \<open>Properties\<close>

text \<open>C21: the encoder writes the RFC 4648 text of its input and a NUL, and returns the length of
  the text, exactly when the buffer has room for the text and two more bytes; otherwise it returns
  -1. In both cases it stays inside the buffer.\<close>

theorem b64_encode_correct:
  assumes "0 \<le> out_size"
  shows "(if int (4 * ((length inp + 2) div 3) + 1) < out_size
       then lws_b64_encode_string inp out_size =
         (b64_text inp @ [0], int (4 * ((length inp + 2) div 3)))
       else snd (lws_b64_encode_string inp out_size) = -1) \<and>
    int (length (fst (lws_b64_encode_string inp out_size))) \<le> out_size"
proof (cases "int (4 * ((length inp + 2) div 3) + 1) < out_size")
  case True
  then show ?thesis
    using b64_encode_loop_ok [of 0 inp out_size "[]"]
    by (simp add: lws_b64_encode_string_def length_b64_text)
next
  case False
  then show ?thesis
    using b64_encode_loop_small [of out_size 0 inp "[]"] assms
    by (simp add: lws_b64_encode_string_def length_b64_text)
qed

theorem b64_encode_correct_witness:
  "lws_b64_encode_string (bytes_of ''lws'') 9 = (bytes_of ''bHdz'' @ [0], 4)"
proof -
  have enc: "b64_text (bytes_of ''lws'') = bytes_of ''bHdz''" and len: "length (bytes_of ''lws'') = 3"
    by (simp_all add: bytes_of_def b64_text_Cons b64_encode_table_eval)
  show ?thesis
    using b64_encode_correct [of 9 "bytes_of ''lws''"] unfolding enc len by simp
qed

text \<open>
  The two directions as a codec, with the sizes of the buffers and the stack content of the
  decoder fixed: the encoder gives the text when there is room.
\<close>

definition b64_enc :: "int \<Rightarrow> byte list \<Rightarrow> byte list option" where
  "b64_enc out_size inp =
     (case lws_b64_encode_string inp out_size of (out, n) \<Rightarrow> if n < 0 then None else Some out)"

definition b64_dec :: "byte list \<Rightarrow> int \<Rightarrow> byte list \<Rightarrow> byte list option" where
  "b64_dec quad out_size inp =
     (case lws_b64_decode_string quad inp out_size of (out, n) \<Rightarrow>
        if n < 0 then None else Some (take (nat n) out))"

lemma b64_enc_eq:
  "b64_enc out_size inp =
     (if int (length (b64_text inp)) + 1 < out_size then Some (b64_text inp @ [0]) else None)"
proof (cases "int (length (b64_text inp)) + 1 < out_size")
  case True
  then show ?thesis
    using b64_encode_loop_ok [of 0 inp out_size "[]"] by (simp add: b64_enc_def lws_b64_encode_string_def)
next
  case False
  then have "snd (b64_encode_loop out_size 0 [] inp) = -1"
  proof (cases "0 \<le> out_size")
    case True
    then show ?thesis using False b64_encode_loop_small [of out_size 0 inp "[]"] by simp
  qed (subst b64_encode_loop.simps, simp add: Let_def)
  then show ?thesis
    using False by (auto simp: b64_enc_def lws_b64_encode_string_def split: prod.splits)
qed

lemma c_str_text: "c_str (b64_text inp @ 0 # rest) = b64_text inp"
  unfolding c_str_def using b64_text_no_nul [of inp] by (subst takeWhile_append2) auto

interpretation b64: codec "b64_enc out_size" "b64_dec [q0, q1, q2, q3] out_size"
  for out_size q0 q1 q2 q3
proof
  fix inp enc
  assume "b64_enc out_size inp = Some enc"
  then have "int (length (b64_text inp)) + 1 < out_size" and enc: "enc = b64_text inp @ [0]"
    by (auto simp: b64_enc_eq split: if_splits)
  then have "int (length inp) + 1 < out_size" by (simp add: length_b64_text)
  then show "b64_dec [q0, q1, q2, q3] out_size enc = Some inp"
    using b64_decode_text [of "[q0, q1, q2, q3]" 0 inp out_size "[]"]
    by (simp add: b64_dec_def lws_b64_decode_string_def enc c_str_text)
qed

text \<open>C22: decoding what the encoder wrote gives the input back, byte for byte, whatever the
  uninitialised \<^verbatim>\<open>quad\<close> held, and with a NUL after it.\<close>

theorem b64_roundtrip:
  assumes "lws_b64_encode_string inp out_size = (enc, n)" and "n \<noteq> -1" and "0 \<le> out_size"
  shows "lws_b64_decode_string [q0, q1, q2, q3] enc out_size = (inp @ [0], int (length inp)) \<and>
    b64_dec [q0, q1, q2, q3] out_size enc = Some inp"
proof -
  have *: "enc = b64_text inp @ [0]" "int (length (b64_text inp)) + 1 < out_size"
    "b64_enc out_size inp = Some enc"
    using b64_encode_loop_ok [of 0 inp out_size "[]"] b64_encode_loop_small [of out_size 0 inp "[]"]
      assms
    by (cases "int (length (b64_text inp)) + 1 < out_size";
        simp add: b64_enc_eq lws_b64_encode_string_def)+
  then have "int (length inp) + 1 < out_size" by (simp add: length_b64_text)
  then show ?thesis
    using b64_decode_text [of "[q0, q1, q2, q3]" 0 inp out_size "[]"] b64.dec_enc [OF *(3)]
    by (simp add: lws_b64_decode_string_def *(1) c_str_text)
qed

theorem b64_roundtrip_witness:
  "lws_b64_decode_string [1, 2, 3, 4] (bytes_of ''bHc='' @ [0]) 9 = (bytes_of ''lw'' @ [0], 2)"
proof -
  have "lws_b64_encode_string (bytes_of ''lw'') 9 = (bytes_of ''bHc='' @ [0], 4)" by code_simp
  from b64_roundtrip [OF this, of 1 2 3 4] show ?thesis by (simp add: bytes_of_def)
qed

text \<open>The decoder never writes past the buffer it was given, for every input, terminated or
  malformed.\<close>

lemma b64_decode_room:
  assumes "0 \<le> out_size"
  shows "int (length (fst (lws_b64_decode_string quad inp out_size))) \<le> out_size"
  using assms b64_decode_loop_room [of "[]" 0 "c_str inp" out_size quad]
  by (simp add: lws_b64_decode_string_def c_str_no_nul)

text \<open>
  A text that goes on after its padding makes the decoder miss the padding: one byte was encoded,
  two are returned, and the second one comes from the uninitialised \<^verbatim>\<open>quad\<close>.
\<close>

lemma b64_decode_stale:
  "lws_b64_decode_string [0, 0, q, 0] (bytes_of ''QQ=='' @ [10]) 9 = ([65, drop_bit 2 q, 0], 2)"
  by code_simp

end
