(* ===== verification/Ws_Upgrade.thy ===== *)
theory Ws_Upgrade
  imports Ws_Frames Http_Header Sha1 Base64
begin

text \<open>
  From HTTP to WebSocket: the choice of the protocol and the set-up of the frame receiver in
  \<^verbatim>\<open>lws_handshake_server\<close> (\<^verbatim>\<open>server.c\<close>, from \<^verbatim>\<open>upgrade_ws\<close> on), and the answer to the client's key,
  \<^verbatim>\<open>handshake_0405\<close> of \<^verbatim>\<open>server-handshake.c\<close>. The answer is built in the thread's \<^verbatim>\<open>serv_buf\<close>, the extensions
  the client asks for are parsed in the same buffer. \<open>None\<close> is an access outside of a buffer or a null pointer.
\<close>

subsection \<open>State and environment\<close>

abbreviation (input) "WSI_TOKEN_HOST \<equiv> 3 :: nat"
abbreviation (input) "WSI_TOKEN_EXTENSIONS \<equiv> 9 :: nat"
abbreviation (input) "WSI_TOKEN_PROTOCOL \<equiv> 12 :: nat"
abbreviation (input) "WSI_TOKEN_KEY \<equiv> 32 :: nat"

record up =
  up_hp :: hp
  up_buf :: "byte list"        \<comment> \<open>\<^verbatim>\<open>pt->serv_buf\<close>\<close>
  up_wsi :: ws
  up_protocol :: nat           \<comment> \<open>index of \<^verbatim>\<open>wsi->protocol\<close> in the vhost's list\<close>
  up_user_space :: bool
  up_exts :: "nat list"        \<comment> \<open>\<^verbatim>\<open>active_extensions\<close>, as indices in the vhost's list\<close>
  up_same_protocol :: "nat list list"  \<comment> \<open>\<^verbatim>\<open>same_vh_protocol_list\<close>\<close>
  up_has_ah :: bool

datatype mount_protocol = LWSMPRO_HTTP | LWSMPRO_HTTPS | LWSMPRO_FILE | LWSMPRO_CGI | LWSMPRO_REDIR_HTTP | LWSMPRO_REDIR_HTTPS |
  LWSMPRO_CALLBACK

record mount =
  mountpoint :: "byte list"
  mountpoint_len :: nat
  origin_protocol :: mount_protocol
  mount_has_protocol :: bool
  mount_has_cgienv :: bool

record up_env =
  up_conn :: env
  protocols :: "byte list option list"   \<comment> \<open>the names, up to the first without a callback\<close>
  per_session_data_size :: "nat \<Rightarrow> nat"
  default_protocol_index :: nat
  user_alloc :: bool
  vhost_exts :: "byte list list"         \<comment> \<open>the names, up to the first without a callback\<close>
  confirm_ext :: "up \<Rightarrow> byte list \<Rightarrow> int"
  construct_ext :: "up \<Rightarrow> nat \<Rightarrow> int"
  reply_tx_ext :: "up \<Rightarrow> nat \<Rightarrow> byte list \<Rightarrow> int"
  mount_list :: "mount list"
  stack_protocol_list :: "byte list"     \<comment> \<open>what is on the stack where \<^verbatim>\<open>protocol_list\<close> is\<close>
  sndbuf_ok :: bool
  more_rx_waiting :: bool

definition ws_guid :: "byte list" where
  "ws_guid = bytes_of ''258EAFA5-E914-47DA-95CA-C5AB0DC85B11''"

definition crlf :: "byte list" where
  "crlf = [0x0d, 0x0a]"

subsection \<open>Writing the answer\<close>

text \<open>\<^verbatim>\<open>LWS_CPYAPP\<close>: copy a string with its NUL and move on to that NUL.\<close>

definition cpyapp :: "byte list \<Rightarrow> nat \<times> byte list \<Rightarrow> (nat \<times> byte list) option" where
  "cpyapp s pb =
     (case pb of (p, buf) \<Rightarrow> do { buf \<leftarrow> put_at buf p (s @ [0]); Some (p + length s, buf) })"

definition string_in :: "byte list \<Rightarrow> nat \<Rightarrow> byte list option" where
  "string_in buf p = (if 0 \<in> set (drop p buf) then Some (c_str (drop p buf)) else None)"

text \<open>\<^verbatim>\<open>lws_hdr_copy\<close> to a place in a buffer.\<close>

definition hdr_copy_to :: "hp \<Rightarrow> nat \<Rightarrow> nat \<Rightarrow> nat \<Rightarrow> byte list \<Rightarrow> (int \<times> byte list) option" where
  "hdr_copy_to hp p len h buf =
     do { assert_opt (p \<le> length buf); (r, d) \<leftarrow> lws_hdr_copy hp (drop p buf) len h; Some (r, take p buf @ d) }"

subsection \<open>Extensions\<close>

text \<open>What the code does with a name from the client's list, for the vhost's extensions from \<open>k\<close> on.\<close>

fun try_exts :: "up_env \<Rightarrow> byte list \<Rightarrow> nat \<Rightarrow> byte list list \<Rightarrow> nat \<Rightarrow> nat \<Rightarrow> up \<Rightarrow> (nat \<times> nat \<times> up) option" where
  "try_exts env name k [] ext_count p u = Some (ext_count, p, u)"
| "try_exts env name k (x # xs) ext_count p u =
     (if name \<noteq> x then try_exts env name (Suc k) xs ext_count p u
      else if confirm_ext env u name \<noteq> 0 then try_exts env name (Suc k) xs ext_count p u
      else do {
        assert_opt (length (up_exts u) < 2);
        if construct_ext env u k \<noteq> 0 then try_exts env name (Suc k) xs ext_count p u
        else do {
          (p, buf) \<leftarrow> (if 1 < ext_count + 1
                       then do { buf \<leftarrow> put_at (up_buf u) p [of_char CHR '','']; Some (p + 1, buf) }
                       else cpyapp (crlf @ bytes_of ''Sec-WebSocket-Extensions: '') (p, up_buf u));
          (p, buf) \<leftarrow> cpyapp name (p, buf);
          try_exts env name (Suc k) xs (ext_count + 1) p (u\<lparr>up_buf := buf, up_exts := up_exts u @ [k]\<rparr>)
        }
      })"

text \<open>
  The client's list, from position \<open>c\<close> of the buffer. A name keeps 127 bytes; behind a semicolon everything is ignored
  up to the next comma. Each turn takes one byte, so the size of the buffer is enough fuel.
\<close>

fun ext_list_loop ::
  "nat \<Rightarrow> up_env \<Rightarrow> nat \<Rightarrow> byte list \<Rightarrow> bool \<Rightarrow> nat \<Rightarrow> nat \<Rightarrow> up \<Rightarrow> (nat \<times> up) option" where
  "ext_list_loop 0 env c name ignore ext_count p u = None"
| "ext_list_loop (Suc fuel) env c name ignore ext_count p u =
     (if length (up_buf u) \<le> c then None
      else
        let ch = up_buf u ! c in
        if ch \<noteq> 0 \<and> ch \<noteq> of_char CHR '','' \<and> ch \<noteq> 9 then
          let ignore = (ignore \<or> ch = of_char CHR '';'') in
          if ignore \<or> ch = 32 then ext_list_loop fuel env (c + 1) name ignore ext_count p u
          else ext_list_loop fuel env (c + 1) (if length name < 127 then name @ [ch] else name) ignore ext_count p u
        else if ch \<noteq> 0 \<and> name = [] then ext_list_loop fuel env (c + 1) [] False ext_count p u
        else do {
          (ext_count, p, u) \<leftarrow> try_exts env name 0 (vhost_exts env) ext_count p u;
          if ch = 0 then Some (p, u) else ext_list_loop fuel env (c + 1) [] False ext_count p u
        })"

definition lws_extension_server_handshake :: "up_env \<Rightarrow> nat \<Rightarrow> up \<Rightarrow> (int \<times> nat \<times> up) option" where
  "lws_extension_server_handshake env p u =
     do {
       n \<leftarrow> lws_hdr_total_length (up_hp u) WSI_TOKEN_EXTENSIONS;
       if n = 0 then Some (0, p, u)
       else do {
         (r, buf) \<leftarrow> hdr_copy_to (up_hp u) 0 (pt_serv_buf_size (up_conn env)) WSI_TOKEN_EXTENSIONS (up_buf u);
         if r < 0 then Some (1, p, u\<lparr>up_buf := buf\<rparr>)
         else do {
           (p, u) \<leftarrow> ext_list_loop (Suc (length buf)) env 0 [] False 0 p (u\<lparr>up_buf := buf, up_exts := []\<rparr>);
           Some (0, p, u)
         }
       }
     }"

fun lws_any_extension_handled :: "up_env \<Rightarrow> nat list \<Rightarrow> byte list \<Rightarrow> up \<Rightarrow> bool" where
  "lws_any_extension_handled env [] data u = False"
| "lws_any_extension_handled env (k # ks) data u =
     (reply_tx_ext env u k data \<noteq> 0 \<or> lws_any_extension_handled env ks data u)"

subsection \<open>Mounts\<close>

text \<open>\<^verbatim>\<open>strncmp\<close> of the URI in the table with the mount point, and the byte behind it.\<close>

definition mount_matches :: "hp \<Rightarrow> nat option \<Rightarrow> nat \<Rightarrow> mount \<Rightarrow> bool option" where
  "mount_matches hp uri_ptr uri_len hm =
     (if uri_len < mountpoint_len hm then Some False
      else do {
        off \<leftarrow> uri_ptr;
        s \<leftarrow> c_string_at hp off;
        if take (mountpoint_len hm) (s @ [0]) \<noteq> take (mountpoint_len hm) (mountpoint hm @ [0]) then Some False
        else do {
          c \<leftarrow> data_at hp (off + mountpoint_len hm);
          Some (c = 0 \<or> c = of_char CHR ''/'' \<or> mountpoint_len hm = 1)
        }
      })"

fun find_mount_loop :: "hp \<Rightarrow> nat option \<Rightarrow> nat \<Rightarrow> mount list \<Rightarrow> nat \<Rightarrow> mount option \<Rightarrow> mount option option" where
  "find_mount_loop hp uri_ptr uri_len [] best hit = Some hit"
| "find_mount_loop hp uri_ptr uri_len (hm # hms) best hit =
     do {
       m \<leftarrow> mount_matches hp uri_ptr uri_len hm;
       get \<leftarrow> lws_hdr_total_length hp WSI_TOKEN_GET_URI;
       if m \<and> (origin_protocol hm = LWSMPRO_CALLBACK \<or>
               (origin_protocol hm = LWSMPRO_CGI \<or> get \<noteq> 0 \<or> mount_has_protocol hm) \<and> best < mountpoint_len hm)
       then find_mount_loop hp uri_ptr uri_len hms (mountpoint_len hm) (Some hm)
       else find_mount_loop hp uri_ptr uri_len hms best hit
     }"

definition lws_find_mount :: "up_env \<Rightarrow> hp \<Rightarrow> nat option \<Rightarrow> nat \<Rightarrow> mount option option" where
  "lws_find_mount env hp uri_ptr uri_len = find_mount_loop hp uri_ptr uri_len (mount_list env) 0 None"

subsection \<open>The handshake\<close>

definition lws_ensure_user_space :: "up_env \<Rightarrow> up \<Rightarrow> int \<times> up" where
  "lws_ensure_user_space env u =
     (if per_session_data_size env (up_protocol u) \<noteq> 0 \<and> \<not> up_user_space u then
        if user_alloc env then (0, u\<lparr>up_user_space := True\<rparr>) else (1, u)
      else (0, u))"

text \<open>The hash of the key and the fixed text, base64 encoded, at the start of \<^verbatim>\<open>serv_buf\<close>; -1 when pieces are missing.\<close>

definition handshake_accept :: "up_env \<Rightarrow> up \<Rightarrow> (int \<times> up) option" where
  "handshake_accept env u =
     do {
       host \<leftarrow> lws_hdr_total_length (up_hp u) WSI_TOKEN_HOST;
       key \<leftarrow> (if host = 0 then Some 0 else lws_hdr_total_length (up_hp u) WSI_TOKEN_KEY);
       if key = 0 then Some (-1, u)
       else if 128 \<le> key then Some (-1, u)
       else do {
         ptr \<leftarrow> lws_hdr_simple_ptr (up_hp u) WSI_TOKEN_KEY;
         off \<leftarrow> ptr;
         k \<leftarrow> c_string_at (up_hp u) off;
         buf \<leftarrow> put_at (up_buf u) 0 (k @ ws_guid @ [0]);
         (out, n) \<leftarrow> Some (lws_b64_encode_string (lws_SHA1 (take (length k + length ws_guid) buf))
           (int (pt_serv_buf_size (up_conn env))));
         buf \<leftarrow> put_at buf 0 out;
         Some (if n < 0 then -1 else n, u\<lparr>up_buf := buf\<rparr>)
       }
     }"

definition response_start :: nat where
  "response_start = 128 + LWS_PRE"

definition switching_protocols :: "byte list" where
  "switching_protocols = bytes_of ''HTTP/1.1 101 Switching Protocols'' @ crlf @ bytes_of ''Upgrade: WebSocket'' @ crlf @
     bytes_of ''Connection: Upgrade'' @ crlf @ bytes_of ''Sec-WebSocket-Accept: ''"

definition response_protocol :: "hp \<Rightarrow> nat \<Rightarrow> byte list \<Rightarrow> (int \<times> nat \<times> byte list) option" where
  "response_protocol hp p buf =
     do {
       proto \<leftarrow> lws_hdr_total_length hp WSI_TOKEN_PROTOCOL;
       if proto = 0 then Some (0, p, buf)
       else do {
         (p, buf) \<leftarrow> cpyapp (crlf @ bytes_of ''Sec-WebSocket-Protocol: '') (p, buf);
         (n, buf) \<leftarrow> hdr_copy_to hp p 128 WSI_TOKEN_PROTOCOL buf;
         Some (n, p + nat n, buf)
       }
     }"

definition handshake_response :: "up_env \<Rightarrow> nat \<Rightarrow> up \<Rightarrow> (int \<times> nat \<times> up) option" where
  "handshake_response env accept_len u =
     do {
       (p, buf) \<leftarrow> cpyapp switching_protocols (response_start, up_buf u);
       acc \<leftarrow> string_in buf 0;
       buf \<leftarrow> put_at buf p (acc @ [0]);
       p \<leftarrow> Some (p + accept_len);
       (n, p, buf) \<leftarrow> response_protocol (up_hp u) p buf;
       if n < 0 then Some (-1, p, u\<lparr>up_buf := buf\<rparr>)
       else do {
         (r, p, u) \<leftarrow> lws_extension_server_handshake env p (u\<lparr>up_buf := buf\<rparr>);
         if r \<noteq> 0 then Some (-1, p, u)
         else do {
           (p, buf) \<leftarrow> cpyapp (crlf @ crlf) (p, up_buf u);
           Some (0, p, u\<lparr>up_buf := buf\<rparr>)
         }
       }
     }"

definition handshake_mount :: "up_env \<Rightarrow> up \<Rightarrow> (int \<times> up) option" where
  "handshake_mount env u =
     do {
       uri_ptr \<leftarrow> lws_hdr_simple_ptr (up_hp u) WSI_TOKEN_GET_URI;
       uri_len \<leftarrow> lws_hdr_total_length (up_hp u) WSI_TOKEN_GET_URI;
       hit \<leftarrow> lws_find_mount env (up_hp u) uri_ptr uri_len;
       case hit of
         None \<Rightarrow> Some (0, u)
       | Some hm \<Rightarrow>
           if mount_has_cgienv hm then
             case protocol_callback (up_conn env) CB_HTTP_PMO [] (up_wsi u) of (r, wsi) \<Rightarrow>
               Some (if r \<noteq> 0 then 1 else 0, u\<lparr>up_wsi := wsi\<rparr>)
           else Some (0, u)
     }"

definition handshake_0405 :: "up_env \<Rightarrow> up \<Rightarrow> (int \<times> up) option" where
  "handshake_0405 env u =
     do {
       (accept_len, u) \<leftarrow> handshake_accept env u;
       if accept_len < 0 then Some (-1, u)
       else do {
         (r, u) \<leftarrow> Some (lws_ensure_user_space env u);
         if r \<noteq> 0 then Some (-1, u)
         else do {
           (r, p, u) \<leftarrow> handshake_response env (nat accept_len) u;
           if r \<noteq> 0 then Some (-1, u)
           else do {
             response \<leftarrow> Some (take (p - response_start) (drop response_start (up_buf u)));
             (n, wsi) \<leftarrow> Some (if lws_any_extension_handled env (up_exts u) response u
               then (int (length response), up_wsi u)
               else lws_write (up_conn env) (Some response) LWS_WRITE_HTTP_HEADERS (up_wsi u));
             if n \<noteq> int (length response) then Some (-1, u\<lparr>up_wsi := wsi\<rparr>)
             else handshake_mount env (u\<lparr>up_wsi := wsi\<lparr>wsi_state := LWSS_ESTABLISHED, lws_rx_parse_state := RXPS_NEW\<rparr>\<rparr>)
           }
         }
       }
     }"

subsection \<open>The upgrade\<close>

fun find_protocol :: "byte list option list \<Rightarrow> byte list \<Rightarrow> nat \<Rightarrow> nat option" where
  "find_protocol [] name k = None"
| "find_protocol (x # xs) name k = (if x = Some name then Some k else find_protocol xs name (Suc k))"

text \<open>The client's list of protocols: names end at a comma or after 63 bytes; the byte behind is skipped.\<close>

function protocol_scan :: "byte list option list \<Rightarrow> byte list \<Rightarrow> nat option" where
  "protocol_scan ps s =
     (if s = [] then None
      else
        let name = take 63 (takeWhile (\<lambda>c. c \<noteq> of_char CHR '','') s) in
        case find_protocol ps name 0 of
          Some k \<Rightarrow> Some k
        | None \<Rightarrow> protocol_scan ps (drop 1 (drop (length name) s)))"
  by pat_completeness auto
termination by (relation "measure (\<lambda>(ps, s). length s)") auto

declare protocol_scan.simps [simp del]

text \<open>The index of the protocol and the list it is entered in; \<open>None\<close> refuses the request.\<close>

definition select_protocol :: "up_env \<Rightarrow> up \<Rightarrow> (nat \<times> nat) option option" where
  "select_protocol env u =
     do {
       (r, lst) \<leftarrow> lws_hdr_copy (up_hp u) (stack_protocol_list env) 127 WSI_TOKEN_PROTOCOL;
       if r < 0 then Some None
       else do {
         len \<leftarrow> lws_hdr_total_length (up_hp u) WSI_TOKEN_PROTOCOL;
         assert_opt (len < length lst);
         s \<leftarrow> string_in (lst[len := 0]) 0;
         case protocol_scan (protocols env) s of
           Some k \<Rightarrow> Some (Some (k, k))
         | None \<Rightarrow> do {
             ptr \<leftarrow> lws_hdr_simple_ptr (up_hp u) WSI_TOKEN_PROTOCOL;
             Some (if ptr \<noteq> None then None else Some (default_protocol_index env, 0))
           }
       }
     }"

definition bail_nuke_ah :: "up \<Rightarrow> (int \<times> up) option" where
  "bail_nuke_ah u = Some (1, u\<lparr>up_has_ah := False\<rparr>)"

text \<open>The frame receiver is set up; what the new buffer holds is not looked at before it is written.\<close>

definition start_ws :: "up_env \<Rightarrow> up \<Rightarrow> (int \<times> up) option" where
  "start_ws env u =
     (let conn = up_conn env;
          wsi = lws_restart_ws_ping_pong_timer conn (lws_union_transition LWSCM_WS_SERVING (up_wsi u))
      in if \<not> malloc_ok conn wsi (rx_limit conn + LWS_PRE + 4) then Some (1, u\<lparr>up_wsi := wsi\<rparr>)
         else
           let wsi = wsi\<lparr>rx_ubuf := replicate (rx_limit conn + 4) 0, rx_ubuf_alloc := rx_limit conn + LWS_PRE\<rparr>
           in if \<not> sndbuf_ok env then Some (1, u\<lparr>up_wsi := wsi\<rparr>)
              else case protocol_callback conn CB_ESTABLISHED [] wsi of (r, wsi) \<Rightarrow>
                if r \<noteq> 0 then Some (1, u\<lparr>up_wsi := wsi\<rparr>)
                else Some (0, u\<lparr>up_wsi := wsi, up_has_ah := up_has_ah u \<and> more_rx_waiting env\<rparr>))"

text \<open>The application may refuse; then the answer is sent and the connection entered in the protocol's list.\<close>

definition upgrade_shake :: "up_env \<Rightarrow> nat \<Rightarrow> byte list \<Rightarrow> up \<Rightarrow> (int \<times> up) option" where
  "upgrade_shake env n data u =
     (case protocol_callback (up_conn env) CB_FILTER_PROTOCOL_CONNECTION data (up_wsi u) of (r, wsi) \<Rightarrow>
        let u = u\<lparr>up_wsi := wsi\<rparr> in
        if r \<noteq> 0 then bail_nuke_ah u
        else if ietf_spec_revision wsi \<noteq> 13 then bail_nuke_ah u
        else do {
          (r, u) \<leftarrow> handshake_0405 env u;
          if r \<noteq> 0 then bail_nuke_ah u
          else do {
            assert_opt (n < length (up_same_protocol u));
            start_ws env (u\<lparr>up_same_protocol := (up_same_protocol u)[n := wsi_id (up_wsi u) # up_same_protocol u ! n]\<rparr>)
          }
        })"

definition upgrade_ws :: "up_env \<Rightarrow> up \<Rightarrow> (int \<times> up) option" where
  "upgrade_ws env u =
     do {
       sel \<leftarrow> select_protocol env u;
       case sel of
         None \<Rightarrow> bail_nuke_ah u
       | Some (k, n) \<Rightarrow>
           case lws_ensure_user_space env (u\<lparr>up_protocol := k\<rparr>) of (r, u) \<Rightarrow>
             if r \<noteq> 0 then bail_nuke_ah u
             else do {
               ptr \<leftarrow> lws_hdr_simple_ptr (up_hp u) WSI_TOKEN_PROTOCOL;
               data \<leftarrow> (case ptr of None \<Rightarrow> Some [] | Some off \<Rightarrow> c_string_at (up_hp u) off);
               upgrade_shake env n data u
             }
     }"

subsection \<open>Headers\<close>

text \<open>The table holds the header \<open>h\<close>, in one piece, with the value \<open>v\<close>.\<close>

definition hdr_is :: "hp \<Rightarrow> nat \<Rightarrow> byte list \<Rightarrow> bool" where
  "hdr_is hp h v \<longleftrightarrow> v \<noteq> [] \<and> 0 \<notin> set v \<and> lws_hdr_total_length hp h = Some (length v) \<and>
     (\<exists>off. lws_hdr_simple_ptr hp h = Some (Some off) \<and> c_string_at hp off = Some v) \<and>
     (\<forall>len dst. length v < len \<and> len \<le> length dst \<longrightarrow>
        lws_hdr_copy hp dst len h = Some (int (length v), v @ 0 # drop (length v + 1) dst))"

definition hdr_absent :: "hp \<Rightarrow> nat \<Rightarrow> bool" where
  "hdr_absent hp h \<longleftrightarrow> index_at hp h = Some 0"

lemma absent_length: "hdr_absent hp h \<Longrightarrow> lws_hdr_total_length hp h = Some 0"
  by (simp add: hdr_absent_def lws_hdr_total_length_def)

text \<open>One fragment that points to the value in the data is such a header; the parser leaves one behind each line.\<close>

lemma one_fragment_is:
  assumes "index_at hp t = Some i" "i \<noteq> 0" and "frag_at hp i = Some \<lparr>f_offset = off, f_len = length v, f_nfrag = 0\<rparr>"
    and "length (ah_frags hp) = Suc k" and "\<exists>rest. drop off (ah_data hp) = v @ 0 # rest" and "0 \<notin> set v" "v \<noteq> []"
  shows "hdr_is hp t v"
proof -
  have str: "c_string_at hp off = Some v"
    using assms(5,6) by (auto simp: c_string_at_def c_str_def takeWhile_tail)
  have total: "lws_hdr_total_length hp t = Some (length v)"
    using assms(1-4) by (simp add: lws_hdr_total_length_def)
  have copy: "lws_hdr_copy hp dst len t = Some (int (length v), v @ 0 # drop (length v + 1) dst)"
    if "length v < len" "len \<le> length dst" for len dst
    using that assms(1-4) total str by (simp add: lws_hdr_copy_def put_at_def)
  show ?thesis
    unfolding hdr_is_def using assms(1-3,6,7) total str copy by (auto simp: lws_hdr_simple_ptr_def)
qed

lemma sealed_is:
  assumes "awaiting env hp" and "ah_pos hp + length v < max_http_header_data env" and "0 \<notin> set v" "v \<noteq> []"
    and "t = parser_state hp" "0 < ah_nfrag hp"
  shows "hdr_is (sealed v hp) t v"
  using assms
  by (intro one_fragment_is [of _ _ "ah_nfrag hp" "ah_pos hp" _ 171])
    (simp_all add: index_at_def frag_at_def sealed_def holding_def splice_def awaiting_def table_inv_def)

subsection \<open>The answer in the buffer\<close>

text \<open>The buffer of the size \<open>size\<close> whose answer begins with \<open>w\<close>.\<close>

definition built :: "nat \<Rightarrow> byte list \<Rightarrow> byte list \<Rightarrow> bool" where
  "built sz w buf \<longleftrightarrow> length buf = sz \<and> take (length w) (drop response_start buf) = w"

lemma length_put_at: "put_at dst k bs = Some d \<Longrightarrow> length d = length dst"
  by (auto simp: put_at_def split: if_splits)

lemma built_put:
  assumes "built sz w buf" and "p = response_start + length w" and "p + length bs \<le> sz"
  shows "\<exists>buf'. put_at buf p bs = Some buf' \<and> built sz (w @ bs) buf' \<and> take p buf' = take p buf"
proof -
  let ?buf = "take p buf @ bs @ drop (p + length bs) buf"
  have len: "length buf = sz" "length (take p buf) = p" using assms by (simp_all add: built_def)
  have "drop response_start ?buf = drop response_start (take p buf) @ bs @ drop (p + length bs) buf"
    using len assms(2) by simp
  moreover have "drop response_start (take p buf) = w" using assms(1,2) by (simp add: built_def drop_take)
  ultimately have "take (length (w @ bs)) (drop response_start ?buf) = w @ bs" by simp
  then show ?thesis using len assms(3) by (simp add: put_at_def built_def)
qed

lemma built_prefix: "built sz (w @ v) buf \<Longrightarrow> built sz w buf"
  by (auto simp: built_def dest: arg_cong [where f = "take (length w)"])

lemma built_cpyapp:
  assumes "built sz w buf" and "p = response_start + length w" and "p + length s < sz"
  shows "\<exists>buf'. cpyapp s (p, buf) = Some (p + length s, buf') \<and> built sz (w @ s) buf' \<and> take p buf' = take p buf"
  using built_put [OF assms(1,2), of "s @ [0]"] assms(3) built_prefix [of sz "w @ s" "[0]"] by (auto simp: cpyapp_def)

lemma built_front:
  assumes "built sz w buf" and "put_at buf 0 bs = Some buf'" and "length bs \<le> response_start"
  shows "built sz w buf'"
proof -
  have "buf' = bs @ drop (length bs) buf" using assms(2) by (auto simp: put_at_def split: if_splits)
  moreover have "length bs + (response_start - length bs) = response_start" using assms(3) by simp
  ultimately have "drop response_start buf' = drop response_start buf" using assms(3) by (simp add: drop_append)
  then show ?thesis using assms(1,2) length_put_at [OF assms(2)] by (simp add: built_def)
qed

lemma string_in_front: "0 \<notin> set s \<Longrightarrow> string_in (s @ 0 # rest) 0 = Some s"
  by (simp add: string_in_def c_str_def) (subst takeWhile_append2; auto)

text \<open>Without extensions of its own the server leaves the answer as it is.\<close>

lemma no_exts_loop:
  assumes "vhost_exts env = []" and "\<exists>z \<ge> c. z < length (up_buf u) \<and> up_buf u ! z = 0" and "length (up_buf u) < c + fuel"
  shows "ext_list_loop fuel env c name ignore ext_count p u = Some (p, u)"
  using assms(2,3)
proof (induction fuel arbitrary: c name ignore)
  case 0
  then show ?case by auto
next
  case (Suc fuel)
  have c: "c < length (up_buf u)" using Suc.prems(1) by auto
  show ?case
  proof (cases "up_buf u ! c = 0")
    case True
    then show ?thesis using c assms(1) by simp
  next
    case False
    obtain z where "z \<ge> c" "z < length (up_buf u)" "up_buf u ! z = 0" using Suc.prems(1) by blast
    moreover have "z \<noteq> c" using calculation False by auto
    ultimately have "\<exists>z \<ge> c + 1. z < length (up_buf u) \<and> up_buf u ! z = 0" by (intro exI [of _ z]) simp
    then show ?thesis using Suc.IH [of "c + 1"] Suc.prems(2) c False assms(1) by (simp add: Let_def)
  qed
qed

subsection \<open>The answer to the key\<close>

lemma accept_hash: "lws_SHA1 d = fips_sha1 d"
  by (simp add: lws_SHA1_def sha1_result_fips sha1_loop_init)

lemma length_fips_blocks: "length H = 5 \<Longrightarrow> length (fips_blocks n H m) = 5"
  by (induction n H m rule: fips_blocks.induct) (simp_all add: fips_block_def split: prod.split)

lemma length_digest: "length (fips_sha1 d) = 20"
proof -
  have "length (concat (map be32_bytes ws)) = 4 * length ws" for ws
    by (induction ws) (simp_all add: be32_bytes_def)
  then show ?thesis by (simp add: fips_sha1_def Let_def length_fips_blocks)
qed

definition accept_key :: "byte list \<Rightarrow> byte list" where
  "accept_key k = b64_text (fips_sha1 (k @ bytes_of ''258EAFA5-E914-47DA-95CA-C5AB0DC85B11''))"

lemma accept_key_guid: "accept_key k = b64_text (fips_sha1 (k @ ws_guid))"
  by (simp add: accept_key_def ws_guid_def)

lemma length_accept_key: "length (accept_key k) = 28"
  using length_digest [of "k @ ws_guid"] by (simp add: accept_key_guid length_b64_text)

lemma length_guid: "length ws_guid = 36"
  by (simp add: ws_guid_def bytes_of_def)

lemma handshake_accept_ok:
  assumes key: "hdr_is (up_hp u) WSI_TOKEN_KEY k" "length k < 128"
    and host: "lws_hdr_total_length (up_hp u) WSI_TOKEN_HOST = Some n" "n \<noteq> 0"
    and size: "length (up_buf u) = pt_serv_buf_size (up_conn env)" "200 \<le> pt_serv_buf_size (up_conn env)"
  shows "\<exists>buf. handshake_accept env u = Some (28, u\<lparr>up_buf := buf\<rparr>) \<and>
     length buf = pt_serv_buf_size (up_conn env) \<and> (\<exists>rest. buf = accept_key k @ 0 # rest)"
proof -
  obtain off where off: "lws_hdr_simple_ptr (up_hp u) WSI_TOKEN_KEY = Some (Some off)" "c_string_at (up_hp u) off = Some k"
    using key(1) by (auto simp: hdr_is_def)
  have total: "lws_hdr_total_length (up_hp u) WSI_TOKEN_KEY = Some (length k)" "length k \<noteq> 0" using key(1) by (simp_all add: hdr_is_def)
  let ?buf = "(k @ ws_guid @ [0]) @ drop (length (k @ ws_guid @ [0])) (up_buf u)"
  have one: "put_at (up_buf u) 0 (k @ ws_guid @ [0]) = Some ?buf" "length ?buf = pt_serv_buf_size (up_conn env)"
    using size key(2) length_guid by (simp_all add: put_at_def)
  have hash: "lws_SHA1 (take (length k + length ws_guid) ?buf) = fips_sha1 (k @ ws_guid)" by (simp add: accept_hash)
  have enc: "lws_b64_encode_string (fips_sha1 (k @ ws_guid)) (int (pt_serv_buf_size (up_conn env))) = (accept_key k @ [0], 28)"
    using b64_encode_loop_ok [of 0 "fips_sha1 (k @ ws_guid)" "int (pt_serv_buf_size (up_conn env))" "[]"]
      length_accept_key [of k] size(2)
    by (simp add: lws_b64_encode_string_def accept_key_guid)
  let ?buf2 = "(accept_key k @ [0]) @ drop 29 ?buf"
  have two: "put_at ?buf 0 (accept_key k @ [0]) = Some ?buf2" "length ?buf2 = pt_serv_buf_size (up_conn env)"
    using one(2) size(2) length_accept_key [of k] by (simp_all add: put_at_def)
  have "handshake_accept env u = Some (28, u\<lparr>up_buf := ?buf2\<rparr>)"
    unfolding handshake_accept_def host(1) total(1) off one(1) Option.bind.simps if_not_P [OF host(2)] if_not_P [OF total(2)] option.sel
      hash enc case_prod_conv two(1)
    using key(2) by simp
  then show ?thesis using two(2) by (intro exI [of _ ?buf2]) simp
qed

subsection \<open>The whole answer\<close>

definition protocol_line :: "hp \<Rightarrow> byte list \<Rightarrow> bool" where
  "protocol_line hp line \<longleftrightarrow> hdr_absent hp WSI_TOKEN_PROTOCOL \<and> line = [] \<or>
     (\<exists>v. hdr_is hp WSI_TOKEN_PROTOCOL v \<and> length v < 128 \<and> line = [0x0d, 0x0a] @ bytes_of ''Sec-WebSocket-Protocol: '' @ v)"

text \<open>The extensions the client asks for, if any, end before the answer begins in the buffer.\<close>

definition exts_fit :: "up_env \<Rightarrow> hp \<Rightarrow> bool" where
  "exts_fit env hp \<longleftrightarrow> vhost_exts env = [] \<and> (hdr_absent hp WSI_TOKEN_EXTENSIONS \<or>
     (\<exists>v. hdr_is hp WSI_TOKEN_EXTENSIONS v \<and> length v < response_start))"

definition answer :: "byte list \<Rightarrow> byte list \<Rightarrow> byte list" where
  "answer k line =
     bytes_of ''HTTP/1.1 101 Switching Protocols'' @ [0x0d, 0x0a] @
     bytes_of ''Upgrade: WebSocket'' @ [0x0d, 0x0a] @
     bytes_of ''Connection: Upgrade'' @ [0x0d, 0x0a] @
     bytes_of ''Sec-WebSocket-Accept: '' @ accept_key k @ line @ [0x0d, 0x0a, 0x0d, 0x0a]"

lemma answer_parts: "answer k line = switching_protocols @ accept_key k @ line @ crlf @ crlf"
  by (simp add: answer_def switching_protocols_def crlf_def)

lemma length_texts: "length switching_protocols = 97" "length crlf = 2" "length (bytes_of ''Sec-WebSocket-Protocol: '') = 24"
  "response_start = 144"
  by (simp_all add: switching_protocols_def bytes_of_def crlf_def response_start_def LWS_PRE_def)

lemma exts_response:
  assumes fit: "exts_fit env (up_hp u)" and built: "built sz w (up_buf u)" and size: "sz = pt_serv_buf_size (up_conn env)" "200 \<le> sz"
    and none: "up_exts u = []"
  shows "\<exists>buf. lws_extension_server_handshake env p u = Some (0, p, u\<lparr>up_buf := buf\<rparr>) \<and> built sz w buf"
proof -
  consider "hdr_absent (up_hp u) WSI_TOKEN_EXTENSIONS"
    | v where "hdr_is (up_hp u) WSI_TOKEN_EXTENSIONS v" "length v < response_start" using fit by (auto simp: exts_fit_def)
  then show ?thesis
  proof cases
    case 1
    then show ?thesis using built
      by (auto simp: lws_extension_server_handshake_def absent_length intro!: exI [of _ "up_buf u"])
  next
    case (2 v)
    let ?buf = "v @ 0 # drop (length v + 1) (up_buf u)"
    have len: "length (up_buf u) = sz" using built by (simp add: built_def)
    have copy: "hdr_copy_to (up_hp u) 0 sz WSI_TOKEN_EXTENSIONS (up_buf u) = Some (int (length v), ?buf)"
      using 2 len size(2) by (simp add: hdr_copy_to_def hdr_is_def assert_opt_def length_texts)
    have put: "put_at (up_buf u) 0 (v @ [0]) = Some ?buf" using 2(2) len size(2) by (simp add: put_at_def length_texts)
    have "built sz w ?buf" using built_front [OF built put] 2(2) by simp
    moreover have "ext_list_loop (Suc (length ?buf)) env 0 [] False 0 p (u\<lparr>up_buf := ?buf, up_exts := []\<rparr>) =
        Some (p, u\<lparr>up_buf := ?buf, up_exts := []\<rparr>)"
      using fit by (intro no_exts_loop) (auto simp: exts_fit_def intro!: exI [of _ "length v"])
    moreover have "lws_hdr_total_length (up_hp u) WSI_TOKEN_EXTENSIONS = Some (length v)" "length v \<noteq> 0"
      using 2(1) by (simp_all add: hdr_is_def)
    ultimately show ?thesis
      using none copy size(1) by (auto simp: lws_extension_server_handshake_def simp del: ext_list_loop.simps intro!: exI [of _ ?buf])
  qed
qed

lemma protocol_response:
  assumes line: "protocol_line hp line" and built: "built sz w buf" and p: "p = response_start + length w" "p + 200 \<le> sz"
  shows "\<exists>n q buf'. response_protocol hp p buf = Some (n, q, buf') \<and> \<not> n < 0 \<and> q = p + length line \<and> built sz (w @ line) buf' \<and> length line < 154"
  using line unfolding protocol_line_def
proof (elim disjE conjE exE)
  assume "hdr_absent hp WSI_TOKEN_PROTOCOL" "line = []"
  then show ?thesis using built by (simp add: absent_length response_protocol_def)
next
  fix v
  assume v: "hdr_is hp WSI_TOKEN_PROTOCOL v" "length v < 128" "line = [0x0d, 0x0a] @ bytes_of ''Sec-WebSocket-Protocol: '' @ v"
  let ?s = "crlf @ bytes_of ''Sec-WebSocket-Protocol: ''"
  have len: "length ?s = 26" "line = ?s @ v" using v(3) by (simp_all add: length_texts crlf_def)
  obtain b1 where b1: "cpyapp ?s (p, buf) = Some (p + 26, b1)" "built sz (w @ ?s) b1"
    using built_cpyapp [OF built p(1), of ?s] p(2) len by auto
  let ?b2 = "take (p + 26) b1 @ (v @ [0]) @ drop (p + 26 + length (v @ [0])) b1"
  have sz: "length b1 = sz" using b1(2) by (simp add: built_def)
  have copy: "hdr_copy_to hp (p + 26) 128 WSI_TOKEN_PROTOCOL b1 = Some (int (length v), ?b2)"
    using v(1,2) sz p(2) by (simp add: hdr_copy_to_def hdr_is_def assert_opt_def add.commute add.left_commute)
  have "put_at b1 (p + 26) (v @ [0]) = Some ?b2" using v(2) sz p(2) by (simp add: put_at_def)
  moreover have "p + 26 = response_start + length (w @ ?s)" "p + 26 + length (v @ [0]) \<le> sz" using p v(2) len by simp_all
  ultimately have "built sz ((w @ ?s) @ v @ [0]) ?b2" using built_put [OF b1(2)] by fastforce
  then have "built sz (w @ line) ?b2" using built_prefix [of sz "w @ line" "[0]" ?b2] len(2) by simp
  moreover have "lws_hdr_total_length hp WSI_TOKEN_PROTOCOL = Some (length v)" "length v \<noteq> 0" using v(1) by (simp_all add: hdr_is_def)
  ultimately show ?thesis using b1(1) copy v(2) len by (simp add: length_texts response_protocol_def)
qed

lemma handshake_response_ok:
  assumes front: "up_buf u = accept_key k @ 0 # rest" "length (up_buf u) = sz" and size: "sz = pt_serv_buf_size (up_conn env)" "600 \<le> sz"
    and line: "protocol_line (up_hp u) line" and fit: "exts_fit env (up_hp u)" and none: "up_exts u = []"
  shows "\<exists>p buf. handshake_response env 28 u = Some (0, p, u\<lparr>up_buf := buf\<rparr>) \<and>
     take (p - response_start) (drop response_start buf) = answer k line \<and> length buf = sz"
proof -
  have start: "built sz [] (up_buf u)" using front(2) by (simp add: built_def)
  obtain b1 where b1: "cpyapp switching_protocols (144, up_buf u) = Some (241, b1)" "built sz switching_protocols b1"
    "take 144 b1 = take 144 (up_buf u)"
    using built_cpyapp [OF start, of 144 switching_protocols] size(2) by (auto simp: length_texts)
  have "take 29 b1 = accept_key k @ [0]"
  proof -
    have "take 29 b1 = take 29 (take 144 b1)" by (simp add: min_def)
    then show ?thesis using b1(3) front(1) length_accept_key [of k] by (simp add: min_def)
  qed
  then have "b1 = accept_key k @ 0 # drop 29 b1" by (metis append.assoc append_Cons append_Nil append_take_drop_id)
  moreover have "0 \<notin> set (accept_key k)" by (simp add: accept_key_def b64_text_no_nul)
  ultimately have acc: "string_in b1 0 = Some (accept_key k)" using string_in_front by metis
  obtain b2 where b2: "put_at b1 241 (accept_key k @ [0]) = Some b2" "built sz ((switching_protocols @ accept_key k) @ [0]) b2"
    using built_put [OF b1(2), of 241 "accept_key k @ [0]"] size(2) length_accept_key [of k] by (auto simp: length_texts)
  note built2 = built_prefix [OF b2(2)]
  obtain n q b3 where b3: "response_protocol (up_hp u) 269 b2 = Some (n, q, b3)" "\<not> n < 0" "q = 269 + length line"
    "built sz ((switching_protocols @ accept_key k) @ line) b3" "length line < 154"
    using protocol_response [OF line built2, of 269] size(2) length_accept_key [of k] by (auto simp: length_texts)
  obtain b4 where b4: "lws_extension_server_handshake env q (u\<lparr>up_buf := b3\<rparr>) = Some (0, q, u\<lparr>up_buf := b4\<rparr>)"
    "built sz ((switching_protocols @ accept_key k) @ line) b4"
  proof -
    have "exts_fit env (up_hp (u\<lparr>up_buf := b3\<rparr>))" "up_exts (u\<lparr>up_buf := b3\<rparr>) = []" using fit none by simp_all
    moreover have "built sz ((switching_protocols @ accept_key k) @ line) (up_buf (u\<lparr>up_buf := b3\<rparr>))" "200 \<le> sz"
      using b3(4) size(2) by simp_all
    ultimately have "\<exists>b. lws_extension_server_handshake env q (u\<lparr>up_buf := b3\<rparr>) = Some (0, q, u\<lparr>up_buf := b3, up_buf := b\<rparr>) \<and>
        built sz ((switching_protocols @ accept_key k) @ line) b"
      by (intro exts_response size(1))
    then show thesis using that by auto
  qed
  obtain b5 where b5: "cpyapp (crlf @ crlf) (q, b4) = Some (q + 4, b5)" "built sz (((switching_protocols @ accept_key k) @ line) @ crlf @ crlf) b5"
    using built_cpyapp [OF b4(2), of q "crlf @ crlf"] b3(3,5) size(2) length_accept_key [of k] by (auto simp: length_texts)
  have "handshake_response env 28 u = Some (0, q + 4, u\<lparr>up_buf := b5\<rparr>)"
    using b1(1) acc b2(1) b3(1,2) b4(1) b5(1) by (simp add: handshake_response_def length_texts bind_eq_Some_conv) 
  moreover have "take (q + 4 - response_start) (drop response_start b5) = answer k line"
    using b5(2) b3(3) length_accept_key [of k] by (simp add: built_def answer_parts length_texts)
  ultimately show ?thesis using b5(2) by (auto simp: built_def)
qed

text \<open>
  A request with a host, a key of less than 128 bytes, at most 127 bytes of protocols and no extensions to negotiate, on a server
  with a large enough buffer, memory for the user's data and no mounts.
\<close>

definition acceptable :: "up_env \<Rightarrow> up \<Rightarrow> byte list \<Rightarrow> byte list \<Rightarrow> bool" where
  "acceptable env u k line \<longleftrightarrow> hdr_is (up_hp u) WSI_TOKEN_KEY k \<and> length k < 128 \<and>
     (\<exists>n. lws_hdr_total_length (up_hp u) WSI_TOKEN_HOST = Some n \<and> n \<noteq> 0) \<and>
     protocol_line (up_hp u) line \<and> exts_fit env (up_hp u) \<and> up_exts u = [] \<and>
     length (up_buf u) = pt_serv_buf_size (up_conn env) \<and> 600 \<le> pt_serv_buf_size (up_conn env) \<and> user_alloc env \<and>
     (\<exists>ptr len. lws_hdr_simple_ptr (up_hp u) WSI_TOKEN_GET_URI = Some ptr \<and> lws_hdr_total_length (up_hp u) WSI_TOKEN_GET_URI = Some len) \<and>
     mount_list env = []"

lemma handshake_run:
  assumes acc: "acceptable env u k line"
    and sent: "lws_write (up_conn env) (Some (answer k line)) LWS_WRITE_HTTP_HEADERS (up_wsi u) = (r, wsi)"
  shows "\<exists>u'. handshake_0405 env u = Some (if r = int (length (answer k line)) then 0 else -1, u') \<and>
     up_wsi u' = (if r = int (length (answer k line)) then wsi\<lparr>wsi_state := LWSS_ESTABLISHED, lws_rx_parse_state := RXPS_NEW\<rparr> else wsi) \<and>
     up_same_protocol u' = up_same_protocol u"
proof -
  obtain n where key: "hdr_is (up_hp u) WSI_TOKEN_KEY k" "length k < 128"
    and host: "lws_hdr_total_length (up_hp u) WSI_TOKEN_HOST = Some n" "n \<noteq> 0"
    and line: "protocol_line (up_hp u) line" and fit: "exts_fit env (up_hp u)" "up_exts u = []"
    and size: "length (up_buf u) = pt_serv_buf_size (up_conn env)" "600 \<le> pt_serv_buf_size (up_conn env)"
    and user: "user_alloc env"
    and get: "\<exists>ptr len. lws_hdr_simple_ptr (up_hp u) 0 = Some ptr \<and> lws_hdr_total_length (up_hp u) 0 = Some len"
    and mounts: "mount_list env = []"
    using acc by (auto simp: acceptable_def)
  obtain buf rest where acc: "handshake_accept env u = Some (28, u\<lparr>up_buf := buf\<rparr>)" "length buf = pt_serv_buf_size (up_conn env)"
    "buf = accept_key k @ 0 # rest"
    using handshake_accept_ok [OF key host size(1)] size(2) by auto
  obtain u1 where u1: "lws_ensure_user_space env (u\<lparr>up_buf := buf\<rparr>) = (0, u1)" "up_hp u1 = up_hp u" "up_buf u1 = buf"
    "up_exts u1 = []" "up_wsi u1 = up_wsi u" "up_same_protocol u1 = up_same_protocol u"
    using that [of "if per_session_data_size env (up_protocol u) \<noteq> 0 \<and> \<not> up_user_space u
        then u\<lparr>up_buf := buf, up_user_space := True\<rparr> else u\<lparr>up_buf := buf\<rparr>"] user fit(2)
    by (cases "per_session_data_size env (up_protocol u) = 0"; cases "up_user_space u") (simp_all add: lws_ensure_user_space_def)
  obtain p b where resp: "handshake_response env 28 u1 = Some (0, p, u1\<lparr>up_buf := b\<rparr>)"
    "take (p - response_start) (drop response_start b) = answer k line"
    using handshake_response_ok [of u1 k rest "pt_serv_buf_size (up_conn env)" env line] acc u1 line fit(1) size by auto
  have mount: "handshake_mount env u2 = Some (0, u2)" if "up_hp u2 = up_hp u" for u2
    using get mounts that by (auto simp: handshake_mount_def lws_find_mount_def)
  show ?thesis
    using acc(1) u1 resp sent mount by (simp add: handshake_0405_def del: length_take)
qed


text \<open>The example of RFC 6455, 1.3: a request with a host, a key and no protocol.\<close>

definition asked :: up where
  "asked = \<lparr>
     up_hp = (empty_hp 64)\<lparr>ah_data := bytes_of ''a'' @ [0] @ bytes_of ''dGhlIHNhbXBsZSBub25jZQ=='' @ 0 # replicate 37 0,
       ah_frags := no_frag # \<lparr>f_offset = 0, f_len = 1, f_nfrag = 0\<rparr> # \<lparr>f_offset = 2, f_len = 24, f_nfrag = 0\<rparr> # replicate 169 no_frag,
       ah_frag_index := (replicate 80 0)[3 := 1, 32 := 2]\<rparr>,
     up_buf = replicate 4096 0, up_wsi = plain_conn LWSCM_HTTP_SERVING, up_protocol = 0, up_user_space = False, up_exts = [],
     up_same_protocol = [[]], up_has_ah = True\<rparr>"

definition serving :: up_env where
  "serving = \<lparr>
     up_conn = (plain_env 4096)\<lparr>rx_buffer_size := 0\<rparr>, protocols = [Some (bytes_of ''http-only'')], per_session_data_size = (\<lambda>_. 8),
     default_protocol_index = 0, user_alloc = True, vhost_exts = [], confirm_ext = (\<lambda>_ _. 0), construct_ext = (\<lambda>_ _. 0),
     reply_tx_ext = (\<lambda>_ _ _. 0), mount_list = [], stack_protocol_list = 0 # replicate 127 0, sndbuf_ok = True, more_rx_waiting = False\<rparr>"

lemma asked_headers:
  "hdr_is (up_hp asked) WSI_TOKEN_KEY (bytes_of ''dGhlIHNhbXBsZSBub25jZQ=='')"
  "lws_hdr_total_length (up_hp asked) WSI_TOKEN_HOST = Some 1" "hdr_absent (up_hp asked) WSI_TOKEN_PROTOCOL"
  "hdr_absent (up_hp asked) WSI_TOKEN_EXTENSIONS" "index_at (up_hp asked) 0 = Some 0"
proof -
  show "hdr_is (up_hp asked) WSI_TOKEN_KEY (bytes_of ''dGhlIHNhbXBsZSBub25jZQ=='')"
    by (rule one_fragment_is [of _ _ 2 2 _ 171])
      (simp_all add: asked_def index_at_def frag_at_def bytes_of_def empty_hp_def nth_Cons')
  have "hdr_is (up_hp asked) WSI_TOKEN_HOST (bytes_of ''a'')"
    by (rule one_fragment_is [of _ _ 1 0 _ 171])
      (simp_all add: asked_def index_at_def frag_at_def bytes_of_def empty_hp_def nth_Cons')
  then show "lws_hdr_total_length (up_hp asked) WSI_TOKEN_HOST = Some 1" by (simp add: hdr_is_def bytes_of_def)
qed (simp_all add: asked_def index_at_def hdr_absent_def empty_hp_def)

lemma asked_acceptable: "acceptable serving (asked\<lparr>up_wsi := wsi, up_user_space := b\<rparr>) (bytes_of ''dGhlIHNhbXBsZSBub25jZQ=='') []"
proof -
  have hp: "up_hp (asked\<lparr>up_wsi := wsi, up_user_space := b\<rparr>) = up_hp asked" by simp
  have "protocol_line (up_hp asked) []" "exts_fit serving (up_hp asked)"
    using asked_headers by (simp_all add: protocol_line_def exts_fit_def serving_def)
  moreover have "\<exists>ptr len. lws_hdr_simple_ptr (up_hp asked) 0 = Some ptr \<and> lws_hdr_total_length (up_hp asked) 0 = Some len"
    using asked_headers(5) by (simp add: lws_hdr_simple_ptr_def lws_hdr_total_length_def)
  ultimately show ?thesis
    unfolding acceptable_def hp using asked_headers(1,2) by (simp add: asked_def serving_def plain_env_def bytes_of_def)
qed

lemma serving_writes:
  assumes "length b \<le> 4096" and "b \<noteq> []"
  shows "\<exists>wsi. lws_write (up_conn serving) (Some b) LWS_WRITE_HTTP_HEADERS ((plain_conn LWSCM_HTTP_SERVING)\<lparr>ws_log := l\<rparr>) =
    (int (length b), wsi) \<and> wire wsi = b"
  using assms
  by (simp add: serving_def asked_def plain_env_def plain_conn_def lws_write_def lws_restart_ws_ping_pong_timer_def write_send_raw_def
      lws_issue_raw_def lws_ext_cb_active_def lws_ssl_capable_write_def handle_truncated_send_def lws_union_transition_def
      lws_create_new_server_wsi_def)

lemma serving_answers:
  "\<exists>wsi. lws_write (up_conn serving) (Some (answer (bytes_of ''dGhlIHNhbXBsZSBub25jZQ=='') [])) LWS_WRITE_HTTP_HEADERS
      ((plain_conn LWSCM_HTTP_SERVING)\<lparr>ws_log := l\<rparr>) =
     (int (length (answer (bytes_of ''dGhlIHNhbXBsZSBub25jZQ=='') [])), wsi) \<and>
     wire wsi = answer (bytes_of ''dGhlIHNhbXBsZSBub25jZQ=='') []"
proof -
  have "length (answer (bytes_of ''dGhlIHNhbXBsZSBub25jZQ=='') []) = 129" by (simp add: answer_parts length_texts length_accept_key)
  moreover from this have "answer (bytes_of ''dGhlIHNhbXBsZSBub25jZQ=='') [] \<noteq> []" by force
  ultimately show ?thesis by (intro serving_writes) simp_all
qed


subsection \<open>The receiver starts in its invariant\<close>

interpretation rx_app: app_frame "\<lambda>wsi. rx_part wsi = c" for c
  by unfold_locales (simp_all add: rx_part_def log_event_def set_fault_def lws_close_reason_def Let_def)

interpretation ok_app: app_frame ws_ok
  by unfold_locales
    (auto simp add: ws_ok_def log_event_def set_fault_def lws_close_reason_def Let_def split: option.split)

lemma start_ws_ready:
  assumes "start_ws env u = Some (0, u')" and "ws_ok (up_wsi u)"
  shows "rx_inv (up_conn env) (up_wsi u') \<and> rx_ubuf_head (up_wsi u') = 0 \<and>
    lws_rx_parse_state (up_wsi u') = lws_rx_parse_state (up_wsi u) \<and>
    ietf_spec_revision (up_wsi u') = ietf_spec_revision (up_wsi u) \<and> \<not> rx_draining_ext (up_wsi u')"
proof -
  let ?c = "up_conn env"
  let ?w = "(lws_restart_ws_ping_pong_timer ?c (lws_union_transition LWSCM_WS_SERVING (up_wsi u)))
    \<lparr>rx_ubuf := replicate (rx_limit ?c + 4) 0, rx_ubuf_alloc := rx_limit ?c + LWS_PRE\<rparr>"
  have "rx_inv ?c ?w" "rx_ubuf_head ?w = 0" "lws_rx_parse_state ?w = lws_rx_parse_state (up_wsi u)"
    "ietf_spec_revision ?w = ietf_spec_revision (up_wsi u)" "\<not> rx_draining_ext ?w"
    using assms(2) by (simp_all add: rx_inv_def ws_ok_def lws_restart_ws_ping_pong_timer_def lws_union_transition_def)
  moreover have "rx_part (snd (protocol_callback ?c CB_ESTABLISHED [] ?w)) = rx_part ?w" by simp
  moreover have "rx_inv ?c (snd (protocol_callback ?c CB_ESTABLISHED [] ?w))" using calculation(1) by (rule inv.protocol_cb)
  moreover have "up_wsi u' = snd (protocol_callback ?c CB_ESTABLISHED [] ?w)"
    using assms(1) by (auto simp: start_ws_def Let_def split: prod.splits if_splits)
  ultimately show ?thesis by (simp add: rx_part_def)
qed


lemma try_exts_wsi:
  "try_exts env name k xs n p u = Some (n', p', u') \<Longrightarrow> up_wsi u' = up_wsi u"
  by (induction xs arbitrary: k n p u) (auto simp: bind_eq_Some_conv split: if_splits prod.splits) 

lemma ext_list_loop_wsi:
  "ext_list_loop fuel env c name ignore n p u = Some (p', u') \<Longrightarrow> up_wsi u' = up_wsi u"
proof (induction fuel arbitrary: c name ignore n p u)
  case (Suc fuel)
  show ?case
  proof (cases "up_buf u ! c \<noteq> 0 \<and> up_buf u ! c \<noteq> of_char CHR '','' \<and> up_buf u ! c \<noteq> 9 \<or> up_buf u ! c \<noteq> 0 \<and> name = []")
    case True
    then show ?thesis using Suc by (auto simp: Let_def split: if_splits)
  next
    case False
    then obtain n1 p1 u1 where "try_exts env name 0 (vhost_exts env) n p u = Some (n1, p1, u1)"
      "up_buf u ! c = 0 \<and> u' = u1 \<or> ext_list_loop fuel env (c + 1) [] False n1 p1 u1 = Some (p', u')"
      using Suc.prems by (auto simp: Let_def bind_eq_Some_conv split: if_splits)
    then show ?thesis using Suc.IH try_exts_wsi by metis
  qed
qed simp

lemma handshake_parts_wsi:
  "handshake_accept env u = Some (r, u') \<Longrightarrow> up_wsi u' = up_wsi u"
  "lws_ensure_user_space env u = (r', u') \<Longrightarrow> up_wsi u' = up_wsi u"
  "lws_extension_server_handshake env p u = Some (r, q, u') \<Longrightarrow> up_wsi u' = up_wsi u"
  by (auto simp: handshake_accept_def lws_ensure_user_space_def lws_extension_server_handshake_def bind_eq_Some_conv case_prod_beta
      dest!: ext_list_loop_wsi simp del: ext_list_loop.simps split: if_splits)

lemma handshake_response_wsi:
  "handshake_response env n u = Some (r, p, u') \<Longrightarrow> up_wsi u' = up_wsi u"
  by (auto simp: handshake_response_def bind_eq_Some_conv dest!: handshake_parts_wsi(3) split: if_splits prod.splits)

text \<open>What the callbacks and \<^verbatim>\<open>lws_write\<close> keep is kept by the handshake.\<close>

locale upgrade_frame = app_frame +
  assumes established: "P wsi \<Longrightarrow> P (wsi\<lparr>wsi_state := LWSS_ESTABLISHED, lws_rx_parse_state := RXPS_NEW\<rparr>)"
begin

lemma handshake_keeps:
  assumes "handshake_0405 env u = Some (0, u')" and "P (up_wsi u)"
  shows "\<exists>wsi. P wsi \<and> lws_rx_parse_state wsi = RXPS_NEW \<and>
    (up_wsi u' = wsi \<or> up_wsi u' = snd (protocol_callback (up_conn env) CB_HTTP_PMO [] wsi))"
proof -
  obtain n u1 u2 p u3 wsi where "handshake_accept env u = Some (n, u1)" "lws_ensure_user_space env u1 = (0, u2)"
      "handshake_response env (nat n) u2 = Some (0, p, u3)"
    and wsi: "wsi = up_wsi u3 \<or> (\<exists>b. wsi = snd (lws_write (up_conn env) b LWS_WRITE_HTTP_HEADERS (up_wsi u3)))"
    and mount: "handshake_mount env (u3\<lparr>up_wsi := wsi\<lparr>wsi_state := LWSS_ESTABLISHED, lws_rx_parse_state := RXPS_NEW\<rparr>\<rparr>) = Some (0, u')"
    using assms(1) by (auto simp: handshake_0405_def bind_eq_Some_conv split: if_splits prod.splits) (metis snd_conv)+
  then have "up_wsi u3 = up_wsi u" using handshake_parts_wsi(1,2) handshake_response_wsi by metis
  then have "P wsi" using wsi assms(2) by auto
  then have "P (wsi\<lparr>wsi_state := LWSS_ESTABLISHED, lws_rx_parse_state := RXPS_NEW\<rparr>)" by (rule established)
  then show ?thesis
    using mount
    by (intro exI [of _ "wsi\<lparr>wsi_state := LWSS_ESTABLISHED, lws_rx_parse_state := RXPS_NEW\<rparr>"])
      (auto simp: handshake_mount_def bind_eq_Some_conv split: option.splits if_splits prod.splits)
qed

end

interpretation up: upgrade_frame "\<lambda>wsi. ws_ok wsi \<and> ietf_spec_revision wsi = r" for r
  by unfold_locales (auto simp add: ws_ok_def log_event_def set_fault_def lws_close_reason_def Let_def split: option.split)

text \<open>C28: The upgrade hands over a connection the frame receiver can start with. Whatever the request, the extensions and the
  application's callbacks do, when the branch \<^verbatim>\<open>upgrade_ws\<close> of \<^verbatim>\<open>lws_handshake_server\<close> returns 0, the receive buffer has the size its
  fill level is checked against, nothing is in it, the receiver's invariant holds, under which no byte makes it write outside of a
  buffer, and, unless the socket has already failed, the receiver is between two frames.\<close>

theorem upgrade_starts_receiver:
  assumes "upgrade_ws env u = Some (0, u')" and "ws_ok (up_wsi u)"
  shows "rx_inv (up_conn env) (up_wsi u') \<and> rx_ubuf_head (up_wsi u') = 0 \<and>
    (\<not> socket_is_permanently_unusable (up_wsi u') \<longrightarrow> rx_idle (up_wsi u'))"
proof -
  obtain k n where sel: "select_protocol env u = Some (Some (k, n))"
    using assms(1) by (auto simp: upgrade_ws_def bail_nuke_ah_def bind_eq_Some_conv split: option.splits)
  obtain r u1 where u1: "lws_ensure_user_space env (u\<lparr>up_protocol := k\<rparr>) = (r, u1)" by (rule prod.exhaust)
  obtain data where shake: "upgrade_shake env n data u1 = Some (0, u')"
    using assms(1) by (auto simp: upgrade_ws_def sel u1 bail_nuke_ah_def bind_eq_Some_conv split: if_splits)
  obtain u2 v where rev: "ietf_spec_revision (snd (protocol_callback (up_conn env) CB_FILTER_PROTOCOL_CONNECTION data (up_wsi u1))) = 13"
    and hs: "handshake_0405 env (u1\<lparr>up_wsi := snd (protocol_callback (up_conn env) CB_FILTER_PROTOCOL_CONNECTION data (up_wsi u1))\<rparr>) = Some (0, u2)"
    and start: "start_ws env (u2\<lparr>up_same_protocol := v\<rparr>) = Some (0, u')"
    using shake by (auto simp: upgrade_shake_def Let_def bail_nuke_ah_def bind_eq_Some_conv case_prod_beta split: if_splits)
  let ?w = "snd (protocol_callback (up_conn env) CB_FILTER_PROTOCOL_CONNECTION data (up_wsi u1))"
  have "up_wsi u1 = up_wsi u" using handshake_parts_wsi(2) [OF u1] by simp
  then have "ws_ok (up_wsi (u1\<lparr>up_wsi := ?w\<rparr>)) \<and> ietf_spec_revision (up_wsi (u1\<lparr>up_wsi := ?w\<rparr>)) = 13"
    using assms(2) rev by simp
  note keeps = up.handshake_keeps [OF hs this]
  obtain wsi where wsi: "ws_ok wsi" "ietf_spec_revision wsi = 13" "lws_rx_parse_state wsi = RXPS_NEW"
    and or: "up_wsi u2 = wsi \<or> up_wsi u2 = snd (protocol_callback (up_conn env) CB_HTTP_PMO [] wsi)"
    using keeps by blast
  have "rx_part (up_wsi u2) = rx_part wsi" "ws_ok (up_wsi u2)"
    using or wsi(1) rx_app.protocol_cb [OF refl] ok_app.protocol_cb by (elim disjE; simp)+
  then have u2: "ws_ok (up_wsi (u2\<lparr>up_same_protocol := v\<rparr>))" "lws_rx_parse_state (up_wsi (u2\<lparr>up_same_protocol := v\<rparr>)) = RXPS_NEW"
    "ietf_spec_revision (up_wsi (u2\<lparr>up_same_protocol := v\<rparr>)) = 13"
    using wsi by (simp_all add: rx_part_def)
  show ?thesis
    using start_ws_ready [OF start u2(1)] u2(2,3) by (simp add: rx_idle_def)
qed

lemma serving_calls: "protocol_callback (up_conn serving) reason data wsi = (0, log_event (Ev_callback reason data) wsi)"
  by (simp add: protocol_callback_def serving_def plain_env_def)

lemma plain_revision: "ietf_spec_revision (plain_conn m) = 13"
  by (simp add: plain_conn_def)

lemma asked_selects: "select_protocol serving asked = Some (Some (0, 0))"
  using asked_headers(3)
  by (simp add: select_protocol_def lws_hdr_copy_def absent_length hdr_absent_def lws_hdr_total_length_def lws_hdr_simple_ptr_def
      serving_def string_in_def c_str_def protocol_scan.simps [of _ "[]"] assert_opt_def)

theorem upgrade_starts_receiver_witness:
  "\<exists>u'. upgrade_ws serving asked = Some (0, u') \<and> rx_inv (up_conn serving) (up_wsi u') \<and> rx_ubuf_head (up_wsi u') = 0"
proof -
  let ?w = "(plain_conn LWSCM_HTTP_SERVING)\<lparr>ws_log := [Ev_callback CB_FILTER_PROTOCOL_CONNECTION []]\<rparr>"
  let ?u = "asked\<lparr>up_wsi := ?w, up_user_space := True\<rparr>"
  obtain wsi where "lws_write (up_conn serving) (Some (answer (bytes_of ''dGhlIHNhbXBsZSBub25jZQ=='') [])) LWS_WRITE_HTTP_HEADERS
      (up_wsi ?u) = (int (length (answer (bytes_of ''dGhlIHNhbXBsZSBub25jZQ=='') [])), wsi)"
    using serving_answers [of "[Ev_callback CB_FILTER_PROTOCOL_CONNECTION []]"] by auto
  from handshake_run [OF asked_acceptable this] obtain u2 where u2: "handshake_0405 serving ?u = Some (0, u2)"
    "up_same_protocol u2 = [[]]" by (auto simp: asked_def)
  have "upgrade_ws serving asked = upgrade_shake serving 0 [] (asked\<lparr>up_protocol := 0, up_user_space := True\<rparr>)"
    using asked_headers(3)
    by (simp add: upgrade_ws_def asked_selects lws_ensure_user_space_def lws_hdr_simple_ptr_def hdr_absent_def)
      (simp add: serving_def asked_def)
  also have "\<dots> = (case handshake_0405 serving ?u of None \<Rightarrow> None | Some (r, u) \<Rightarrow> if r \<noteq> 0 then bail_nuke_ah u
     else if 0 < length (up_same_protocol u)
       then start_ws serving (u\<lparr>up_same_protocol := (up_same_protocol u)[0 := wsi_id (up_wsi u) # up_same_protocol u ! 0]\<rparr>) else None)"
    using serving_calls [of CB_FILTER_PROTOCOL_CONNECTION "[]" "plain_conn LWSCM_HTTP_SERVING"]
    by (simp add: upgrade_shake_def asked_def plain_idle log_event_def assert_opt_def plain_revision Option.bind_def
      split: option.split prod.split)
  also have "\<dots> = start_ws serving (u2\<lparr>up_same_protocol := [[wsi_id (up_wsi u2)]]\<rparr>)" using u2 by simp
  also have "\<exists>u'. \<dots> = Some (0, u')"
    by (simp add: start_ws_def Let_def serving_calls) (simp add: serving_def plain_env_def)
  finally have "\<exists>u'. upgrade_ws serving asked = Some (0, u')" .
  moreover have "ws_ok (up_wsi asked)" using plain_rx_inv by (simp add: asked_def rx_inv_def)
  ultimately show ?thesis using upgrade_starts_receiver by blast
qed

end
