(* ===== verification/Ws_Service.thy ===== *)
theory Ws_Service
  imports Ws_Frames
begin

text \<open>
  What happens when the socket can be written to: \<^verbatim>\<open>lws_handle_POLLOUT_event\<close> of \<^verbatim>\<open>service.c\<close>
  and the writeable callback behind it, for a connection that is not an HTTP/2 network
  connection (those have \<^verbatim>\<open>pps\<close> and children). Flushing comes first, then an owed pong or close, then
  the ping of the keepalive, then held back extension data, and only then the application.
\<close>

subsection \<open>The handler\<close>

definition writeable_reason :: "conn_mode \<Rightarrow> cb_reason" where
  "writeable_reason m =
     (case m of
        LWSCM_WS_CLIENT \<Rightarrow> CB_CLIENT_WRITEABLE
      | LWSCM_WSCL_ISSUE_HTTP_BODY \<Rightarrow> CB_CLIENT_HTTP_WRITEABLE
      | LWSCM_WS_SERVING \<Rightarrow> CB_SERVER_WRITEABLE
      | _ \<Rightarrow> CB_HTTP_WRITEABLE)"

definition lws_calllback_as_writeable :: "env \<Rightarrow> ws \<Rightarrow> int \<times> ws" where
  "lws_calllback_as_writeable env wsi =
     user_callback_handle_rxflow env (writeable_reason (wsi_mode wsi)) [] wsi"

text \<open>The label \<^verbatim>\<open>user_service\<close>.\<close>

definition pollout_user_service :: "env \<Rightarrow> bool \<Rightarrow> ws \<Rightarrow> int \<times> ws" where
  "pollout_user_service env pollfd wsi =
     (case (if pollfd then lws_change_pollfd env (False, True) (False, False) wsi else (0, wsi)) of
        (r, wsi) \<Rightarrow>
          if r \<noteq> 0 then (1, wsi)
          else if wsi_mode wsi \<noteq> LWSCM_WSCL_ISSUE_HTTP_BODY \<and> \<not> hdr_parsing_completed wsi then (0, wsi)
          else lws_calllback_as_writeable env wsi)"

text \<open>
  The loop that lets the extensions spill: \<open>Inl\<close> is a return of the handler, \<open>Inr\<close> the loop's
  end. The fuel bounds the rounds of an extension that always has more.
\<close>

fun pollout_ext_loop :: "nat \<Rightarrow> env \<Rightarrow> ws \<Rightarrow> (int \<times> ws) + ws" where
  "pollout_ext_loop 0 env wsi = Inr (set_fault Ext_loops wsi)"
| "pollout_ext_loop (Suc k) env wsi =
     (case lws_ext_cb_active env EXT_CB_PACKET_TX_PRESEND no_tokens wsi of (m, eff_buf, wsi) \<Rightarrow>
        if m < 0 then Inl (-1, wsi)
        else if token_len eff_buf \<noteq> 0 then
          (case lws_issue_raw env False
             (take (nat (token_len eff_buf)) (case token eff_buf of None \<Rightarrow> [] | Some bs \<Rightarrow> bs)) wsi of
             (n, wsi) \<Rightarrow>
               if n < 0 \<or> n \<noteq> token_len eff_buf then Inl (-1, wsi)
               else if m = 0 then Inr wsi
               else if lws_send_pipe_choked env wsi then Inl (0, wsi)
               else pollout_ext_loop k env wsi)
        else if m = 0 then Inr wsi
        else pollout_ext_loop k env wsi)"

definition pollout_exts :: "env \<Rightarrow> bool \<Rightarrow> ws \<Rightarrow> int \<times> ws" where
  "pollout_exts env pollfd wsi =
     (case lws_ext_cb_active env EXT_CB_IS_WRITEABLE no_tokens wsi of (m, _, wsi) \<Rightarrow>
        if m \<noteq> 0 then (-1, wsi)
        else if \<not> extension_data_pending wsi then pollout_user_service env pollfd wsi
        else case pollout_ext_loop (Suc (ext_rounds env)) env wsi of
               Inl r \<Rightarrow> r
             | Inr wsi \<Rightarrow> pollout_user_service env pollfd (wsi\<lparr>extension_data_pending := False\<rparr>))"

text \<open>Priority 3: the pong or the close.\<close>

definition pollout_control :: "env \<Rightarrow> ws \<Rightarrow> int \<times> ws" where
  "pollout_control env wsi =
     (let write_type = (if payload_is_close wsi then LWS_WRITE_CLOSE else LWS_WRITE_PONG)
      in case lws_write env (Some (take (ping_payload_len wsi) (ping_payload_buf wsi))) write_type wsi of
           (n, wsi) \<Rightarrow>
             if n < 0 then (-1, wsi)
             else (if payload_is_close wsi then -1 else 0, wsi\<lparr>ping_pending_flag := False\<rparr>))"

definition pollout_check_ping :: "env \<Rightarrow> ws \<Rightarrow> int \<times> ws" where
  "pollout_check_ping env wsi =
     (case lws_write env (Some []) LWS_WRITE_PING (wsi\<lparr>send_check_ping := False\<rparr>) of (n, wsi) \<Rightarrow>
        if n < 0 then (-1, wsi)
        else (0, lws_set_timeout env PENDING_TIMEOUT_WS_PONG_CHECK_GET_PONG (timeout_secs env) wsi))"

definition control_pending :: "ws \<Rightarrow> bool" where
  "control_pending wsi \<longleftrightarrow>
     (wsi_state wsi = LWSS_ESTABLISHED \<and> ping_pending_flag wsi) \<or>
     (wsi_state wsi = LWSS_RETURNED_CLOSE_ALREADY \<and> payload_is_close wsi)"

definition lws_handle_POLLOUT_event :: "env \<Rightarrow> bool \<Rightarrow> ws \<Rightarrow> int \<times> ws" where
  "lws_handle_POLLOUT_event env pollfd wsi =
     (if trunc_len wsi \<noteq> 0 then
        (case lws_issue_raw env True (trunc_pending wsi) wsi of (n, wsi) \<Rightarrow>
           if n < 0 then (-1, wsi) else (0, wsi))
      else if wsi_state wsi = LWSS_FLUSHING_STORED_SEND_BEFORE_CLOSE then (-1, wsi)
      else if wsi_mode wsi = LWSCM_WSCL_ISSUE_HTTP_BODY then pollout_user_service env pollfd wsi
      else if control_pending wsi then pollout_control env wsi
      else if wsi_state wsi = LWSS_ESTABLISHED \<and> \<not> socket_is_permanently_unusable wsi \<and> send_check_ping wsi
      then pollout_check_ping env wsi
      else if wsi_state wsi = LWSS_RETURNED_CLOSE_ALREADY then pollout_user_service env pollfd wsi
      else if wsi_state wsi = LWSS_ESTABLISHED \<and> tx_draining_ext wsi then
        (case lws_write env None LWS_WRITE_CONTINUATION wsi of (n, wsi) \<Rightarrow>
           if n < 0 then (-1, wsi) else (0, wsi))
      else pollout_exts env pollfd wsi)"

subsection \<open>What the handler keeps\<close>

locale service_frame = app_frame +
  assumes check_ping [simp]: "P wsi \<Longrightarrow> P (send_check_ping_update g wsi)"
    and ping_flag [simp]: "P wsi \<Longrightarrow> P (ping_pending_flag_update g wsi)"
begin

lemma user_service [simp]:
  assumes "P wsi"
  shows "P (snd (pollout_user_service env pollfd wsi))"
proof -
  obtain r w where e: "(if pollfd then lws_change_pollfd env (False, True) (False, False) wsi else (0, wsi)) = (r, w)"
    by (rule prod.exhaust)
  then have "P w" using assms change_pollfd by (cases pollfd) auto
  then show ?thesis
    unfolding pollout_user_service_def e prod.case by (simp add: lws_calllback_as_writeable_def)
qed

lemma ext_spill: "P wsi \<Longrightarrow> P (case pollout_ext_loop k env wsi of Inl r \<Rightarrow> snd r | Inr w \<Rightarrow> w)"
proof (induction k arbitrary: wsi)
  case (Suc k)
  obtain m arg w where e: "lws_ext_cb_active env EXT_CB_PACKET_TX_PRESEND no_tokens wsi = (m, arg, w)"
    by (rule prod_cases3)
  have w: "P w" using ext_active [OF e Suc(2)] .
  obtain n v where v: "lws_issue_raw env False
      (take (nat (token_len arg)) (case token arg of None \<Rightarrow> [] | Some bs \<Rightarrow> bs)) w = (n, v)"
    by (rule prod.exhaust)
  have "P v" using issue_raw [OF w] v by (metis snd_conv)
  with w Suc.IH show ?case
    unfolding pollout_ext_loop.simps e prod.case v by simp
qed simp

lemma pollout_exts [simp]:
  assumes "P wsi"
  shows "P (snd (pollout_exts env pollfd wsi))"
proof -
  obtain m arg w where e: "lws_ext_cb_active env EXT_CB_IS_WRITEABLE no_tokens wsi = (m, arg, w)"
    by (rule prod_cases3)
  have "P w" using ext_active [OF e assms] .
  then show ?thesis
    unfolding pollout_exts_def e prod.case
    using ext_spill [of w "Suc (ext_rounds env)" env]
    by (cases "pollout_ext_loop (Suc (ext_rounds env)) env w") (simp_all del: pollout_ext_loop.simps)
qed

lemma pollout_control [simp]: "P wsi \<Longrightarrow> P (snd (pollout_control env wsi))"
  unfolding pollout_control_def Let_def by (simp add: case_prod_beta)

lemma pollout_check_ping [simp]: "P wsi \<Longrightarrow> P (snd (pollout_check_ping env wsi))"
  unfolding pollout_check_ping_def by (simp add: case_prod_beta)

lemma pollout [simp]: "P wsi \<Longrightarrow> P (snd (lws_handle_POLLOUT_event env pollfd wsi))"
  unfolding lws_handle_POLLOUT_event_def by (simp add: case_prod_beta)

end

interpretation rx_service: service_frame "rx_inv env" for env
  by unfold_locales (simp_all add: rx_inv_def ws_ok_def)

text \<open>A writeable event keeps the receiver's buffers within their bounds and causes no memory
  fault, whatever the application does in its callback and the extensions have to send.\<close>

lemma pollout_rx_inv:
  assumes "rx_inv env wsi" and "lws_handle_POLLOUT_event env pollfd wsi = (r, wsi')"
  shows "rx_inv env wsi'"
  using rx_service.pollout [OF assms(1)] assms(2) by (metis snd_conv)

text \<open>What the application has been told so far.\<close>

definition callbacks :: "ws \<Rightarrow> event list" where
  "callbacks wsi = filter is_callback (ws_log wsi)"

interpretation told: conn_frame "\<lambda>wsi. callbacks wsi = c" for c
  by unfold_locales (simp_all add: callbacks_def log_event_def set_fault_def lws_close_reason_def Let_def)

text \<open>C10: the application is not asked to write out of turn. While part of a frame waits in the
  truncated-send buffer, a pong or a close is owed, or a keepalive ping is due, a writeable event
  does that work only and does not call the application.\<close>

theorem pollout_order:
  assumes "trunc_len wsi \<noteq> 0 \<or> control_pending wsi \<or>
      wsi_state wsi = LWSS_ESTABLISHED \<and> \<not> socket_is_permanently_unusable wsi \<and> send_check_ping wsi"
    and "wsi_mode wsi \<noteq> LWSCM_WSCL_ISSUE_HTTP_BODY"
    and "lws_handle_POLLOUT_event env pollfd wsi = (r, wsi')"
  shows "callbacks wsi' = callbacks wsi"
proof -
  have raw: "callbacks (snd (lws_issue_raw env True b w)) = callbacks w" for b w
    by (rule told.issue_raw) (rule refl)
  have data: "callbacks (snd (lws_write env b wp w)) = callbacks w" for b wp w
    by (rule told.write_data) (rule refl)
  have timeout: "callbacks (lws_set_timeout env t s w) = callbacks w" for t s w
    by (rule told.set_timeout) (rule refl)
  have flags: "callbacks (w\<lparr>ping_pending_flag := g\<rparr>) = callbacks w"
    "callbacks (w\<lparr>send_check_ping := g\<rparr>) = callbacks w" for w g
    by (simp_all add: callbacks_def)
  have "callbacks (snd (lws_handle_POLLOUT_event env pollfd wsi)) = callbacks wsi"
    using assms(1,2)
    unfolding lws_handle_POLLOUT_event_def pollout_control_def pollout_check_ping_def Let_def
    by (auto simp: case_prod_beta raw data timeout flags)
  then show ?thesis using assms(3) by simp
qed

subsection \<open>Control frames answered\<close>

lemma lws_write_control:
  assumes "exts env = []" and "sock_ok env" and "trunc_wf wsi" and "trunc_len wsi = 0"
    and "wsi_mode wsi = LWSCM_WS_SERVING" and "ietf_spec_revision wsi = 13"
    and "\<not> tx_draining_ext wsi" and "\<not> inside_frame wsi"
    and "wp = LWS_WRITE_PONG \<and> opc = 10 \<and> wsi_state wsi = LWSS_ESTABLISHED \<or>
      wp = LWS_WRITE_PING \<and> opc = 9 \<and> wsi_state wsi = LWSS_ESTABLISHED \<or>
      wp = LWS_WRITE_CLOSE \<and> opc = 8 \<and> wsi_state wsi \<in> {LWSS_ESTABLISHED, LWSS_RETURNED_CLOSE_ALREADY}"
    and "lws_write env (Some payload) wp wsi = (r, wsi')" and "0 \<le> r"
  shows "out_stream wsi' = out_stream wsi @ tx_frame LWSCM_WS_SERVING opc wp [] payload \<and> trunc_wf wsi'"
proof -
  define w where "w = (lws_restart_ws_ping_pong_timer env wsi)\<lparr>clean_buffer := True\<rparr>"
  have w: "wsi_mode w = LWSCM_WS_SERVING" "wsi_state w = wsi_state wsi" "trunc_wf w"
      "ietf_spec_revision w = 13" "out_stream w = out_stream wsi" "\<not> inside_frame w"
    using assms(3,5,6,8) by (simp_all add: w_def lws_restart_ws_ping_pong_timer_def trunc_wf_def
        out_stream_def trunc_pending_def)
  have opc: "write_opcode wp = Some opc" using assms(9) by (auto simp: write_opcode_def write_types)
  have exts: "write_payload_exts env (Some payload) wp w = Inr (payload, wp, w)"
    using assms(9) by (auto simp: write_payload_exts_def Let_def)
  have "lws_write env (Some payload) wp wsi =
      write_send_raw env wp (length payload) (frame_header opc wp 0 (of_nat (length payload))) payload w"
    using assms(7-9) exts opc w
    by (auto simp: lws_write_def Let_def w_def lws_restart_ws_ping_pong_timer_def write_types write_frame_def)
  also have "\<dots> = lws_issue_raw env False (frame_header opc wp 0 (of_nat (length payload)) @ payload) w"
    using assms(9) by (auto simp: write_send_raw_def)
  finally have raw: "lws_issue_raw env False (frame_header opc wp 0 (of_nat (length payload)) @ payload) w = (r, wsi')"
    using assms(10) by simp
  have "wsi_state w \<noteq> LWSS_FLUSHING_STORED_SEND_BEFORE_CLOSE" using w(2) assms(9) by auto
  from issue_raw_new [OF assms(1,2) w(3) this raw assms(11)] w(5) show ?thesis
    by (simp add: tx_frame_def)
qed

text \<open>The sender between frames, as it stands while the receiver is at work.\<close>

definition send_idle :: "ws \<Rightarrow> bool" where
  "send_idle wsi \<longleftrightarrow> wsi_mode wsi = LWSCM_WS_SERVING \<and> ietf_spec_revision wsi = 13 \<and>
     \<not> tx_draining_ext wsi \<and> \<not> inside_frame wsi \<and> trunc_wf wsi \<and> trunc_len wsi = 0"

definition send_part where
  "send_part wsi = (wsi_mode wsi, ietf_spec_revision wsi, tx_draining_ext wsi, inside_frame wsi,
     trunc_alloc wsi, trunc_alloc_len wsi, trunc_offset wsi, trunc_len wsi, wire wsi)"

interpretation sender: poll_frame "\<lambda>wsi. send_part wsi = c" for c
  by unfold_locales (simp_all add: send_part_def log_event_def)

lemma send_idle_part: "send_part w = send_part wsi \<Longrightarrow> send_idle w = send_idle wsi \<and> out_stream w = out_stream wsi"
  by (simp add: send_part_def send_idle_def trunc_wf_def out_stream_def trunc_pending_def)

lemma send_part_ping: "send_part (snd (rx_process_as_ping env w)) = send_part w"
proof -
  have "send_part (snd (lws_callback_on_writable env v)) = send_part v" for v
    by (rule sender.on_writable) (rule refl)
  moreover have "send_part (v\<lparr>rx_ubuf_head := n\<rparr>) = send_part v" "send_part (set_fault f v) = send_part v"
    "send_part (v\<lparr>ping_payload_buf := b, ping_payload_len := n, ping_pending_flag := g\<rparr>) = send_part v"
    "send_part (v\<lparr>ping_payload_len := n, ping_pending_flag := g\<rparr>) = send_part v" for v n b g f
    by (simp_all add: send_part_def set_fault_def)
  ultimately show ?thesis by (simp add: rx_process_as_ping_def Let_def)
qed

lemma send_part_rx_only: "rx_only w wsi \<Longrightarrow> send_part w = send_part wsi"
  unfolding rx_only_def send_part_def by (erule ssubst) simp

interpretation owed: conn_frame "\<lambda>wsi. (payload_is_close wsi, ping_pending_flag wsi) = c" for c
  by unfold_locales (simp_all add: log_event_def set_fault_def lws_close_reason_def Let_def)

lemma keeps_close:
  "payload_is_close (snd (lws_write env buf wp wsi)) = payload_is_close wsi"
  "ping_pending_flag (snd (lws_write env buf wp wsi)) = ping_pending_flag wsi"
proof -
  have "(payload_is_close (snd (lws_write env buf wp wsi)), ping_pending_flag (snd (lws_write env buf wp wsi))) =
      (payload_is_close wsi, ping_pending_flag wsi)"
    by (rule owed.write_data) (rule refl)
  then show "payload_is_close (snd (lws_write env buf wp wsi)) = payload_is_close wsi"
    "ping_pending_flag (snd (lws_write env buf wp wsi)) = ping_pending_flag wsi"
    by (simp_all only: prod.inject)
qed


text \<open>C9: a close is answered and then the connection ends. After a close frame has been accepted,
  the writeable event always reports \<open>-1\<close>; unless the write failed (the flag is still set) the
  close frame with the payload that was kept has been appended to the stream.\<close>

theorem close_is_answered:
  assumes "exts env = []" and "sock_ok env" and "send_idle wsi"
    and "wsi_state wsi = LWSS_RETURNED_CLOSE_ALREADY" and "payload_is_close wsi" and "ping_pending_flag wsi"
    and "lws_handle_POLLOUT_event env pollfd wsi = (r, wsi')"
  shows "r = -1 \<and> (ping_pending_flag wsi' \<or> out_stream wsi' = out_stream wsi @
    tx_frame LWSCM_WS_SERVING 8 LWS_WRITE_CLOSE [] (take (ping_payload_len wsi) (ping_payload_buf wsi)))"
proof -
  let ?payload = "take (ping_payload_len wsi) (ping_payload_buf wsi)"
  obtain k u where u: "lws_write env (Some ?payload) LWS_WRITE_CLOSE wsi = (k, u)" by (rule prod.exhaust)
  have closing: "payload_is_close u" "ping_pending_flag u"
    using keeps_close [of env "Some ?payload" LWS_WRITE_CLOSE wsi] assms(5,6) u by simp_all
  have handle: "(r, wsi') = (if k < 0 then (-1, u) else (-1, u\<lparr>ping_pending_flag := False\<rparr>))"
    using assms(3-7) u closing(1)
    by (auto simp: lws_handle_POLLOUT_event_def control_pending_def pollout_control_def send_idle_def Let_def)
  have frame: "out_stream u = out_stream wsi @ tx_frame LWSCM_WS_SERVING 8 LWS_WRITE_CLOSE [] ?payload" if "0 \<le> k"
    using lws_write_control [OF assms(1,2) _ _ _ _ _ _ _ u that] assms(3,4) by (auto simp: send_idle_def)
  have "out_stream (u\<lparr>ping_pending_flag := False\<rparr>) = out_stream u" by (simp add: out_stream_def trunc_pending_def)
  then show ?thesis using handle frame closing by (auto split: if_splits)
qed

subsection \<open>A pong while an extension drains\<close>

text \<open>An extension that is asked about everything and changes nothing.\<close>

definition idle_ext_env :: env where
  "idle_ext_env = (plain_env 100)\<lparr>exts := [\<lambda>_ _ t. (0, t)]\<rparr>"

text \<open>A pong that is owed while an extension is draining a message does not go out as a pong:
  \<^verbatim>\<open>lws_write\<close> turns any write on a draining connection into a continuation, so the ping payload
  becomes part of the data message (opcode 0, not 10) although \<^verbatim>\<open>lws_handle_POLLOUT_event\<close> takes control
  packets to be able to interleave.\<close>

lemma pong_while_draining:
  "wire (snd (lws_handle_POLLOUT_event idle_ext_env True
     ((plain_conn LWSCM_WS_SERVING)\<lparr>ping_pending_flag := True, ping_payload_buf := [7, 8, 9],
        ping_payload_len := 2, tx_draining_ext := True\<rparr>))) = [0x80, 2, 7, 8]"
  by code_simp

subsection \<open>Witnesses\<close>

theorem pollout_order_witness:
  "callbacks (snd (lws_handle_POLLOUT_event (plain_env 2) True half_sent)) = callbacks half_sent"
proof -
  have "trunc_len half_sent \<noteq> 0" "wsi_mode half_sent \<noteq> LWSCM_WSCL_ISSUE_HTTP_BODY" by code_simp+
  then show ?thesis
    using pollout_order [of half_sent "plain_env 2" True, OF _ _ prod.collapse [symmetric]] by blast
qed

lemma plain_send_idle: "send_idle (plain_conn LWSCM_WS_SERVING)" "\<not> payload_is_close (plain_conn m)"
  by (simp_all add: send_idle_def plain_conn_def lws_union_transition_def lws_create_new_server_wsi_def
      trunc_wf_def)


theorem close_is_answered_witness:
  "out_stream (snd (lws_handle_POLLOUT_event (plain_env 9) True
     ((plain_conn LWSCM_WS_SERVING)\<lparr>wsi_state := LWSS_RETURNED_CLOSE_ALREADY, payload_is_close := True,
        ping_pending_flag := True, ping_payload_buf := [3, 232], ping_payload_len := 2\<rparr>))) = [0x88, 2, 3, 232]"
proof -
  define w where "w = (plain_conn LWSCM_WS_SERVING)\<lparr>wsi_state := LWSS_RETURNED_CLOSE_ALREADY,
    payload_is_close := True, ping_pending_flag := True, ping_payload_buf := [3, 232], ping_payload_len := 2\<rparr>"
  have w: "send_idle w" "out_stream w = []"
    using plain_send_idle(1) plain_ready(5) [of LWSCM_WS_SERVING]
    by (simp_all add: w_def send_idle_def out_stream_def trunc_pending_def trunc_wf_def)
  have "\<not> ping_pending_flag (snd (lws_handle_POLLOUT_event (plain_env 9) True w))"
    "tx_frame LWSCM_WS_SERVING 8 LWS_WRITE_CLOSE [] [3, 232] = [0x88, 2, 3, 232]"
    unfolding w_def by code_simp+
  then show ?thesis
    using close_is_answered [OF plain_no_exts plain_sock_ok w(1) _ _ _ prod.collapse [symmetric], of 9 True] w(2)
    unfolding w_def by simp
qed

end
