(* ===== verification/Ws_Close.thy ===== *)
theory Ws_Close
  imports Ws_Service
begin

text \<open>
  Closing a connection: \<^verbatim>\<open>lws_close_free_wsi\<close> of \<^verbatim>\<open>libwebsockets.c\<close> and the timeout check of
  \<^verbatim>\<open>service.c\<close> that ends in it, for a connection that has no parent, children or CGI (only HTTP/2
  streams and CGI have). The function is called again and again while the close proceeds: the stored
  send is flushed, the close frame sent, the socket shut down for writing, and the last call frees.
  A freed connection is a value in \<^verbatim>\<open>LWSS_DEAD_SOCKET\<close> with \<open>Ev_free\<close> in its log.
\<close>

subsection \<open>The stages\<close>

text \<open>The vhost's first protocol is told; its answer is not used.\<close>

definition tell_vhost :: "cb_reason \<Rightarrow> ws \<Rightarrow> ws" where
  "tell_vhost reason wsi = log_event (Ev_callback reason []) wsi"

definition tell_protocol :: "env \<Rightarrow> cb_reason \<Rightarrow> ws \<Rightarrow> ws" where
  "tell_protocol env reason wsi = snd (protocol_callback env reason [] wsi)"

text \<open>\<^verbatim>\<open>remove_wsi_socket_from_fds\<close>, of which \<open>Poll_Table\<close> has the table side.\<close>

definition remove_from_fds :: "env \<Rightarrow> ws \<Rightarrow> ws" where
  "remove_from_fds env wsi =
     (let wsi' = log_event (Ev_poll CB_LOCK_POLL) wsi in
      if vhost_cb env wsi CB_LOCK_POLL \<noteq> 0 then wsi'
      else log_event (Ev_poll CB_UNLOCK_POLL)
             (log_event (Ev_poll CB_DEL_POLL_FD) (wsi'\<lparr>in_fds_table := False\<rparr>)))"

definition is_client_http_mode :: "conn_mode \<Rightarrow> bool" where
  "is_client_http_mode m \<longleftrightarrow>
     m \<in> {LWSCM_WSCL_WAITING_CONNECT, LWSCM_WSCL_ISSUE_HANDSHAKE, LWSCM_WSCL_ISSUE_HTTP_BODY,
          LWSCM_WSCL_WAITING_SERVER_REPLY}"

definition LWS_CLOSE_STATUS_NOSTATUS :: u32 where "LWS_CLOSE_STATUS_NOSTATUS = 0"
definition LWS_CLOSE_STATUS_NOSTATUS_CONTEXT_DESTROY :: u32 where
  "LWS_CLOSE_STATUS_NOSTATUS_CONTEXT_DESTROY = 9999"

text \<open>
  The label \<^verbatim>\<open>just_kill_connection\<close>: the first time round the socket is only shut down for writing,
  with a timeout, and the peer's end of stream brings the connection back here.
\<close>

definition close_drop_lists :: "ws \<Rightarrow> ws" where
  "close_drop_lists wsi =
     (let wsi = (if rx_draining_ext wsi
                 then wsi\<lparr>rx_draining_ext := False,
                          rx_draining_ext_list := remove1 (wsi_id wsi) (rx_draining_ext_list wsi)\<rparr> else wsi);
          wsi = (if tx_draining_ext wsi
                 then wsi\<lparr>tx_draining_ext := False,
                          tx_draining_ext_list := remove1 (wsi_id wsi) (tx_draining_ext_list wsi)\<rparr> else wsi)
      in wsi\<lparr>rx_ubuf := [], trunc_alloc := [], ping_payload_len := 0, ping_pending_flag := False\<rparr>)"

definition close_tell_user :: "env \<Rightarrow> ws \<Rightarrow> ws" where
  "close_tell_user env wsi =
     (if has_callback env \<and>
         (state_pre_close wsi \<in> {LWSS_ESTABLISHED, LWSS_RETURNED_CLOSE_ALREADY, LWSS_AWAITING_CLOSE_ACK,
            LWSS_FLUSHING_STORED_SEND_BEFORE_CLOSE} \<or>
          (wsi_mode wsi \<in> {LWSCM_WS_CLIENT, LWSCM_WS_SERVING} \<and> state_pre_close wsi = LWSS_HTTP)) then
        tell_protocol env CB_CLOSED
          (if has_user_space env then tell_protocol env CB_HTTP_DROP_PROTOCOL wsi else wsi)
      else if wsi_mode wsi = LWSCM_HTTP_SERVING_ACCEPTED then tell_vhost CB_CLOSED_HTTP wsi
      else if wsi_mode wsi \<in> {LWSCM_WSCL_WAITING_SERVER_REPLY, LWSCM_WSCL_WAITING_CONNECT} \<and>
              \<not> already_did_cce wsi then tell_vhost CB_CLIENT_CONNECTION_ERROR wsi
      else wsi)"

definition lws_close_free_wsi_final :: "ws \<Rightarrow> ws" where
  "lws_close_free_wsi_final wsi =
     (let wsi = tell_vhost CB_WSI_DESTROY (wsi\<lparr>sock_valid := False\<rparr>)
      in log_event Ev_free (wsi\<lparr>rxflow_buffer := None, trunc_alloc := []\<rparr>))"

definition just_kill_connection :: "env \<Rightarrow> u32 \<Rightarrow> ws \<Rightarrow> ws" where
  "just_kill_connection env reason wsi =
     (if wsi_state wsi \<noteq> LWSS_SHUTDOWN \<and> wsi_state wsi \<noteq> LWSS_CLIENT_UNCONNECTED \<and>
         reason \<noteq> LWS_CLOSE_STATUS_NOSTATUS_CONTEXT_DESTROY \<and> \<not> socket_is_permanently_unusable wsi then
        let wsi = log_event Ev_shutdown wsi;
            wsi = snd (lws_change_pollfd env (False, True) (True, False) wsi);
            wsi = wsi\<lparr>wsi_state := LWSS_SHUTDOWN\<rparr>
        in lws_set_timeout env PENDING_TIMEOUT_SHUTDOWN_FLUSH (timeout_secs env) wsi
      else
        let wsi = lws_remove_from_timeout_list wsi;
            wsi = (if sock_valid wsi then remove_from_fds env wsi else wsi);
            wsi = wsi\<lparr>wsi_state := LWSS_DEAD_SOCKET, rxflow_buffer := None\<rparr>;
            wsi = (if state_pre_close wsi = LWSS_ESTABLISHED \<or> wsi_mode wsi = LWSCM_WS_SERVING \<or>
                      wsi_mode wsi = LWSCM_WS_CLIENT then close_drop_lists wsi else wsi);
            wsi = close_tell_user env wsi;
            (_, _, wsi) = lws_ext_cb_active env EXT_CB_DESTROY no_tokens wsi;
            wsi = wsi\<lparr>socket_is_permanently_unusable := True\<rparr>
        in lws_close_free_wsi_final wsi)"

text \<open>Flushing what the extensions hold: \<open>Inl\<close> goes to \<open>just_kill_connection\<close>.\<close>

fun close_flush_exts :: "nat \<Rightarrow> env \<Rightarrow> ws \<Rightarrow> ws + ws" where
  "close_flush_exts 0 env wsi = Inr (set_fault Ext_loops wsi)"
| "close_flush_exts (Suc k) env wsi =
     (case lws_ext_cb_active env EXT_CB_FLUSH_PENDING_TX no_tokens wsi of (m, eff_buf, wsi) \<Rightarrow>
        if m < 0 then Inl wsi
        else
          let (n, wsi) =
                (if token_len eff_buf \<noteq> 0 then
                   lws_issue_raw env False
                     (take (nat (token_len eff_buf)) (case token eff_buf of None \<Rightarrow> [] | Some bs \<Rightarrow> bs)) wsi
                 else (0, wsi))
          in if token_len eff_buf \<noteq> 0 \<and> n \<noteq> token_len eff_buf then Inl wsi
             else if m = 0 then Inr wsi
             else close_flush_exts k env wsi)"

text \<open>Sending the close frame. The reason's bytes are stored as the code stores them.\<close>

definition close_send :: "env \<Rightarrow> u32 \<Rightarrow> ws \<Rightarrow> ws" where
  "close_send env reason wsi =
     (let wsi = (if close_in_ping_buffer_len wsi = 0
                 then wsi\<lparr>close_in_ping_buffer_len := 2,
                          ping_payload_buf := (ping_payload_buf wsi)
                            [0 := ucast (drop_bit 16 reason AND 0xff), 1 := ucast (reason AND 0xff)]\<rparr>
                 else wsi)
      in case lws_write env (Some (take (close_in_ping_buffer_len wsi) (ping_payload_buf wsi)))
                LWS_WRITE_CLOSE wsi of
           (n, wsi) \<Rightarrow>
             if 0 \<le> n then lws_set_timeout env PENDING_TIMEOUT_CLOSE_ACK 1 (wsi\<lparr>wsi_state := LWSS_AWAITING_CLOSE_ACK\<rparr>)
             else just_kill_connection env reason wsi)"

text \<open>From the extensions' veto on.\<close>

definition close_finish :: "env \<Rightarrow> u32 \<Rightarrow> ws \<Rightarrow> ws" where
  "close_finish env reason wsi =
     (case lws_ext_cb_active env EXT_CB_CHECK_OK_TO_REALLY_CLOSE no_tokens wsi of (m, _, wsi) \<Rightarrow>
        if 0 < m then wsi
        else case close_flush_exts (Suc (ext_rounds env)) env wsi of
               Inl wsi \<Rightarrow> just_kill_connection env reason wsi
             | Inr wsi \<Rightarrow>
                 if state_pre_close wsi = LWSS_ESTABLISHED \<and>
                    (close_in_ping_buffer_len wsi \<noteq> 0 \<or>
                     (reason \<noteq> LWS_CLOSE_STATUS_NOSTATUS \<and>
                      reason \<noteq> LWS_CLOSE_STATUS_NOSTATUS_CONTEXT_DESTROY))
                 then close_send env reason wsi
                 else just_kill_connection env reason wsi)"

text \<open>From the mode checks on.\<close>

definition close_politely :: "env \<Rightarrow> u32 \<Rightarrow> ws \<Rightarrow> ws" where
  "close_politely env reason wsi =
     (if wsi_mode wsi = LWSCM_WSCL_WAITING_CONNECT \<or> wsi_mode wsi = LWSCM_WSCL_ISSUE_HANDSHAKE then
        just_kill_connection env reason wsi
      else
        let wsi = (if wsi_mode wsi = LWSCM_HTTP_SERVING then
                     (tell_vhost CB_CLOSED_HTTP
                        (if has_user_space env then tell_vhost CB_HTTP_DROP_PROTOCOL wsi else wsi))
                       \<lparr>told_user_closed := True\<rparr>
                   else wsi);
            wsi = (if is_client_http_mode (wsi_mode wsi)
                   then (tell_vhost CB_CLOSED_CLIENT_HTTP wsi)\<lparr>told_user_closed := True\<rparr> else wsi)
        in close_finish env reason wsi)"

definition lws_close_free_wsi :: "env \<Rightarrow> u32 \<Rightarrow> ws \<Rightarrow> ws" where
  "lws_close_free_wsi env reason wsi =
     (let wsi = (if wsi_mode wsi = LWSCM_HTTP_SERVING_ACCEPTED \<and> http_fd_open wsi
                 then (tell_vhost CB_CLOSED_HTTP (wsi\<lparr>http_fd_open := False\<rparr>))\<lparr>told_user_closed := True\<rparr>
                 else wsi)
      in if socket_is_permanently_unusable wsi \<or> reason = LWS_CLOSE_STATUS_NOSTATUS_CONTEXT_DESTROY \<or>
            wsi_state wsi = LWSS_SHUTDOWN then just_kill_connection env reason wsi
         else
           let wsi = wsi\<lparr>state_pre_close := wsi_state wsi\<rparr> in
           case state_pre_close wsi of
             LWSS_DEAD_SOCKET \<Rightarrow> wsi
           | LWSS_AWAITING_CLOSE_ACK \<Rightarrow> just_kill_connection env reason wsi
           | LWSS_FLUSHING_STORED_SEND_BEFORE_CLOSE \<Rightarrow>
               if trunc_len wsi \<noteq> 0 then snd (lws_callback_on_writable env wsi)
               else just_kill_connection env reason wsi
           | _ \<Rightarrow>
               if trunc_len wsi \<noteq> 0 then
                 lws_set_timeout env PENDING_FLUSH_STORED_SEND_BEFORE_CLOSE 5
                   (wsi\<lparr>wsi_state := LWSS_FLUSHING_STORED_SEND_BEFORE_CLOSE\<rparr>)
               else close_politely env reason wsi)"

definition lws_service_timeout_check :: "env \<Rightarrow> int \<Rightarrow> ws \<Rightarrow> int \<times> ws" where
  "lws_service_timeout_check env sec wsi =
     (case lws_ext_cb_active env EXT_CB_1HZ no_tokens wsi of (m, _, wsi) \<Rightarrow>
        if m < 0 then (0, wsi)
        else if pending_timeout wsi = NO_PENDING_TIMEOUT then (0, wsi)
        else if pending_timeout_limit wsi < sec then
          (1, lws_close_free_wsi env LWS_CLOSE_STATUS_NOSTATUS (wsi\<lparr>socket_is_permanently_unusable := True\<rparr>))
        else (0, wsi))"

text \<open>The status code of a close frame the server starts is not the one it was asked for: the high
  byte is taken from bits 16 to 23 of the code, so 1000 (normal closure) goes out as 232.\<close>

lemma close_code_sent:
  "wire (lws_close_free_wsi (plain_env 100) 1000 (plain_conn LWSCM_WS_SERVING)) = [0x88, 2, 0, 232] \<and>
   unat (1000 :: u32) = 3 * 256 + 232"
  by code_simp

text \<open>A server that closes an HTTP connection in the middle of a file tells the application twice
  that it is closed.\<close>

lemma closed_http_twice:
  "filter (\<lambda>e. e = Ev_callback CB_CLOSED_HTTP []) (ws_log (lws_close_free_wsi (plain_env 100) 0
     (lws_close_free_wsi (plain_env 100) 0 ((plain_conn LWSCM_HTTP_SERVING_ACCEPTED)
        \<lparr>wsi_state := LWSS_HTTP_ISSUING_FILE, http_fd_open := True\<rparr>)))) =
   [Ev_callback CB_CLOSED_HTTP [], Ev_callback CB_CLOSED_HTTP []]"
  by code_simp

subsection \<open>What a close changes\<close>

text \<open>How often the application was told \<^verbatim>\<open>LWS_CALLBACK_CLOSED\<close>, and where the connection is.\<close>

fun is_closed :: "event \<Rightarrow> bool" where
  "is_closed (Ev_callback CB_CLOSED data) = True"
| "is_closed ev = False"

definition closed_count :: "ws \<Rightarrow> nat" where
  "closed_count wsi = length (filter is_closed (ws_log wsi))"

definition life where
  "life wsi = (wsi_mode wsi, wsi_state wsi, state_pre_close wsi, closed_count wsi)"

lemma is_closed_not_callback: "\<not> is_callback ev \<Longrightarrow> \<not> is_closed ev"
  by (cases ev) auto

interpretation life: conn_frame "\<lambda>wsi. life wsi = c" for c
  by unfold_locales
    (simp_all add: life_def closed_count_def log_event_def set_fault_def lws_close_reason_def is_closed_not_callback Let_def)

lemma closed_count_log: "closed_count (log_event ev w) = closed_count w + (if is_closed ev then 1 else 0)"
  by (simp add: closed_count_def log_event_def)

lemma life_callback:
  "life (tell_protocol env r w) = (wsi_mode w, wsi_state w, state_pre_close w, closed_count w + (if r = CB_CLOSED then 1 else 0))"
proof -
  have "life (fold (run_api env) apis v) = life v" for apis v by (rule life.apis) (rule refl)
  moreover have "is_closed (Ev_callback r []) \<longleftrightarrow> r = CB_CLOSED" by (cases r) simp_all
  moreover have "wsi_mode (log_event ev w) = wsi_mode w" "wsi_state (log_event ev w) = wsi_state w"
    "state_pre_close (log_event ev w) = state_pre_close w" for ev by (simp_all add: log_event_def)
  ultimately show ?thesis
    by (simp add: tell_protocol_def protocol_callback_def life_def closed_count_log split: prod.split)
qed

lemma life_tell_vhost: "r \<noteq> CB_CLOSED \<Longrightarrow> life (tell_vhost r w) = life w"
  by (cases r) (simp_all add: tell_vhost_def life_def closed_count_def log_event_def)

lemma life_updates:
  "life (w\<lparr>sock_valid := b\<rparr>) = life w" "life (w\<lparr>rxflow_buffer := f\<rparr>) = life w" "life (w\<lparr>trunc_alloc := a\<rparr>) = life w"
  "life (w\<lparr>in_fds_table := b\<rparr>) = life w" "life (w\<lparr>socket_is_permanently_unusable := b\<rparr>) = life w"
  "life (w\<lparr>told_user_closed := b\<rparr>) = life w" "life (w\<lparr>http_fd_open := b\<rparr>) = life w"
  "life (w\<lparr>wsi_state := s\<rparr>) = (wsi_mode w, s, state_pre_close w, closed_count w)"
  "life (w\<lparr>state_pre_close := s\<rparr>) = (wsi_mode w, wsi_state w, s, closed_count w)"
  by (simp_all add: life_def closed_count_def)

lemma life_log: "\<not> is_callback ev \<Longrightarrow> life (log_event ev w) = life w"
  by (rule life.log) (rule refl)

lemma life_close_drop_lists: "life (close_drop_lists w) = life w"
  by (simp add: close_drop_lists_def life_def closed_count_def Let_def)

lemma life_remove_from_fds: "life (remove_from_fds env w) = life w"
  by (simp add: remove_from_fds_def Let_def life_log life_updates)

lemma life_remove_timeout: "life (lws_remove_from_timeout_list w) = life w"
  by (simp add: lws_remove_from_timeout_list_def life_def closed_count_def)

lemma life_final: "life (lws_close_free_wsi_final w) = life w" 
  by (simp add: lws_close_free_wsi_final_def Let_def life_log life_updates life_tell_vhost)

lemma free_last: "last (ws_log (lws_close_free_wsi_final w)) = Ev_free"
  by (simp add: lws_close_free_wsi_final_def Let_def log_event_def)

text \<open>The connection is one the application knows: it has been told nothing of a close yet.\<close>

definition known_state :: "conn_state \<Rightarrow> bool" where
  "known_state s \<longleftrightarrow> s \<in> {LWSS_ESTABLISHED, LWSS_RETURNED_CLOSE_ALREADY, LWSS_AWAITING_CLOSE_ACK,
     LWSS_FLUSHING_STORED_SEND_BEFORE_CLOSE}"

definition open_ws :: "ws \<Rightarrow> bool" where
  "open_ws wsi \<longleftrightarrow> wsi_mode wsi \<in> {LWSCM_WS_SERVING, LWSCM_WS_CLIENT} \<and>
     (known_state (wsi_state wsi) \<or> wsi_state wsi = LWSS_SHUTDOWN) \<and>
     (known_state (state_pre_close wsi) \<or> state_pre_close wsi = LWSS_HTTP)"

lemma open_ws_life: "life w = life v \<Longrightarrow> open_ws w = open_ws v \<and> closed_count w = closed_count v"
  by (simp add: open_ws_def life_def)

lemma life_tell_user:
  assumes "has_callback env" and "wsi_mode w \<in> {LWSCM_WS_SERVING, LWSCM_WS_CLIENT}"
    and "known_state (state_pre_close w) \<or> state_pre_close w = LWSS_HTTP"
  shows "life (close_tell_user env w) = (wsi_mode w, wsi_state w, state_pre_close w, closed_count w + 1)"
proof -
  have drop: "life (tell_protocol env CB_HTTP_DROP_PROTOCOL w) = life w"
    by (simp add: life_callback) (simp add: life_def)
  have "state_pre_close w \<in> {LWSS_ESTABLISHED, LWSS_RETURNED_CLOSE_ALREADY, LWSS_AWAITING_CLOSE_ACK,
          LWSS_FLUSHING_STORED_SEND_BEFORE_CLOSE} \<or>
        wsi_mode w \<in> {LWSCM_WS_CLIENT, LWSCM_WS_SERVING} \<and> state_pre_close w = LWSS_HTTP"
    using assms(2,3) unfolding known_state_def by blast
  then have "close_tell_user env w = tell_protocol env CB_CLOSED
      (if has_user_space env then tell_protocol env CB_HTTP_DROP_PROTOCOL w else w)"
    using assms(1) unfolding close_tell_user_def by (simp only: simp_thms if_True)
  then show ?thesis
    using drop [unfolded life_def prod.inject] by (cases "has_user_space env") (simp_all add: life_callback)
qed

text \<open>What one call of the close function comes to.\<close>

definition close_step :: "ws \<Rightarrow> ws \<Rightarrow> bool" where
  "close_step wsi wsi' \<longleftrightarrow>
     wsi_state wsi' = LWSS_DEAD_SOCKET \<and> closed_count wsi' = closed_count wsi + 1 \<and> last (ws_log wsi') = Ev_free \<or>
     open_ws wsi' \<and> closed_count wsi' = closed_count wsi"

lemma just_kill_step:
  assumes "has_callback env" and "open_ws wsi"
  shows "close_step wsi (just_kill_connection env reason wsi)"
proof (cases "wsi_state wsi \<noteq> LWSS_SHUTDOWN \<and> wsi_state wsi \<noteq> LWSS_CLIENT_UNCONNECTED \<and>
    reason \<noteq> LWS_CLOSE_STATUS_NOSTATUS_CONTEXT_DESTROY \<and> \<not> socket_is_permanently_unusable wsi")
  case True
  obtain r w where w: "lws_change_pollfd env (False, True) (True, False) (log_event Ev_shutdown wsi) = (r, w)"
    by (rule prod.exhaust)
  have "life w = life wsi" using life.change_pollfd [OF w, of "life wsi"] by (simp add: life_log)
  then have "life (just_kill_connection env reason wsi) =
      (wsi_mode wsi, LWSS_SHUTDOWN, state_pre_close wsi, closed_count wsi)"
    using True w unfolding just_kill_connection_def Let_def
    by simp (metis life.set_timeout life_def life_updates(8) prod.inject)
  then show ?thesis
    using assms(2) by (auto simp: close_step_def open_ws_def life_def)
next
  case False
  define a where "a = (if sock_valid (lws_remove_from_timeout_list wsi)
    then remove_from_fds env (lws_remove_from_timeout_list wsi) else lws_remove_from_timeout_list wsi)"
  have a: "life a = life wsi" by (simp add: a_def life_remove_from_fds life_remove_timeout)
  define b where "b = a\<lparr>wsi_state := LWSS_DEAD_SOCKET, rxflow_buffer := None\<rparr>"
  define c where "c = (if state_pre_close b = LWSS_ESTABLISHED \<or> wsi_mode b = LWSCM_WS_SERVING \<or>
                      wsi_mode b = LWSCM_WS_CLIENT then close_drop_lists b else b)"
  have c: "life c = (wsi_mode wsi, LWSS_DEAD_SOCKET, state_pre_close wsi, closed_count wsi)"
    using a by (simp add: c_def b_def life_close_drop_lists) (simp add: life_def closed_count_def)
  have d: "life (close_tell_user env c) = (wsi_mode wsi, LWSS_DEAD_SOCKET, state_pre_close wsi, closed_count wsi + 1)"
    using life_tell_user [OF assms(1), of c] c assms(2) by (auto simp: open_ws_def life_def)
  obtain m t e where e: "lws_ext_cb_active env EXT_CB_DESTROY no_tokens (close_tell_user env c) = (m, t, e)"
    by (rule prod_cases3)
  have "just_kill_connection env reason wsi =
      lws_close_free_wsi_final (e\<lparr>socket_is_permanently_unusable := True\<rparr>)"
    using False e unfolding just_kill_connection_def Let_def a_def [symmetric] b_def [symmetric] c_def [symmetric]
    by auto
  moreover have "life e = life (close_tell_user env c)" using life.ext_active [OF e] by simp
  ultimately show ?thesis
    using d by (simp add: close_step_def free_last) (metis life_def life_final life_updates(5) prod.inject)
qed

lemma life_flush: "life (case close_flush_exts k env wsi of Inl w \<Rightarrow> w | Inr w \<Rightarrow> w) = life wsi"
proof (induction k arbitrary: wsi)
  case 0
  then show ?case by (simp add: set_fault_def life_def closed_count_def)
next
  case (Suc k)
  obtain m arg w where e: "lws_ext_cb_active env EXT_CB_FLUSH_PENDING_TX no_tokens wsi = (m, arg, w)"
    by (rule prod_cases3)
  have w: "life w = life wsi" using life.ext_active [OF e] by simp
  have raw: "life (snd (lws_issue_raw env f b w)) = life w" for f b by (rule life.issue_raw) (rule refl)
  show ?case
    unfolding close_flush_exts.simps e prod.case Let_def
    by (simp add: case_prod_beta w raw Suc)
qed

lemma close_stepI: "life w = life v \<Longrightarrow> close_step v w' \<Longrightarrow> closed_count v = closed_count w" for w v w'
  by (simp add: life_def)

lemma close_step_start: "closed_count v = closed_count wsi \<Longrightarrow> close_step v w \<Longrightarrow> close_step wsi w"
  by (simp add: close_step_def)

lemma close_send_step:
  assumes "has_callback env" and "open_ws wsi" and "wsi_state wsi \<noteq> LWSS_SHUTDOWN"
  shows "close_step wsi (close_send env reason wsi)"
proof -
  define v where "v = (if close_in_ping_buffer_len wsi = 0
      then wsi\<lparr>close_in_ping_buffer_len := 2, ping_payload_buf := (ping_payload_buf wsi)
          [0 := ucast (drop_bit 16 reason AND 0xff), 1 := ucast (reason AND 0xff)]\<rparr> else wsi)"
  obtain n w where w: "lws_write env (Some (take (close_in_ping_buffer_len v) (ping_payload_buf v))) LWS_WRITE_CLOSE v = (n, w)"
    by (rule prod.exhaust)
  have "life v = life wsi" by (simp add: v_def life_def closed_count_def)
  moreover have "life (snd (lws_write env (Some (take (close_in_ping_buffer_len v) (ping_payload_buf v))) LWS_WRITE_CLOSE v)) = life v"
    by (rule life.write_data) (rule refl)
  ultimately have life: "life w = life wsi" using w by simp
  then have open_w: "open_ws w" "closed_count w = closed_count wsi" using open_ws_life assms(2) by blast+
  have "life (lws_set_timeout env PENDING_TIMEOUT_CLOSE_ACK 1 (w\<lparr>wsi_state := LWSS_AWAITING_CLOSE_ACK\<rparr>)) =
      (wsi_mode wsi, LWSS_AWAITING_CLOSE_ACK, state_pre_close wsi, closed_count wsi)"
    using life life.set_timeout [OF refl] by (simp add: life_updates) (simp add: life_def)
  then have ack: "close_step wsi (lws_set_timeout env PENDING_TIMEOUT_CLOSE_ACK 1 (w\<lparr>wsi_state := LWSS_AWAITING_CLOSE_ACK\<rparr>))"
    using assms(2) by (simp add: close_step_def open_ws_def life_def known_state_def)
  have kill: "close_step wsi (just_kill_connection env reason w)"
    using close_step_start [OF open_w(2) just_kill_step [OF assms(1) open_w(1)]] .
  show ?thesis
    unfolding close_send_def Let_def v_def [symmetric] w prod.case using ack kill by simp
qed

lemma close_politely_step:
  assumes "has_callback env" and "open_ws wsi" and "wsi_state wsi \<noteq> LWSS_SHUTDOWN"
  shows "close_step wsi (close_politely env reason wsi)"
proof -
  have mode: "wsi_mode wsi = LWSCM_WS_SERVING \<or> wsi_mode wsi = LWSCM_WS_CLIENT"
    using assms(2) by (auto simp: open_ws_def)
  obtain m t w where e: "lws_ext_cb_active env EXT_CB_CHECK_OK_TO_REALLY_CLOSE no_tokens wsi = (m, t, w)"
    by (rule prod_cases3)
  have lw: "life w = life wsi" using life.ext_active [OF e] by simp
  have w: "close_step wsi w" using open_ws_life [OF lw] assms(2) by (simp add: close_step_def)
  obtain f v where f: "close_flush_exts (Suc (ext_rounds env)) env w = f" "v = (case f of Inl w \<Rightarrow> w | Inr w \<Rightarrow> w)" by blast
  have lv: "life v = life wsi" using life_flush [of "Suc (ext_rounds env)" env w] f lw by simp
  have v: "open_ws v" "closed_count v = closed_count wsi" "wsi_state v = wsi_state wsi"
    using open_ws_life [OF lv] assms(2) lv by (simp_all add: life_def)
  have kill: "close_step wsi (just_kill_connection env reason v)"
    using close_step_start [OF v(2) just_kill_step [OF assms(1) v(1)]] .
  have send: "close_step wsi (close_send env reason v)"
    using close_step_start [OF v(2) close_send_step [OF assms(1) v(1)]] v(3) assms(3) by simp
  have "\<not> (wsi_mode wsi = LWSCM_WSCL_WAITING_CONNECT \<or> wsi_mode wsi = LWSCM_WSCL_ISSUE_HANDSHAKE)"
    "wsi_mode wsi \<noteq> LWSCM_HTTP_SERVING" "\<not> is_client_http_mode (wsi_mode wsi)"
    using mode by (auto simp: is_client_http_mode_def)
  then have "close_politely env reason wsi = close_finish env reason wsi"
    unfolding close_politely_def Let_def by (simp only: if_False)
  also have "\<dots> =
      (if 0 < m then w
       else case f of Inl u \<Rightarrow> just_kill_connection env reason u
         | Inr u \<Rightarrow> if state_pre_close u = LWSS_ESTABLISHED \<and> (close_in_ping_buffer_len u \<noteq> 0 \<or>
                  (reason \<noteq> LWS_CLOSE_STATUS_NOSTATUS \<and> reason \<noteq> LWS_CLOSE_STATUS_NOSTATUS_CONTEXT_DESTROY))
               then close_send env reason u else just_kill_connection env reason u)"
    unfolding close_finish_def by (simp only: e prod.case f(1))
  finally show ?thesis using w kill send f(2) by (cases f) simp_all
qed

text \<open>C11: the application hears of the end of a connection exactly once. However the close proceeds
  (flushing, close frame, waiting for the answer, shutdown, or a broken socket) and whatever the
  application and the extensions do meanwhile, a call of the close function either frees the
  connection, telling \<^verbatim>\<open>LWS_CALLBACK_CLOSED\<close> once and freeing last, or tells nothing and leaves a
  connection of which the same holds.\<close>

theorem close_tells_once:
  assumes "has_callback env" and "open_ws wsi"
  shows "let wsi' = lws_close_free_wsi env reason wsi in
    wsi_state wsi' = LWSS_DEAD_SOCKET \<and> closed_count wsi' = closed_count wsi + 1 \<and> last (ws_log wsi') = Ev_free \<or>
    open_ws wsi' \<and> closed_count wsi' = closed_count wsi"
proof -
  have mode: "wsi_mode wsi \<noteq> LWSCM_HTTP_SERVING_ACCEPTED" using assms(2) by (auto simp: open_ws_def)
  have "close_step wsi (lws_close_free_wsi env reason wsi)"
  proof (cases "socket_is_permanently_unusable wsi \<or> reason = LWS_CLOSE_STATUS_NOSTATUS_CONTEXT_DESTROY \<or>
            wsi_state wsi = LWSS_SHUTDOWN")
    case True
    then show ?thesis using mode just_kill_step [OF assms] by (simp add: lws_close_free_wsi_def Let_def)
  next
    case False
    define v where "v = wsi\<lparr>state_pre_close := wsi_state wsi\<rparr>"
    have known: "known_state (wsi_state wsi)" using False assms(2) by (simp add: open_ws_def)
    have v: "open_ws v" "closed_count v = closed_count wsi" "wsi_state v \<noteq> LWSS_SHUTDOWN"
      using assms(2) known False by (simp_all add: v_def open_ws_def closed_count_def)
    have kill: "close_step wsi (just_kill_connection env reason v)"
      using close_step_start [OF v(2) just_kill_step [OF assms(1) v(1)]] .
    have polite: "close_step wsi (close_politely env reason v)"
      using close_step_start [OF v(2) close_politely_step [OF assms(1) v(1,3)]] .
    have "life (snd (lws_callback_on_writable env v)) = life v" by (rule life.on_writable) (rule refl)
    from open_ws_life [OF this] have wait: "close_step wsi (snd (lws_callback_on_writable env v))"
      using v by (simp add: close_step_def)
    have "life (lws_set_timeout env PENDING_FLUSH_STORED_SEND_BEFORE_CLOSE 5
        (v\<lparr>wsi_state := LWSS_FLUSHING_STORED_SEND_BEFORE_CLOSE\<rparr>)) =
        (wsi_mode v, LWSS_FLUSHING_STORED_SEND_BEFORE_CLOSE, state_pre_close v, closed_count v)"
      using life.set_timeout [OF refl] by (simp add: life_updates)
    then have flush: "close_step wsi (lws_set_timeout env PENDING_FLUSH_STORED_SEND_BEFORE_CLOSE 5
        (v\<lparr>wsi_state := LWSS_FLUSHING_STORED_SEND_BEFORE_CLOSE\<rparr>))"
      using v by (simp add: close_step_def open_ws_def life_def known_state_def)
    have call: "lws_close_free_wsi env reason wsi =
        (case state_pre_close v of
           LWSS_DEAD_SOCKET \<Rightarrow> v
         | LWSS_AWAITING_CLOSE_ACK \<Rightarrow> just_kill_connection env reason v
         | LWSS_FLUSHING_STORED_SEND_BEFORE_CLOSE \<Rightarrow>
             if trunc_len v \<noteq> 0 then snd (lws_callback_on_writable env v)
             else just_kill_connection env reason v
         | _ \<Rightarrow>
             if trunc_len v \<noteq> 0 then lws_set_timeout env PENDING_FLUSH_STORED_SEND_BEFORE_CLOSE 5
                 (v\<lparr>wsi_state := LWSS_FLUSHING_STORED_SEND_BEFORE_CLOSE\<rparr>)
             else close_politely env reason v)"
      unfolding lws_close_free_wsi_def Let_def v_def
      by (simp only: mode simp_thms if_False if_not_P [OF False])
    have "state_pre_close v \<noteq> LWSS_DEAD_SOCKET" using known by (auto simp: v_def known_state_def)
    then show ?thesis
      unfolding call by (cases "state_pre_close v") (simp_all add: kill polite wait flush)
  qed
  then show ?thesis by (simp add: close_step_def Let_def)
qed

subsection \<open>A close gets done\<close>

text \<open>How many calls of the close function a connection is from being freed.\<close>

fun close_rank :: "conn_state \<Rightarrow> nat" where
  "close_rank LWSS_DEAD_SOCKET = 0"
| "close_rank LWSS_SHUTDOWN = 1"
| "close_rank LWSS_AWAITING_CLOSE_ACK = 2"
| "close_rank LWSS_FLUSHING_STORED_SEND_BEFORE_CLOSE = 2"
| "close_rank s = 3"

lemma just_kill_state:
  "wsi_state (just_kill_connection env reason wsi) =
     (if wsi_state wsi \<noteq> LWSS_SHUTDOWN \<and> wsi_state wsi \<noteq> LWSS_CLIENT_UNCONNECTED \<and>
         reason \<noteq> LWS_CLOSE_STATUS_NOSTATUS_CONTEXT_DESTROY \<and> \<not> socket_is_permanently_unusable wsi
      then LWSS_SHUTDOWN else LWSS_DEAD_SOCKET)"
proof (cases "wsi_state wsi \<noteq> LWSS_SHUTDOWN \<and> wsi_state wsi \<noteq> LWSS_CLIENT_UNCONNECTED \<and>
         reason \<noteq> LWS_CLOSE_STATUS_NOSTATUS_CONTEXT_DESTROY \<and> \<not> socket_is_permanently_unusable wsi")
  case True
  have "life (lws_set_timeout env t s (w\<lparr>wsi_state := LWSS_SHUTDOWN\<rparr>)) = life (w\<lparr>wsi_state := LWSS_SHUTDOWN\<rparr>)" for t s w
    by (rule life.set_timeout) (rule refl)
  then have "wsi_state (lws_set_timeout env t s (w\<lparr>wsi_state := LWSS_SHUTDOWN\<rparr>)) = LWSS_SHUTDOWN" for t s w
    by (simp add: life_def)
  then show ?thesis
    unfolding just_kill_connection_def Let_def by (simp only: if_P [OF True])
next
  case False
  have tell: "wsi_state (tell_protocol env r w) = wsi_state w" "wsi_state (tell_vhost r w) = wsi_state w" for r w
    using life_callback [of env r w] by (simp_all add: life_def tell_vhost_def log_event_def)
  have drop: "wsi_state (close_drop_lists w) = wsi_state w" for w by (simp add: close_drop_lists_def Let_def)
  have user: "wsi_state (close_tell_user env w) = wsi_state w" for w by (simp add: close_tell_user_def tell)
  have destroy: "wsi_state (snd (snd (lws_ext_cb_active env EXT_CB_DESTROY no_tokens w))) = wsi_state w" for w
  proof -
    obtain m t u where e: "lws_ext_cb_active env EXT_CB_DESTROY no_tokens w = (m, t, u)" by (rule prod_cases3)
    have "life u = life w" using life.ext_active [OF e] by simp
    then show ?thesis using e by (simp add: life_def)
  qed
  have final: "wsi_state (lws_close_free_wsi_final w) = wsi_state w" for w
    by (simp add: lws_close_free_wsi_final_def tell_vhost_def log_event_def Let_def)
  show ?thesis
    unfolding just_kill_connection_def Let_def if_not_P [OF False]
    by (simp add: case_prod_beta final destroy user drop)
qed

lemma flush_no_exts: "exts env = [] \<Longrightarrow> close_flush_exts (Suc k) env wsi = Inr wsi"
  by (simp add: lws_ext_cb_active_def no_tokens_def)

lemma close_send_state:
  "wsi_state (close_send env reason wsi) \<in> {LWSS_AWAITING_CLOSE_ACK, LWSS_SHUTDOWN, LWSS_DEAD_SOCKET}"
proof -
  have "wsi_state (lws_set_timeout env t s (w\<lparr>wsi_state := LWSS_AWAITING_CLOSE_ACK\<rparr>)) = LWSS_AWAITING_CLOSE_ACK" for t s w
    using life.set_timeout [of "w\<lparr>wsi_state := LWSS_AWAITING_CLOSE_ACK\<rparr>" "life (w\<lparr>wsi_state := LWSS_AWAITING_CLOSE_ACK\<rparr>)" env t s]
    by (simp add: life_def)
  then show ?thesis
    unfolding close_send_def Let_def by (simp add: case_prod_beta just_kill_state)
qed

lemma close_politely_state:
  assumes "exts env = []"
  shows "wsi_state (close_politely env reason wsi) \<in> {LWSS_AWAITING_CLOSE_ACK, LWSS_SHUTDOWN, LWSS_DEAD_SOCKET}"
proof -
  have "wsi_state (close_finish env reason w) \<in> {LWSS_AWAITING_CLOSE_ACK, LWSS_SHUTDOWN, LWSS_DEAD_SOCKET}" for w
    using close_send_state [of env reason w]
    by (simp add: close_finish_def lws_ext_cb_active_def assms flush_no_exts just_kill_state del: close_flush_exts.simps)
  then show ?thesis
    unfolding close_politely_def Let_def by (simp add: just_kill_state)
qed

text \<open>C13: a close terminates. Without extensions (which can veto) every call of the close function
  takes the connection a stage further, unless it only waits for stored data to be flushed: after at
  most three such calls it is freed.\<close>

theorem close_makes_progress:
  assumes "exts env = []" and "wsi_state wsi \<noteq> LWSS_DEAD_SOCKET"
    and "wsi_state wsi = LWSS_FLUSHING_STORED_SEND_BEFORE_CLOSE \<Longrightarrow> trunc_len wsi = 0"
  shows "close_rank (wsi_state (lws_close_free_wsi env reason wsi)) < close_rank (wsi_state wsi)"
proof -
  define v where "v = (if wsi_mode wsi = LWSCM_HTTP_SERVING_ACCEPTED \<and> http_fd_open wsi
                 then (tell_vhost CB_CLOSED_HTTP (wsi\<lparr>http_fd_open := False\<rparr>))\<lparr>told_user_closed := True\<rparr>
                 else wsi)"
  have v: "wsi_state v = wsi_state wsi" "trunc_len v = trunc_len wsi"
    by (simp_all add: v_def tell_vhost_def log_event_def)
  have rank: "close_rank s \<in> {0, 1, 2, 3}" for s by (cases s) simp_all
  show ?thesis
  proof (cases "socket_is_permanently_unusable v \<or> reason = LWS_CLOSE_STATUS_NOSTATUS_CONTEXT_DESTROY \<or>
            wsi_state v = LWSS_SHUTDOWN")
    case True
    have "wsi_state (lws_close_free_wsi env reason wsi) = LWSS_DEAD_SOCKET"
      unfolding lws_close_free_wsi_def Let_def v_def [symmetric] if_P [OF True] just_kill_state
      using True by auto
    then show ?thesis using assms(2) by (cases "wsi_state wsi") simp_all
  next
    case False
    define u where "u = v\<lparr>state_pre_close := wsi_state v\<rparr>"
    have u: "wsi_state u = wsi_state wsi" "state_pre_close u = wsi_state wsi" "trunc_len u = trunc_len wsi"
      using v by (simp_all add: u_def)
    have flush: "wsi_state (lws_set_timeout env t s (w\<lparr>wsi_state := LWSS_FLUSHING_STORED_SEND_BEFORE_CLOSE\<rparr>))
        = LWSS_FLUSHING_STORED_SEND_BEFORE_CLOSE" for t s w
      using life.set_timeout [of "w\<lparr>wsi_state := LWSS_FLUSHING_STORED_SEND_BEFORE_CLOSE\<rparr>"
          "life (w\<lparr>wsi_state := LWSS_FLUSHING_STORED_SEND_BEFORE_CLOSE\<rparr>)" env t s]
      by (simp add: life_def)
    have "close_rank (wsi_state (close_politely env reason u)) < 3"
      using close_politely_state [OF assms(1), of reason u] by auto
    moreover have "wsi_state (just_kill_connection env reason u) \<in> {LWSS_SHUTDOWN, LWSS_DEAD_SOCKET}"
      by (simp add: just_kill_state)
    then have "close_rank (wsi_state (just_kill_connection env reason u)) < 2" by auto
    ultimately show ?thesis
      unfolding lws_close_free_wsi_def Let_def v_def [symmetric] if_not_P [OF False] u_def [symmetric]
      using assms(2,3) False v(1) by (cases "wsi_state wsi") (simp_all add: u flush)
  qed
qed

text \<open>A connection that misses its deadline is freed at once, with no close frame and no
  shutdown: whatever state it is in, the check reports it and the connection is gone.\<close>

lemma timeout_frees:
  assumes "exts env = []" and "pending_timeout wsi \<noteq> NO_PENDING_TIMEOUT" and "pending_timeout_limit wsi < sec"
  shows "fst (lws_service_timeout_check env sec wsi) = 1 \<and>
    wsi_state (snd (lws_service_timeout_check env sec wsi)) = LWSS_DEAD_SOCKET \<and>
    last (ws_log (snd (lws_service_timeout_check env sec wsi))) = Ev_free"
proof -
  have kill: "last (ws_log (just_kill_connection env reason w)) = Ev_free"
    if "socket_is_permanently_unusable w" for reason w
    using that by (simp add: just_kill_connection_def Let_def case_prod_beta free_last)
  define w where "w = wsi\<lparr>socket_is_permanently_unusable := True\<rparr>"
  define v where "v = (if wsi_mode w = LWSCM_HTTP_SERVING_ACCEPTED \<and> http_fd_open w
                 then (tell_vhost CB_CLOSED_HTTP (w\<lparr>http_fd_open := False\<rparr>))\<lparr>told_user_closed := True\<rparr>
                 else w)"
  have v: "socket_is_permanently_unusable v" by (simp add: v_def w_def tell_vhost_def log_event_def)
  have "lws_service_timeout_check env sec wsi = (1, lws_close_free_wsi env LWS_CLOSE_STATUS_NOSTATUS w)"
    using assms by (simp add: lws_service_timeout_check_def lws_ext_cb_active_def w_def)
  moreover have "lws_close_free_wsi env LWS_CLOSE_STATUS_NOSTATUS w =
      just_kill_connection env LWS_CLOSE_STATUS_NOSTATUS v"
    using v unfolding lws_close_free_wsi_def Let_def v_def [symmetric] by simp
  ultimately show ?thesis using v kill by (simp add: just_kill_state)
qed

lemma close_send_cases:
  assumes "send_idle wsi" and "wsi_state wsi = LWSS_ESTABLISHED"
  obtains v n w where "out_stream v = out_stream wsi" "send_idle v" "wsi_state v = LWSS_ESTABLISHED"
    and "lws_write env (Some (take (close_in_ping_buffer_len v) (ping_payload_buf v))) LWS_WRITE_CLOSE v = (n, w)"
    and "close_send env reason wsi =
      (if 0 \<le> n then lws_set_timeout env PENDING_TIMEOUT_CLOSE_ACK 1 (w\<lparr>wsi_state := LWSS_AWAITING_CLOSE_ACK\<rparr>)
       else just_kill_connection env reason w)"
proof -
  define v where "v = (if close_in_ping_buffer_len wsi = 0
      then wsi\<lparr>close_in_ping_buffer_len := 2, ping_payload_buf := (ping_payload_buf wsi)
          [0 := ucast (drop_bit 16 reason AND 0xff), 1 := ucast (reason AND 0xff)]\<rparr> else wsi)"
  obtain n w where w: "lws_write env (Some (take (close_in_ping_buffer_len v) (ping_payload_buf v))) LWS_WRITE_CLOSE v = (n, w)"
    by (rule prod.exhaust)
  have "out_stream v = out_stream wsi" "send_idle v" "wsi_state v = LWSS_ESTABLISHED"
    using assms by (simp_all add: v_def out_stream_def trunc_pending_def send_idle_def trunc_wf_def)
  moreover have "close_send env reason wsi =
      (if 0 \<le> n then lws_set_timeout env PENDING_TIMEOUT_CLOSE_ACK 1 (w\<lparr>wsi_state := LWSS_AWAITING_CLOSE_ACK\<rparr>)
       else just_kill_connection env reason w)"
    unfolding close_send_def Let_def v_def [symmetric] w prod.case by (rule refl)
  ultimately show thesis using that w by blast
qed

text \<open>C12: after the close frame nothing more is sent. When a server starts the close of an idle
  connection and waits for the answer, the close frame is the last thing in the outgoing stream, and
  any WebSocket write the application still makes sends nothing and reports no error.\<close>

theorem nothing_after_close:
  assumes "exts env = []" and "sock_ok env" and "send_idle wsi" and "wsi_state wsi = LWSS_ESTABLISHED"
    and "wsi' = lws_close_free_wsi env reason wsi" and "wsi_state wsi' = LWSS_AWAITING_CLOSE_ACK"
    and "wp \<noteq> LWS_WRITE_CLOSE" and "wp \<noteq> LWS_WRITE_HTTP" and "wp \<noteq> LWS_WRITE_HTTP_FINAL"
    and "wp \<noteq> LWS_WRITE_HTTP_HEADERS"
  shows "(\<exists>payload. out_stream wsi' = out_stream wsi @ tx_frame LWSCM_WS_SERVING 8 LWS_WRITE_CLOSE [] payload) \<and>
    fst (lws_write env buf wp wsi') = 0 \<and> out_stream (snd (lws_write env buf wp wsi')) = out_stream wsi'"
proof -
  define u where "u = wsi\<lparr>state_pre_close := LWSS_ESTABLISHED\<rparr>"
  have mode: "wsi_mode wsi = LWSCM_WS_SERVING" "trunc_len wsi = 0" using assms(3) by (simp_all add: send_idle_def)
  have u: "out_stream u = out_stream wsi" "send_idle u" "wsi_state u = LWSS_ESTABLISHED" "wsi_mode u = LWSCM_WS_SERVING"
    using assms(3,4) by (simp_all add: u_def out_stream_def trunc_pending_def send_idle_def trunc_wf_def)
  have nokill: "just_kill_connection env reason w \<noteq> wsi'" for w
    using assms(6) just_kill_state [of env reason w] by (auto split: if_splits)
  have "\<not> (socket_is_permanently_unusable wsi \<or> reason = LWS_CLOSE_STATUS_NOSTATUS_CONTEXT_DESTROY \<or>
            wsi_state wsi = LWSS_SHUTDOWN)"
    using nokill [of wsi] assms(5) mode by (auto simp: lws_close_free_wsi_def)
  then have "wsi' = close_politely env reason u"
    using assms(4,5) mode by (simp add: lws_close_free_wsi_def u_def)
  also have "\<dots> = close_finish env reason u"
    using u(4) by (simp add: close_politely_def is_client_http_mode_def)
  finally have "wsi' = close_send env reason u"
    using nokill [of u] assms(1)
    by (simp add: close_finish_def lws_ext_cb_active_def flush_no_exts del: close_flush_exts.simps split: if_splits)
  then obtain v n w where v: "out_stream v = out_stream u" "send_idle v" "wsi_state v = LWSS_ESTABLISHED"
    and w: "lws_write env (Some (take (close_in_ping_buffer_len v) (ping_payload_buf v))) LWS_WRITE_CLOSE v = (n, w)"
    and wsi': "wsi' = (if 0 \<le> n then lws_set_timeout env PENDING_TIMEOUT_CLOSE_ACK 1 (w\<lparr>wsi_state := LWSS_AWAITING_CLOSE_ACK\<rparr>)
             else just_kill_connection env reason w)"
    using close_send_cases [OF u(2,3), of env reason] by metis
  have n: "0 \<le> n" using wsi' nokill [of w] by (metis (full_types))
  have "out_stream w = out_stream v @ tx_frame LWSCM_WS_SERVING 8 LWS_WRITE_CLOSE []
      (take (close_in_ping_buffer_len v) (ping_payload_buf v))"
    using lws_write_control [OF assms(1,2) _ _ _ _ _ _ _ w n] v by (simp add: send_idle_def)
  moreover have "out_stream wsi' = out_stream w"
    using wsi' n by (simp add: lws_set_timeout_def out_stream_def trunc_pending_def Let_def lws_remove_from_timeout_list_def)
  moreover have "lws_write env buf wp wsi' = (0, wsi')"
    using assms(6-10) by (simp add: lws_write_def lws_restart_ws_ping_pong_timer_def Let_def)
  ultimately show ?thesis using u(1) v(1) by auto
qed

subsection \<open>A freed connection is on no list\<close>

text \<open>
  The thread's lists of connections: this one is at most once on each, and on the draining lists
  when its flags say so. What the application does when it is told of the end is its own; here it
  does nothing with the connection.
\<close>

definition lists_ok :: "ws \<Rightarrow> bool" where
  "lists_ok wsi \<longleftrightarrow> distinct (timeout_list wsi) \<and> distinct (rx_draining_ext_list wsi) \<and>
     distinct (tx_draining_ext_list wsi) \<and>
     (wsi_id wsi \<in> set (rx_draining_ext_list wsi) \<longrightarrow> rx_draining_ext wsi) \<and>
     (wsi_id wsi \<in> set (tx_draining_ext_list wsi) \<longrightarrow> tx_draining_ext wsi)"

definition on_no_list :: "ws \<Rightarrow> bool" where
  "on_no_list wsi \<longleftrightarrow> wsi_id wsi \<notin> set (timeout_list wsi) \<and> wsi_id wsi \<notin> set (rx_draining_ext_list wsi) \<and>
     wsi_id wsi \<notin> set (tx_draining_ext_list wsi) \<and> \<not> in_fds_table wsi"

definition unlinked :: "ws \<Rightarrow> bool" where
  "unlinked wsi \<longleftrightarrow> on_no_list wsi \<and> rxflow_buffer wsi = None \<and> rx_ubuf wsi = [] \<and> trunc_alloc wsi = []"

text \<open>C14: nothing of the library points to a connection it has freed. When a WebSocket connection is
  freed it is on none of the thread's lists and not in the poll table, and its buffers are released.\<close>

theorem freed_is_unlinked:
  assumes "exts env = []" and "wsi_mode wsi \<in> {LWSCM_WS_SERVING, LWSCM_WS_CLIENT}" and "lists_ok wsi"
    and "sock_valid wsi" and "\<And>w r. vhost_cb env w r = 0"
    and "\<And>w r d. snd (user_cb env w r d) = []"
    and "socket_is_permanently_unusable wsi \<or> wsi_state wsi = LWSS_SHUTDOWN"
  shows "unlinked (lws_close_free_wsi env reason wsi)"
proof -
  have kill: "lws_close_free_wsi env reason wsi = just_kill_connection env reason wsi"
    using assms(2,7) by (auto simp: lws_close_free_wsi_def)
  have tell: "unlinked (tell_protocol env r w) = unlinked w" "unlinked (tell_vhost r w) = unlinked w" for r w
    using assms(6) [of w r "[]"]
    by (simp_all add: tell_protocol_def protocol_callback_def tell_vhost_def log_event_def unlinked_def on_no_list_def
        case_prod_beta)
  have user: "unlinked (close_tell_user env w) = unlinked w" for w by (simp add: close_tell_user_def tell)
  have final: "unlinked (lws_close_free_wsi_final w)" if "unlinked w" for w
    using that by (simp add: lws_close_free_wsi_final_def tell_vhost_def log_event_def unlinked_def on_no_list_def)
  define a where "a = remove_from_fds env (lws_remove_from_timeout_list wsi)"
  have a: "wsi_id a \<notin> set (timeout_list a)" "\<not> in_fds_table a" "lists_ok a" "wsi_mode a = wsi_mode wsi"
    using assms(3,5) by (auto simp: a_def remove_from_fds_def lws_remove_from_timeout_list_def log_event_def lists_ok_def)
  define b where "b = close_drop_lists (a\<lparr>wsi_state := LWSS_DEAD_SOCKET, rxflow_buffer := None\<rparr>)"
  have b: "unlinked b"
    using a(1-3) by (auto simp: b_def close_drop_lists_def Let_def unlinked_def on_no_list_def lists_ok_def)
  have "just_kill_connection env reason wsi =
      lws_close_free_wsi_final ((close_tell_user env b)\<lparr>socket_is_permanently_unusable := True\<rparr>)"
    using assms(1,2,4,7) a(4)
    by (auto simp: just_kill_connection_def Let_def lws_ext_cb_active_def a_def b_def lws_remove_from_timeout_list_def)
  moreover have "unlinked ((close_tell_user env b)\<lparr>socket_is_permanently_unusable := True\<rparr>)"
    using b user [of b] by (simp add: unlinked_def on_no_list_def)
  ultimately show ?thesis unfolding kill using final by simp
qed

subsection \<open>Witnesses\<close>

lemma plain_open: "open_ws (plain_conn LWSCM_WS_SERVING)" "has_callback (plain_env n)"
  by (simp_all add: open_ws_def known_state_def plain_env_def plain_conn_def lws_union_transition_def
      lws_create_new_server_wsi_def)

theorem close_tells_once_witness:
  "closed_count (lws_close_free_wsi (plain_env 100) 0 (plain_conn LWSCM_WS_SERVING)) = 0 \<and>
   open_ws (lws_close_free_wsi (plain_env 100) 0 (plain_conn LWSCM_WS_SERVING))"
proof -
  have "wsi_state (lws_close_free_wsi (plain_env 100) 0 (plain_conn LWSCM_WS_SERVING)) = LWSS_SHUTDOWN"
    "closed_count (plain_conn LWSCM_WS_SERVING) = 0" by code_simp+
  then show ?thesis using close_tells_once [OF plain_open(2,1), of 100 0] by (simp add: Let_def)
qed

theorem close_makes_progress_witness:
  "close_rank (wsi_state (lws_close_free_wsi (plain_env 100) 0 (plain_conn LWSCM_WS_SERVING))) < 3"
  using close_makes_progress [OF plain_no_exts, of "plain_conn LWSCM_WS_SERVING" 100 0] plain_ready(3)
  by simp

theorem nothing_after_close_witness:
  "out_stream (snd (lws_write (plain_env 100) (Some [1]) LWS_WRITE_TEXT
     (lws_close_free_wsi (plain_env 100) 1001 (plain_conn LWSCM_WS_SERVING)))) =
   out_stream (lws_close_free_wsi (plain_env 100) 1001 (plain_conn LWSCM_WS_SERVING))"
proof -
  have "wsi_state (lws_close_free_wsi (plain_env 100) 1001 (plain_conn LWSCM_WS_SERVING)) = LWSS_AWAITING_CLOSE_ACK"
    by code_simp
  then show ?thesis
    using nothing_after_close [OF plain_no_exts plain_sock_ok plain_send_idle(1) plain_ready(3) refl, of 100 1001
        LWS_WRITE_TEXT "Some [1]"] by (simp add: write_types)
qed

theorem freed_is_unlinked_witness:
  "unlinked (lws_close_free_wsi (plain_env 100) 0
     ((plain_conn LWSCM_WS_SERVING)\<lparr>wsi_state := LWSS_SHUTDOWN, timeout_list := [2, 1, 3]\<rparr>))"
  by (rule freed_is_unlinked)
    (simp_all add: plain_env_def plain_conn_def lws_union_transition_def lws_create_new_server_wsi_def lists_ok_def)

end
