(* ===== verification/Poll_Table.thy ===== *)
theory Poll_Table
  imports Ws_Conn
begin

text \<open>
  The poll table of a service thread, \<^verbatim>\<open>pollfd.c\<close>: the array \<^verbatim>\<open>pt->fds\<close> given to \<^verbatim>\<open>poll\<close>, the
  context's map \<^verbatim>\<open>lws_lookup\<close> from descriptors to connections and each connection's
  \<^verbatim>\<open>position_in_fds_table\<close>. Removal fills the hole with the last entry, so three structures have to
  stay in step. Slot 0 is the read end of the thread's own pipe. Connections are named by numbers;
  the position \<open>None\<close> is -1. The listening connection stops accepting when one slot is left.
\<close>

subsection \<open>The table\<close>

record pollfd =
  pfd_fd :: nat
  pfd_in :: bool
  pfd_out :: bool
  pfd_revents :: nat

record poll_table =
  fds :: "pollfd list"
  fds_count :: nat
  count_conns :: nat
  lws_lookup :: "nat option list"
  wsi_sock :: "nat \<Rightarrow> nat"
  position_in_fds_table :: "nat \<Rightarrow> nat option"
  same_vh_protocol :: "nat list"
  wsi_listening :: "nat option"
  poll_calls :: "(nat \<times> cb_reason) list"

datatype poll_event = Poll_add | Poll_del

text \<open>The context as far as the table needs it, and the vhost's first protocol.\<close>

record poll_ctx =
  fd_limit_per_thread :: nat
  max_fds :: nat
  being_destroyed :: bool
  poll_cb :: "poll_table \<Rightarrow> nat \<Rightarrow> cb_reason \<Rightarrow> int"
  add_del_cb :: "poll_table \<Rightarrow> nat \<Rightarrow> poll_event \<Rightarrow> int"

definition call :: "nat \<Rightarrow> cb_reason \<Rightarrow> poll_table \<Rightarrow> poll_table" where
  "call w r t = t\<lparr>poll_calls := poll_calls t @ [(w, r)]\<rparr>"

text \<open>
  \<^verbatim>\<open>_lws_change_pollfd\<close> on the table, \<open>(in, out)\<close> bits to clear and to set. Its result is not used
  here; waking the service thread does not touch the table.
\<close>

definition table_change_pollfd :: "poll_ctx \<Rightarrow> nat option \<Rightarrow> bool \<times> bool \<Rightarrow> bool \<times> bool \<Rightarrow> poll_table \<Rightarrow> poll_table" where
  "table_change_pollfd ctx wsi clr st t =
     (case wsi of
        None \<Rightarrow> t
      | Some w \<Rightarrow>
          (case position_in_fds_table t w of
             None \<Rightarrow> t
           | Some i \<Rightarrow>
               let p = fds t ! i;
                   p = p\<lparr>pfd_in := (pfd_in p \<and> \<not> fst clr) \<or> fst st, pfd_out := (pfd_out p \<and> \<not> snd clr) \<or> snd st\<rparr>
               in call w CB_CHANGE_MODE_POLL_FD (t\<lparr>fds := (fds t)[i := p]\<rparr>)))"

definition insert_wsi_socket_into_fds :: "poll_ctx \<Rightarrow> nat \<Rightarrow> poll_table \<Rightarrow> int \<times> poll_table" where
  "insert_wsi_socket_into_fds ctx w t =
     (if fd_limit_per_thread ctx \<le> fds_count t then (1, t)
      else if max_fds ctx \<le> wsi_sock t w then (1, t)
      else if poll_cb ctx t w CB_LOCK_POLL \<noteq> 0 then (-1, call w CB_LOCK_POLL t)
      else
        let t = call w CB_LOCK_POLL t;
            t = t\<lparr>count_conns := count_conns t + 1,
                  lws_lookup := (lws_lookup t)[wsi_sock t w := Some w],
                  position_in_fds_table := (position_in_fds_table t)(w \<mapsto> fds_count t),
                  fds := (fds t)[fds_count t := \<lparr>pfd_fd = wsi_sock t w, pfd_in = True, pfd_out = False,
                                                 pfd_revents = 0\<rparr>],
                  fds_count := fds_count t + 1\<rparr>;
            ret = (if add_del_cb ctx t w Poll_add \<noteq> 0 then -1 else 0);
            t = (if fds_count t = fd_limit_per_thread ctx - 1
                 then table_change_pollfd ctx (wsi_listening t) (True, False) (False, False) t else t);
            ret = (if poll_cb ctx t w CB_UNLOCK_POLL \<noteq> 0 then -1 else ret)
        in (ret, call w CB_UNLOCK_POLL t))"

definition remove_wsi_socket_from_fds :: "poll_ctx \<Rightarrow> nat \<Rightarrow> poll_table \<Rightarrow> int \<times> poll_table" where
  "remove_wsi_socket_from_fds ctx w t =
     (if max_fds ctx < wsi_sock t w then (1, t)
      else if poll_cb ctx t w CB_LOCK_POLL \<noteq> 0 then (-1, call w CB_LOCK_POLL t)
      else
        let t = call w CB_LOCK_POLL t;
            t = t\<lparr>same_vh_protocol := remove1 w (same_vh_protocol t)\<rparr>;
            m = the (position_in_fds_table t w);
            t = t\<lparr>fds := (fds t)[m := fds t ! (fds_count t - 1)], fds_count := fds_count t - 1\<rparr>;
            end_wsi = lws_lookup t ! pfd_fd (fds t ! m);
            t = (case end_wsi of None \<Rightarrow> t
                 | Some e \<Rightarrow> t\<lparr>position_in_fds_table := (position_in_fds_table t)(e \<mapsto> m)\<rparr>);
            t = t\<lparr>lws_lookup := (lws_lookup t)[wsi_sock t w := None],
                  position_in_fds_table := (position_in_fds_table t)(w := None)\<rparr>;
            ret = (if add_del_cb ctx t w Poll_del \<noteq> 0 then -1 else 0);
            t = (if \<not> being_destroyed ctx \<and> fds_count t < fd_limit_per_thread ctx - 1
                 then table_change_pollfd ctx (wsi_listening t) (False, False) (True, False) t else t);
            ret = (if poll_cb ctx t w CB_UNLOCK_POLL \<noteq> 0 then -1 else ret)
        in (ret, call w CB_UNLOCK_POLL t))"

text \<open>\<^verbatim>\<open>lws_get_idlest_tsi\<close>: the service thread for a new connection, from the threads' counts.\<close>

fun idlest_loop :: "nat \<Rightarrow> nat \<Rightarrow> nat \<Rightarrow> int \<Rightarrow> nat list \<Rightarrow> int" where
  "idlest_loop lim n lowest hit [] = hit"
| "idlest_loop lim n lowest hit (c # cs) =
     (if c \<noteq> lim - 1 \<and> c < lowest then idlest_loop lim (n + 1) c (int n) cs
      else idlest_loop lim (n + 1) lowest hit cs)"

definition lws_get_idlest_tsi :: "nat \<Rightarrow> nat list \<Rightarrow> int" where
  "lws_get_idlest_tsi lim counts = idlest_loop lim 0 (2 ^ 32 - 1) (-1) counts"

subsection \<open>The three structures in step\<close>

text \<open>
  A connection is at the slot it knows, with its own descriptor, and the lookup leads back from
  the descriptor; every slot behind the pipe's belongs to a connection.
\<close>

definition placed :: "poll_table \<Rightarrow> nat \<Rightarrow> nat \<Rightarrow> bool" where
  "placed t w i \<longleftrightarrow> 0 < i \<and> i < fds_count t \<and> pfd_fd (fds t ! i) = wsi_sock t w \<and>
     wsi_sock t w < length (lws_lookup t) \<and> lws_lookup t ! wsi_sock t w = Some w"

definition table_ok :: "poll_ctx \<Rightarrow> poll_table \<Rightarrow> bool" where
  "table_ok ctx t \<longleftrightarrow> length (fds t) = fd_limit_per_thread ctx \<and> length (lws_lookup t) = max_fds ctx \<and>
     0 < fds_count t \<and> fds_count t \<le> fd_limit_per_thread ctx \<and>
     (\<forall>w i. position_in_fds_table t w = Some i \<longrightarrow> placed t w i) \<and>
     (\<forall>i. 0 < i \<and> i < fds_count t \<longrightarrow> (\<exists>w. position_in_fds_table t w = Some i)) \<and>
     (\<forall>s < max_fds ctx. \<forall>w. lws_lookup t ! s = Some w \<longrightarrow> wsi_sock t w = s \<and> position_in_fds_table t w \<noteq> None)"

text \<open>What the table promises its users: the poll entry of each connection.\<close>

definition watched :: "poll_table \<Rightarrow> nat \<Rightarrow> pollfd option" where
  "watched t w = map_option (\<lambda>i. fds t ! i) (position_in_fds_table t w)"

text \<open>A change of the listening connection's interest in input, on the abstract table.\<close>

definition accept_if :: "bool \<Rightarrow> bool \<Rightarrow> nat option \<Rightarrow> (nat \<Rightarrow> pollfd option) \<Rightarrow> nat \<Rightarrow> pollfd option" where
  "accept_if change on l m =
     (case l of None \<Rightarrow> m
      | Some w \<Rightarrow> if change then m(w := map_option (\<lambda>p. p\<lparr>pfd_in := on\<rparr>) (m w)) else m)"

lemma table_okD:
  assumes "table_ok ctx t"
  shows "length (fds t) = fd_limit_per_thread ctx" "length (lws_lookup t) = max_fds ctx"
    "0 < fds_count t" "fds_count t \<le> fd_limit_per_thread ctx"
    "position_in_fds_table t w = Some i \<Longrightarrow> placed t w i"
    "0 < i \<Longrightarrow> i < fds_count t \<Longrightarrow> \<exists>w. position_in_fds_table t w = Some i"
    "s < max_fds ctx \<Longrightarrow> lws_lookup t ! s = Some w \<Longrightarrow> wsi_sock t w = s \<and> position_in_fds_table t w \<noteq> None"
  using assms unfolding table_ok_def by blast+

lemma position_inject:
  assumes "table_ok ctx t" and "position_in_fds_table t w = Some i" and "position_in_fds_table t w' = Some i"
  shows "w = w'"
  using table_okD(5) [OF assms(1,2)] table_okD(5) [OF assms(1,3)] by (simp add: placed_def)

lemma call_simps [simp]:
  "fds (call w r t) = fds t" "fds_count (call w r t) = fds_count t" "lws_lookup (call w r t) = lws_lookup t"
  "wsi_sock (call w r t) = wsi_sock t" "position_in_fds_table (call w r t) = position_in_fds_table t"
  "wsi_listening (call w r t) = wsi_listening t" "same_vh_protocol (call w r t) = same_vh_protocol t"
  by (simp_all add: call_def)

lemma table_ok_call [simp]: "table_ok ctx (call w r t) = table_ok ctx t"
  by (simp add: table_ok_def placed_def)

lemma watched_call [simp]: "watched (call w r t) = watched t"
  by (simp add: watched_def fun_eq_iff)

lemma change_pollfd_fields [simp]:
  "fds_count (table_change_pollfd ctx l c s t) = fds_count t"
  "length (fds (table_change_pollfd ctx l c s t)) = length (fds t)"
  "lws_lookup (table_change_pollfd ctx l c s t) = lws_lookup t"
  "wsi_sock (table_change_pollfd ctx l c s t) = wsi_sock t"
  "position_in_fds_table (table_change_pollfd ctx l c s t) = position_in_fds_table t"
  "wsi_listening (table_change_pollfd ctx l c s t) = wsi_listening t"
  by (auto simp: table_change_pollfd_def Let_def split: option.split)

lemma change_pollfd_fd [simp]: "pfd_fd (fds (table_change_pollfd ctx l c s t) ! i) = pfd_fd (fds t ! i)"
proof -
  have "pfd_fd ((fds t)[k := p] ! i) = pfd_fd (fds t ! i)" if "pfd_fd p = pfd_fd (fds t ! k)" for k p
    using that by (cases "i = k"; cases "k < length (fds t)") (simp_all add: list_update_beyond)
  then show ?thesis
    by (simp add: table_change_pollfd_def Let_def split: option.split)
qed

lemma table_ok_change: "table_ok ctx (table_change_pollfd ctx l c s t) = table_ok ctx t"
  by (simp add: table_ok_def placed_def)

lemma watched_change:
  assumes "table_ok ctx t"
  shows "watched (table_change_pollfd ctx l (\<not> on, False) (on, False) t) = accept_if True on l (watched t)"
proof (cases l)
  case None
  then show ?thesis by (simp add: table_change_pollfd_def accept_if_def)
next
  case (Some w)
  show ?thesis
  proof (cases "position_in_fds_table t w")
    case None
    then show ?thesis using Some
      by (simp add: table_change_pollfd_def accept_if_def watched_def fun_eq_iff)
  next
    case (Some i)
    have i: "i < length (fds t)"
      using table_okD(5) [OF assms Some] table_okD(1,4) [OF assms] by (simp add: placed_def)
    have "(fds t ! i)\<lparr>pfd_in := on, pfd_out := pfd_out (fds t ! i)\<rparr> = (fds t ! i)\<lparr>pfd_in := on\<rparr>"
      by (cases "fds t ! i") simp
    then have eq: "table_change_pollfd ctx l (\<not> on, False) (on, False) t =
        call w CB_CHANGE_MODE_POLL_FD (t\<lparr>fds := (fds t)[i := (fds t ! i)\<lparr>pfd_in := on\<rparr>]\<rparr>)"
      using Some \<open>l = Some w\<close> by (cases on) (simp_all add: table_change_pollfd_def Let_def)
    have other: "position_in_fds_table t v = Some k \<Longrightarrow> v \<noteq> w \<Longrightarrow> k \<noteq> i" for v k
      using position_inject [OF assms Some, of v] by auto
    show ?thesis
    proof
      fix v
      show "watched (table_change_pollfd ctx l (\<not> on, False) (on, False) t) v = accept_if True on l (watched t) v"
        unfolding eq unfolding \<open>l = Some w\<close> using Some other [of v] i
        by (cases "v = w"; cases "position_in_fds_table t v") (simp_all add: accept_if_def watched_def)
    qed
  qed
qed

subsection \<open>Insertion and removal implement the map\<close>

text \<open>Inserting a connection, when the callbacks and the limits let it, puts it under watch for
  input, leaves every other connection's entry alone (but for the listening connection, which stops
  accepting when one slot is left), and keeps the three structures in step.\<close>

lemma insert_implements_map:
  assumes "table_ok ctx t" and "position_in_fds_table t w = None"
    and "lws_lookup t ! wsi_sock t w = None"
    and "insert_wsi_socket_into_fds ctx w t = (0, t')"
  shows "table_ok ctx t' \<and> watched t' =
    accept_if (fds_count t' = fd_limit_per_thread ctx - 1) False (wsi_listening t)
      ((watched t)(w \<mapsto> \<lparr>pfd_fd = wsi_sock t w, pfd_in = True, pfd_out = False, pfd_revents = 0\<rparr>))"
proof -
  define u where "u = (call w CB_LOCK_POLL t)\<lparr>count_conns := count_conns t + 1,
      lws_lookup := (lws_lookup t)[wsi_sock t w := Some w],
      position_in_fds_table := (position_in_fds_table t)(w \<mapsto> fds_count t),
      fds := (fds t)[fds_count t := \<lparr>pfd_fd = wsi_sock t w, pfd_in = True, pfd_out = False, pfd_revents = 0\<rparr>],
      fds_count := fds_count t + 1\<rparr>"
  have room: "fds_count t < fd_limit_per_thread ctx" "wsi_sock t w < max_fds ctx"
    using assms(4) by (auto simp: insert_wsi_socket_into_fds_def split: if_splits)
  have t': "t' = call w CB_UNLOCK_POLL (if fds_count u = fd_limit_per_thread ctx - 1
      then table_change_pollfd ctx (wsi_listening u) (True, False) (False, False) u else u)"
    using assms(4) room
    by (auto simp: insert_wsi_socket_into_fds_def Let_def u_def call_def split: if_splits)
  note ok = table_okD [OF assms(1)]
  have other: "wsi_sock t v \<noteq> wsi_sock t w" if "position_in_fds_table t v = Some i" for v i
    using ok(5) [OF that] assms(3) by (auto simp: placed_def)
  have u: "table_ok ctx u"
    unfolding table_ok_def
  proof (intro conjI allI impI)
    fix v i assume "position_in_fds_table u v = Some i"
    then consider "v = w" "i = fds_count t" | "v \<noteq> w" "position_in_fds_table t v = Some i"
      by (auto simp: u_def split: if_splits)
    then show "placed u v i"
    proof cases
      case 1
      then show ?thesis using room ok(1-3) by (simp add: placed_def u_def)
    next
      case 2
      then show ?thesis using ok(5) [OF 2(2)] other [OF 2(2)] by (simp add: placed_def u_def)
    qed
  next
    fix i assume "0 < i \<and> i < fds_count u"
    then have i: "0 < i" "i < Suc (fds_count t)" by (simp_all add: u_def)
    show "\<exists>v. position_in_fds_table u v = Some i"
    proof (cases "i = fds_count t")
      case False
      then have "i < fds_count t" using i(2) by simp
      then obtain v where "position_in_fds_table t v = Some i" using ok(6) i(1) by blast
      then show ?thesis using assms(2) by (intro exI [of _ v]) (auto simp: u_def)
    qed (auto simp: u_def)
  next
    fix s v assume s: "s < max_fds ctx" "lws_lookup u ! s = Some v"
    then have "v = w \<and> s = wsi_sock t w \<or> lws_lookup t ! s = Some v"
      using ok(2) by (cases "s = wsi_sock t w") (simp_all add: u_def)
    then show "wsi_sock u v = s" "position_in_fds_table u v \<noteq> None"
      using ok(7) [OF s(1), of v] by (auto simp: u_def)
  qed (use ok(1-4) room in \<open>simp_all add: u_def\<close>)
  have "watched u = (watched t)(w \<mapsto> \<lparr>pfd_fd = wsi_sock t w, pfd_in = True, pfd_out = False, pfd_revents = 0\<rparr>)"
  proof
    fix v
    show "watched u v = ((watched t)(w \<mapsto> \<lparr>pfd_fd = wsi_sock t w, pfd_in = True, pfd_out = False, pfd_revents = 0\<rparr>)) v"
      using room ok(1) ok(5) [of v]
      by (cases "position_in_fds_table t v") (auto simp: watched_def u_def placed_def)
  qed
  moreover have "watched (table_change_pollfd ctx (wsi_listening u) (True, False) (False, False) u) =
      accept_if True False (wsi_listening t) (watched u)"
    using watched_change [OF u, of "wsi_listening u" False] by (simp add: u_def)
  ultimately show ?thesis
    using u unfolding t' by (simp add: table_ok_change accept_if_def split: option.split)
qed

text \<open>The table with the last entry, of connection \<open>e\<close>, moved into the slot \<open>m\<close> of connection \<open>w\<close>.\<close>

definition compacted :: "nat \<Rightarrow> nat \<Rightarrow> nat \<Rightarrow> poll_table \<Rightarrow> poll_table" where
  "compacted w e m t = (call w CB_LOCK_POLL t)\<lparr>same_vh_protocol := remove1 w (same_vh_protocol t),
     fds := (fds t)[m := fds t ! (fds_count t - 1)], fds_count := fds_count t - 1,
     lws_lookup := (lws_lookup t)[wsi_sock t w := None],
     position_in_fds_table := ((position_in_fds_table t)(e \<mapsto> m))(w := None)\<rparr>"

text \<open>The connection \<open>e\<close> of the last entry, and \<open>w\<close> at \<open>m\<close>.\<close>

definition last_and :: "poll_ctx \<Rightarrow> nat \<Rightarrow> nat \<Rightarrow> nat \<Rightarrow> poll_table \<Rightarrow> bool" where
  "last_and ctx w e m t \<longleftrightarrow> table_ok ctx t \<and> position_in_fds_table t w = Some m \<and> position_in_fds_table t e = Some (fds_count t - 1)"

lemma last_exists:
  assumes "table_ok ctx t" "position_in_fds_table t w = Some m"
  shows "\<exists>e. last_and ctx w e m t"
proof -
  note ok = table_okD [OF assms(1)]
  have "0 < fds_count t - 1" "fds_count t - 1 < fds_count t" using ok(5) [OF assms(2)] ok(1,4) by (auto simp: placed_def)
  then show ?thesis using assms ok(6) by (auto simp: last_and_def)
qed

lemma last_bounds:
  assumes "last_and ctx w e m t"
  shows "0 < m" "m < fds_count t" "m \<le> fds_count t - 1" "0 < fds_count t - 1" "fds_count t - 1 < length (fds t)" "m < length (fds t)"
    and "fds_count t = Suc (fds_count t - 1)" "placed t w m" "placed t e (fds_count t - 1)"
proof -
  note ok = table_okD [of ctx t]
  show p: "placed t w m" "placed t e (fds_count t - 1)" using assms ok(5) by (simp_all add: last_and_def)
  then have "fds_count t \<le> length (fds t)" "0 < fds_count t" using assms ok(1,3,4) by (simp_all add: last_and_def)
  then show "0 < m" "m < fds_count t" "m \<le> fds_count t - 1" "0 < fds_count t - 1" "fds_count t - 1 < length (fds t)" "m < length (fds t)"
    and "fds_count t = Suc (fds_count t - 1)" using p by (auto simp: placed_def)
qed

lemma compacted_pos:
  "position_in_fds_table (compacted w e m t) v = (if v = w then None else if v = e then Some m else position_in_fds_table t v)"
  by (simp add: compacted_def)

lemma remove_step:
  assumes "last_and ctx w e m t" "remove_wsi_socket_from_fds ctx w t = (0, t')" and u: "u = compacted w e m t"
  shows "t' = call w CB_UNLOCK_POLL (if \<not> being_destroyed ctx \<and> fds_count u < fd_limit_per_thread ctx - 1
    then table_change_pollfd ctx (wsi_listening u) (False, False) (True, False) u else u)"
proof -
  note n = last_bounds [OF assms(1)]
  have "\<not> max_fds ctx < wsi_sock t w" "poll_cb ctx t w CB_LOCK_POLL = 0"
    using assms(2) by (auto simp: remove_wsi_socket_from_fds_def split: if_splits)
  moreover have "lws_lookup t ! pfd_fd (fds t ! (fds_count t - 1)) = Some e" "position_in_fds_table t w = Some m"
    using n(9) assms(1) by (simp_all add: placed_def last_and_def)
  ultimately have "snd (remove_wsi_socket_from_fds ctx w t) =
    call w CB_UNLOCK_POLL (if \<not> being_destroyed ctx \<and> fds_count u < fd_limit_per_thread ctx - 1
      then table_change_pollfd ctx (wsi_listening u) (False, False) (True, False) u else u)"
    using n by (simp add: remove_wsi_socket_from_fds_def Let_def u compacted_def call_def)
  then show ?thesis using assms(2) by simp
qed

lemma compacted_placed:
  assumes "last_and ctx w e m t" and v: "position_in_fds_table (compacted w e m t) v = Some i"
  shows "placed (compacted w e m t) v i"
proof -
  note n = last_bounds [OF assms(1)]
  have t: "table_ok ctx t" and w: "position_in_fds_table t w = Some m" and e: "position_in_fds_table t e = Some (fds_count t - 1)"
    using assms(1) by (simp_all add: last_and_def)
  note ok = table_okD [OF t]
  have other: "wsi_sock t v \<noteq> wsi_sock t w" if "position_in_fds_table t v = Some i" "v \<noteq> w" for v i
    using ok(5) [OF that(1)] n(8) that(2) by (auto simp: placed_def)
  have "v \<noteq> w" using v by (auto simp: compacted_pos)
  show ?thesis
  proof (cases "v = e")
    case True
    then have "m \<noteq> fds_count t - 1" using position_inject [OF t w] e \<open>v \<noteq> w\<close> by auto
    then show ?thesis using True v \<open>v \<noteq> w\<close> n other [OF e] by (simp add: compacted_pos placed_def compacted_def)
  next
    case False
    then have p: "position_in_fds_table t v = Some i" using v \<open>v \<noteq> w\<close> by (simp add: compacted_pos)
    have "i \<noteq> m" "i \<noteq> fds_count t - 1" using position_inject [OF t p] w e \<open>v \<noteq> w\<close> False by auto
    moreover have "i < fds_count t" using ok(5) [OF p] by (simp add: placed_def)
    ultimately have "i \<noteq> m" "i \<noteq> fds_count t - 1" "i < fds_count t - 1" by linarith+
    then show ?thesis using ok(5) [OF p] n other [OF p \<open>v \<noteq> w\<close>] by (simp add: placed_def compacted_def)
  qed
qed

lemma compacted_covers:
  assumes "last_and ctx w e m t" and i: "0 < i" "i < fds_count t - 1"
  shows "\<exists>v. position_in_fds_table (compacted w e m t) v = Some i"
proof -
  have t: "table_ok ctx t" and w: "position_in_fds_table t w = Some m" and e: "position_in_fds_table t e = Some (fds_count t - 1)"
    using assms(1) by (simp_all add: last_and_def)
  show ?thesis
  proof (cases "i = m")
    case True
    then have "e \<noteq> w" using e w i(2) by auto
    then show ?thesis using True by (intro exI [of _ e]) (simp add: compacted_pos)
  next
    case False
    have "i < fds_count t" using i(2) by linarith
    then obtain v where v: "position_in_fds_table t v = Some i" using table_okD(6) [OF t i(1)] by blast
    then have "v \<noteq> w" "v \<noteq> e" using w e i(2) False by auto
    then show ?thesis using v by (intro exI [of _ v]) (simp add: compacted_pos)
  qed
qed

lemma compacted_ok:
  assumes "last_and ctx w e m t"
  shows "table_ok ctx (compacted w e m t)"
proof -
  note n = last_bounds [OF assms]
  have t: "table_ok ctx t" using assms by (simp add: last_and_def)
  note ok = table_okD [OF t]
  show ?thesis
    unfolding table_ok_def
  proof (intro conjI allI impI)
    fix i assume "0 < i \<and> i < fds_count (compacted w e m t)"
    then show "\<exists>v. position_in_fds_table (compacted w e m t) v = Some i" using compacted_covers [OF assms] by (simp add: compacted_def)
  next
    fix s v assume s: "s < max_fds ctx" "lws_lookup (compacted w e m t) ! s = Some v"
    then have "s \<noteq> wsi_sock t w" "lws_lookup t ! s = Some v"
      using ok(2) by (cases "s = wsi_sock t w"; simp add: compacted_def)+
    then show "wsi_sock (compacted w e m t) v = s" "position_in_fds_table (compacted w e m t) v \<noteq> None"
      using ok(7) [OF s(1), of v] n(8) by (auto simp: compacted_pos placed_def) (simp_all add: compacted_def)
  qed (use ok(1-4) n compacted_placed [OF assms] in \<open>simp_all add: compacted_def\<close>)
qed

lemma compacted_watched:
  assumes "last_and ctx w e m t"
  shows "watched (compacted w e m t) = (watched t)(w := None)"
proof
  fix v
  have t: "table_ok ctx t" and w: "position_in_fds_table t w = Some m" and e: "position_in_fds_table t e = Some (fds_count t - 1)"
    using assms by (simp_all add: last_and_def)
  show "watched (compacted w e m t) v = ((watched t)(w := None)) v"
  proof (cases "v = w \<or> v = e")
    case True
    then show ?thesis using e last_bounds [OF assms] by (auto simp: watched_def compacted_pos) (simp_all add: compacted_def)
  next
    case False
    have "m \<noteq> i" if "position_in_fds_table t v = Some i" for i using position_inject [OF t that] w False by auto
    then show ?thesis
      using False by (cases "position_in_fds_table t v") (auto simp: watched_def compacted_pos, simp_all add: compacted_def)
  qed
qed

lemma remove_unwatches:
  assumes "table_ok ctx t" and "position_in_fds_table t w = Some m"
    and "remove_wsi_socket_from_fds ctx w t = (0, t')"
  shows "table_ok ctx t' \<and> fds_count t' = fds_count t - 1 \<and> watched t' =
    accept_if (\<not> being_destroyed ctx \<and> fds_count t' < fd_limit_per_thread ctx - 1) True (wsi_listening t)
      ((watched t)(w := None))"
proof -
  obtain e where e: "last_and ctx w e m t" using last_exists [OF assms(1,2)] by blast
  define u where "u = compacted w e m t"
  note t' = remove_step [OF e assms(3) u_def]
  have u: "table_ok ctx u" "watched u = (watched t)(w := None)" "wsi_listening u = wsi_listening t" "fds_count u = fds_count t - 1"
    using compacted_ok [OF e] compacted_watched [OF e] by (simp_all add: u_def compacted_def)
  have "watched (table_change_pollfd ctx (wsi_listening u) (False, False) (True, False) u) =
      accept_if True True (wsi_listening t) (watched u)"
    using watched_change [OF u(1), of "wsi_listening u" True] u(3) by simp
  then show ?thesis
    using u unfolding t' by (simp add: table_ok_change accept_if_def split: option.split)
qed

text \<open>C24: removing a connection takes it, and it only, off the table: filling its slot with the last
  entry keeps every other connection's entry (but for the listening connection, which accepts again
  once there is room) and the three structures in step, also when it is the last entry itself.\<close>

theorem remove_implements_map:
  assumes "table_ok ctx t" and "position_in_fds_table t w = Some m"
    and "remove_wsi_socket_from_fds ctx w t = (0, t')"
  shows "table_ok ctx t' \<and> fds_count t' = fds_count t - 1 \<and> watched t' =
    accept_if (\<not> being_destroyed ctx \<and> fds_count t' < fd_limit_per_thread ctx - 1) True (wsi_listening t)
      ((watched t)(w := None))"
  using assms by (rule remove_unwatches)

subsection \<open>Accepting only with room\<close>

definition accepting :: "poll_table \<Rightarrow> bool" where
  "accepting t \<longleftrightarrow> (\<exists>l p. wsi_listening t = Some l \<and> watched t l = Some p \<and> pfd_in p)"

definition accept_gate :: "poll_ctx \<Rightarrow> poll_table \<Rightarrow> bool" where
  "accept_gate ctx t \<longleftrightarrow> (accepting t \<longrightarrow> fds_count t < fd_limit_per_thread ctx - 1)"

lemma listening_kept:
  "wsi_listening (snd (insert_wsi_socket_into_fds ctx w t)) = wsi_listening t"
  "wsi_listening (snd (remove_wsi_socket_from_fds ctx w t)) = wsi_listening t"
  by (simp_all add: insert_wsi_socket_into_fds_def remove_wsi_socket_from_fds_def Let_def split: option.split)

lemma insert_count:
  "insert_wsi_socket_into_fds ctx w t = (0, t') \<Longrightarrow> fds_count t' = fds_count t + 1"
  by (auto simp: insert_wsi_socket_into_fds_def Let_def split: if_splits)

lemma accepting_accept_if:
  assumes "watched t' = accept_if c on (wsi_listening t) m" and "wsi_listening t' = wsi_listening t"
  shows "accepting t' \<longleftrightarrow> (\<exists>l p. wsi_listening t = Some l \<and> m l = Some p \<and> (if c then on else pfd_in p))"
  using assms by (auto simp: accepting_def accept_if_def split: option.splits)

text \<open>The listening connection is watched for new connections only while the thread can take one
  more and still keep a slot: connections coming and going keep it so.\<close>

lemma accept_only_with_room:
  assumes "table_ok ctx t" and "accept_gate ctx t"
    and "position_in_fds_table t w = None \<and> lws_lookup t ! wsi_sock t w = None \<and> wsi_listening t \<noteq> Some w \<and>
        insert_wsi_socket_into_fds ctx w t = (0, t') \<or>
      position_in_fds_table t w = Some m \<and> remove_wsi_socket_from_fds ctx w t = (0, t')"
  shows "accept_gate ctx t'"
  using assms(3)
proof (elim disjE conjE)
  assume a: "position_in_fds_table t w = None" "lws_lookup t ! wsi_sock t w = None" "wsi_listening t \<noteq> Some w"
    "insert_wsi_socket_into_fds ctx w t = (0, t')"
  have "wsi_listening t' = wsi_listening t" using listening_kept(1) [of ctx w t] a(4) by simp
  with insert_implements_map [OF assms(1) a(1,2,4)]
  have acc: "accepting t' \<longleftrightarrow> (\<exists>l p. wsi_listening t = Some l \<and> ((watched t)(w \<mapsto>
      \<lparr>pfd_fd = wsi_sock t w, pfd_in = True, pfd_out = False, pfd_revents = 0\<rparr>)) l = Some p \<and>
      (if fds_count t' = fd_limit_per_thread ctx - 1 then False else pfd_in p))"
    using accepting_accept_if by blast
  show ?thesis
    unfolding accept_gate_def
  proof
    assume "accepting t'"
    then have "accepting t" "fds_count t' \<noteq> fd_limit_per_thread ctx - 1"
      using acc a(3) by (auto simp: accepting_def split: if_splits)
    then show "fds_count t' < fd_limit_per_thread ctx - 1"
      using assms(2) insert_count [OF a(4)] by (simp add: accept_gate_def)
  qed
next
  assume a: "position_in_fds_table t w = Some m" "remove_wsi_socket_from_fds ctx w t = (0, t')"
  have "wsi_listening t' = wsi_listening t" using listening_kept(2) [of ctx w t] a(2) by simp
  with remove_unwatches [OF assms(1) a]
  have acc: "accepting t' \<longleftrightarrow> (\<exists>l p. wsi_listening t = Some l \<and> ((watched t)(w := None)) l = Some p \<and>
      (if \<not> being_destroyed ctx \<and> fds_count t' < fd_limit_per_thread ctx - 1 then True else pfd_in p))"
    using accepting_accept_if by blast
  have count: "fds_count t' = fds_count t - 1" using remove_unwatches [OF assms(1) a] by blast
  show ?thesis
    unfolding accept_gate_def
  proof
    assume "accepting t'"
    then have "accepting t \<or> fds_count t' < fd_limit_per_thread ctx - 1"
      using acc by (auto simp: accepting_def split: if_splits)
    then show "fds_count t' < fd_limit_per_thread ctx - 1"
      using assms(2) count by (auto simp: accept_gate_def)
  qed
qed

lemma idlest_loop_spec:
  assumes "hit = -1 \<and> (\<forall>c \<in> set pre. c = lim - 1) \<and> lowest = 2 ^ 32 - 1 \<or>
      0 \<le> hit \<and> nat hit < length pre \<and> pre ! nat hit = lowest \<and> lowest \<noteq> lim - 1 \<and>
        (\<forall>c \<in> set pre. c \<noteq> lim - 1 \<longrightarrow> lowest \<le> c)"
    and "\<forall>c \<in> set cs. c < 2 ^ 32 - 1" and "n = length pre" and "k = idlest_loop lim n lowest hit cs"
  shows "k = -1 \<and> (\<forall>c \<in> set (pre @ cs). c = lim - 1) \<or>
      0 \<le> k \<and> nat k < length (pre @ cs) \<and> (pre @ cs) ! nat k \<noteq> lim - 1 \<and>
        (\<forall>c \<in> set (pre @ cs). c \<noteq> lim - 1 \<longrightarrow> (pre @ cs) ! nat k \<le> c)"
  using assms
proof (induction cs arbitrary: pre n lowest hit)
  case Nil
  then show ?case by auto
next
  case (Cons c cs)
  have c: "c < 2 ^ 32 - 1" using Cons.prems(2) by simp
  show ?case
  proof (cases "c \<noteq> lim - 1 \<and> c < lowest")
    case True
    have "(pre @ [c]) ! nat (int n) = c" using Cons.prems(3) by simp
    moreover have "\<forall>d \<in> set (pre @ [c]). d \<noteq> lim - 1 \<longrightarrow> c \<le> d"
      using Cons.prems(1) True by fastforce
    moreover have "k = idlest_loop lim (n + 1) c (int n) cs" using Cons.prems(4) True by simp
    ultimately show ?thesis
      using Cons.IH [of "int n" "pre @ [c]" c "n + 1"] Cons.prems(2,3) True by simp
  next
    case False
    then have "hit = -1 \<and> (\<forall>c \<in> set (pre @ [c]). c = lim - 1) \<and> lowest = 2 ^ 32 - 1 \<or>
      0 \<le> hit \<and> nat hit < length (pre @ [c]) \<and> (pre @ [c]) ! nat hit = lowest \<and> lowest \<noteq> lim - 1 \<and>
        (\<forall>d \<in> set (pre @ [c]). d \<noteq> lim - 1 \<longrightarrow> lowest \<le> d)"
      using Cons.prems(1) c by (auto simp: nth_append)
    moreover have "k = idlest_loop lim (n + 1) lowest hit cs"
      using Cons.prems(4) False by (simp only: idlest_loop.simps if_False)
    ultimately show ?thesis
      using Cons.IH [of hit "pre @ [c]" lowest "n + 1"] Cons.prems(2,3) by simp
  qed
qed

text \<open>A new connection goes to a service thread with the fewest entries among those that have a
  slot to spare; \<open>-1\<close> means, exactly, that none has.\<close>

lemma idlest_tsi_least:
  assumes "\<forall>c \<in> set counts. c < 2 ^ 32 - 1" and "k = lws_get_idlest_tsi lim counts"
  shows "k = -1 \<and> (\<forall>c \<in> set counts. c = lim - 1) \<or>
    0 \<le> k \<and> nat k < length counts \<and> counts ! nat k \<noteq> lim - 1 \<and>
      (\<forall>c \<in> set counts. c \<noteq> lim - 1 \<longrightarrow> counts ! nat k \<le> c)"
  using idlest_loop_spec [of "-1" "[]" lim "2 ^ 32 - 1" counts 0 k] assms
  by (simp add: lws_get_idlest_tsi_def)

subsection \<open>Witnesses\<close>

definition small_ctx :: poll_ctx where
  "small_ctx = \<lparr>fd_limit_per_thread = 4, max_fds = 10, being_destroyed = False, poll_cb = (\<lambda>_ _ _. 0),
     add_del_cb = (\<lambda>_ _ _. 0)\<rparr>"

text \<open>The pipe, the listening connection 0 on descriptor 5, and connection 1 on descriptor 6.\<close>

definition small_table :: poll_table where
  "small_table =
     (let p = \<lparr>pfd_fd = 3, pfd_in = True, pfd_out = False, pfd_revents = 0\<rparr>
      in \<lparr>fds = [p, p\<lparr>pfd_fd := 5, pfd_in := False\<rparr>, p\<lparr>pfd_fd := 6\<rparr>, p\<lparr>pfd_fd := 0\<rparr>], fds_count = 3,
          count_conns = 2, lws_lookup = [None, None, None, None, None, Some 0, Some 1, None, None, None],
          wsi_sock = (\<lambda>w. w + 5), position_in_fds_table = [0 \<mapsto> 1, 1 \<mapsto> 2],
          same_vh_protocol = [], wsi_listening = Some 0, poll_calls = []\<rparr>)"

lemma small_table_fields:
  "length (fds small_table) = 4" "length (lws_lookup small_table) = 10" "fds_count small_table = 3"
  "wsi_sock small_table w = w + 5" "wsi_listening small_table = Some 0"
  "position_in_fds_table small_table w = (if w = 0 then Some 1 else if w = 1 then Some 2 else None)"
  "pfd_fd (fds small_table ! 1) = 5" "pfd_fd (fds small_table ! Suc 0) = 5" "pfd_fd (fds small_table ! 2) = 6"
  "\<not> pfd_in (fds small_table ! 1)"
  "lws_lookup small_table ! 5 = Some 0" "lws_lookup small_table ! 6 = Some 1" "lws_lookup small_table ! 7 = None"
  "fd_limit_per_thread small_ctx = 4" "max_fds small_ctx = 10"
  by (simp_all add: small_table_def small_ctx_def Let_def)

lemma lookup_small:
  assumes "lws_lookup small_table ! s = Some w" and "s < 10"
  shows "s = 5 \<and> w = 0 \<or> s = 6 \<and> w = 1"
proof -
  have "s \<in> set [0..<10]" using assms(2) by simp
  moreover have "[0..<10] = [0, 1, 2, 3, 4, 5, 6, 7, 8, 9 :: nat]" by code_simp
  ultimately have "s = 0 \<or> s = 1 \<or> s = 2 \<or> s = 3 \<or> s = 4 \<or> s = 5 \<or> s = 6 \<or> s = 7 \<or> s = 8 \<or> s = 9"
    by (simp only: list.set insert_iff empty_iff simp_thms)
  then show ?thesis
    using assms(1) by (elim disjE) (simp_all add: small_table_def Let_def)
qed

lemma small_table_ok: "table_ok small_ctx small_table"
  unfolding table_ok_def
proof (intro conjI allI impI)
  fix s w assume "s < max_fds small_ctx" "lws_lookup small_table ! s = Some w"
  then have "s = 5 \<and> w = 0 \<or> s = 6 \<and> w = 1" using lookup_small by (simp add: small_ctx_def)
  then show "wsi_sock small_table w = s" "position_in_fds_table small_table w \<noteq> None"
    by (auto simp: small_table_fields)
next
  fix i assume "0 < i \<and> i < fds_count small_table"
  then have "i = 1 \<or> i = 2" by (auto simp: small_table_fields)
  then show "\<exists>w. position_in_fds_table small_table w = Some i"
    by (auto simp: small_table_fields)
next
  fix w i assume "position_in_fds_table small_table w = Some i"
  then have "w = 0 \<and> i = 1 \<or> w = 1 \<and> i = 2" by (auto simp: small_table_fields split: if_splits)
  then show "placed small_table w i" by (auto simp: placed_def small_table_fields)
qed (simp_all add: small_table_fields)

lemma small_remove:
  "remove_wsi_socket_from_fds small_ctx 1 small_table = (0, snd (remove_wsi_socket_from_fds small_ctx 1 small_table))"
  "position_in_fds_table small_table 1 = Some 2"
  by (simp_all add: remove_wsi_socket_from_fds_def small_ctx_def small_table_def Let_def)

theorem remove_implements_map_witness:
  "table_ok small_ctx (snd (remove_wsi_socket_from_fds small_ctx 1 small_table)) \<and>
   fds_count (snd (remove_wsi_socket_from_fds small_ctx 1 small_table)) = 2"
  using remove_implements_map [OF small_table_ok small_remove(2,1)] by (simp add: small_table_fields)

end
