(* ===== verification/Ah_Pool.thy ===== *)
theory Ah_Pool
  imports Lws_Prelude "HOL-Library.Monad_Syntax"
begin

text \<open>
  The pool of header tables of a service thread, \<^verbatim>\<open>parsers.c\<close>: a connection needs one of
  \<^verbatim>\<open>max_http_header_pool\<close> tables to receive headers. When all are taken it goes on a waiting list and
  stops reading; a table that is given back goes to the connection that has waited longest. Connections are
  named by numbers. The waiting list is linked through the connections, the newest first; here it is a list.
  \<open>None\<close> is a failed \<^verbatim>\<open>assert\<close>, a null pointer or a copy beyond \<^verbatim>\<open>rx\<close>.

  \<^verbatim>\<open>lws_service_fd_tsi\<close> and \<^verbatim>\<open>lws_client_connect_via_info2\<close>, which two of the functions call, reach the whole
  library: they are functions of the environment, and may do anything to the pool. The callbacks of a poll
  change are in \<open>Ws_Conn\<close>; here it is the bit.
\<close>

subsection \<open>The pool\<close>

record ah_slot =
  ah_owner :: "nat option"
  ah_in_use :: bool
  ah_assigned :: int
  slot_index :: "nat list"
  slot_nfrag :: nat
  slot_pos :: nat
  ah_rx :: "byte list"
  ah_rxpos :: nat
  ah_rxlen :: nat

record ah_conn =
  conn_ah :: "nat option"
  preamble_rx :: "byte list option"
  conn_in_fds :: bool
  conn_pollin :: bool
  client_unconnected :: bool

record ah_pt =
  ah_pool :: "ah_slot list"
  ah_count_in_use :: nat
  ah_wait_list :: "nat list"
  ah_wait_list_length :: int
  conns :: "nat \<Rightarrow> ah_conn"

record ah_env =
  max_http_header_pool :: nat
  clock :: "ah_pt \<Rightarrow> int"
  service_fd :: "nat \<Rightarrow> ah_pt \<Rightarrow> ah_pt"
  connect_via_info2 :: "nat \<Rightarrow> ah_pt \<Rightarrow> bool \<times> ah_pt"

definition upd_conn :: "nat \<Rightarrow> (ah_conn \<Rightarrow> ah_conn) \<Rightarrow> ah_pt \<Rightarrow> ah_pt" where
  "upd_conn w f pt = pt\<lparr>conns := (conns pt)(w := f (conns pt w))\<rparr>"

definition upd_slot :: "nat \<Rightarrow> (ah_slot \<Rightarrow> ah_slot) \<Rightarrow> ah_pt \<Rightarrow> ah_pt option" where
  "upd_slot i f pt =
     (if i < length (ah_pool pt) then Some (pt\<lparr>ah_pool := (ah_pool pt)[i := f (ah_pool pt ! i)]\<rparr>) else None)"

text \<open>\<^verbatim>\<open>_lws_change_pollfd\<close> on \<^verbatim>\<open>LWS_POLLIN\<close>: nothing happens to a connection outside of the poll table.\<close>

definition change_pollin :: "bool \<Rightarrow> nat \<Rightarrow> ah_pt \<Rightarrow> ah_pt" where
  "change_pollin b w pt = upd_conn w (\<lambda>c. if conn_in_fds c then c\<lparr>conn_pollin := b\<rparr> else c) pt"

subsection \<open>The operations\<close>

definition header_table_reset :: "ah_env \<Rightarrow> bool \<Rightarrow> nat \<Rightarrow> ah_pt \<Rightarrow> ah_pt option" where
  "header_table_reset env autoservice w pt =
     do {
       i \<leftarrow> conn_ah (conns pt w);
       assert_opt (i < length (ah_pool pt) \<and> ah_owner (ah_pool pt ! i) = Some w);
       pt \<leftarrow> upd_slot i (\<lambda>s. s\<lparr>slot_index := replicate 86 0, slot_nfrag := 0, slot_pos := 0\<rparr>) pt;
       case preamble_rx (conns pt w) of
         None \<Rightarrow> Some pt
       | Some bs \<Rightarrow> do {
           assert_opt (length bs \<le> 2048);
           pt \<leftarrow> upd_slot i (\<lambda>s. s\<lparr>ah_rx := bs @ drop (length bs) (ah_rx s), ah_rxlen := length bs\<rparr>) pt;
           pt \<leftarrow> Some (upd_conn w (preamble_rx_update (\<lambda>_. None)) pt);
           Some (if autoservice then service_fd env w pt else pt)
         }
     }"

definition stamp_assigned :: "ah_env \<Rightarrow> nat \<Rightarrow> ah_pt \<Rightarrow> ah_pt option" where
  "stamp_assigned env w pt =
     do { i \<leftarrow> conn_ah (conns pt w); upd_slot i (\<lambda>s. s\<lparr>ah_assigned := clock env pt\<rparr>) pt }"

definition clear_rx :: "nat \<Rightarrow> ah_pt \<Rightarrow> ah_pt option" where
  "clear_rx i pt = upd_slot i (\<lambda>s. s\<lparr>ah_rxpos := 0, ah_rxlen := 0\<rparr>) pt"

definition connect_client :: "ah_env \<Rightarrow> nat \<Rightarrow> ah_pt \<Rightarrow> int \<times> ah_pt" where
  "connect_client env w pt =
     (if client_unconnected (conns pt w)
      then case connect_via_info2 env w pt of (ok, pt) \<Rightarrow> (if ok then 0 else -1, pt)
      else (0, pt))"

definition attach_reset :: "ah_env \<Rightarrow> bool \<Rightarrow> nat \<Rightarrow> ah_pt \<Rightarrow> (int \<times> ah_pt) option" where
  "attach_reset env autoservice w pt =
     do {
       i \<leftarrow> conn_ah (conns pt w);
       pt \<leftarrow> clear_rx i pt;
       pt \<leftarrow> header_table_reset env autoservice w pt;
       pt \<leftarrow> stamp_assigned env w pt;
       Some (connect_client env w pt)
     }"

fun first_free :: "ah_slot list \<Rightarrow> nat" where
  "first_free [] = 0"
| "first_free (s # ss) = (if ah_in_use s then Suc (first_free ss) else 0)"

definition lws_header_table_attach :: "ah_env \<Rightarrow> bool \<Rightarrow> nat \<Rightarrow> ah_pt \<Rightarrow> (int \<times> ah_pt) option" where
  "lws_header_table_attach env autoservice w pt =
     (if conn_ah (conns pt w) \<noteq> None then attach_reset env autoservice w pt
      else if w \<in> set (ah_wait_list pt) \<and> ah_count_in_use pt = max_http_header_pool env then Some (1, pt)
      else
        let pt = (if w \<in> set (ah_wait_list pt)
                  then pt\<lparr>ah_wait_list := remove1 w (ah_wait_list pt),
                          ah_wait_list_length := ah_wait_list_length pt - 1\<rparr>
                  else pt)
        in if ah_count_in_use pt = max_http_header_pool env then
             Some (1, change_pollin False w (pt\<lparr>ah_wait_list := w # ah_wait_list pt,
               ah_wait_list_length := ah_wait_list_length pt + 1\<rparr>))
           else do {
             n \<leftarrow> Some (first_free (take (max_http_header_pool env) (ah_pool pt)));
             assert_opt (n \<noteq> max_http_header_pool env);
             pt \<leftarrow> Some (upd_conn w (conn_ah_update (\<lambda>_. Some n)) pt);
             pt \<leftarrow> upd_slot n (\<lambda>s. s\<lparr>ah_in_use := True, ah_owner := Some w\<rparr>) pt;
             pt \<leftarrow> Some (change_pollin True w (pt\<lparr>ah_count_in_use := ah_count_in_use pt + 1\<rparr>));
             attach_reset env autoservice w pt
           })"

text \<open>
  The pointer to the link that leads to the last waiting connection, and what writing \<open>w\<close>'s own link there
  and clearing it makes of the list, which may have changed in between.
\<close>

definition last_link :: "nat list \<Rightarrow> nat option" where
  "last_link ws = (if length ws \<le> 1 then None else Some (last (butlast ws)))"

definition unlink_at :: "nat option \<Rightarrow> nat \<Rightarrow> nat list \<Rightarrow> nat list" where
  "unlink_at link w ws =
     (let rest = drop 1 (dropWhile (\<lambda>x. x \<noteq> w) ws);
          new = (case link of
                   None \<Rightarrow> rest
                 | Some v \<Rightarrow> if v \<in> set ws then takeWhile (\<lambda>x. x \<noteq> v) ws @ v # rest else ws)
      in if w \<in> set new then takeWhile (\<lambda>x. x \<noteq> w) new @ [w] else new)"

definition give_to_oldest :: "ah_env \<Rightarrow> bool \<Rightarrow> nat \<Rightarrow> ah_pt \<Rightarrow> (int \<times> ah_pt) option" where
  "give_to_oldest env autoservice i pt =
     (let w = last (ah_wait_list pt); link = last_link (ah_wait_list pt) in
      do {
        pt \<leftarrow> Some (upd_conn w (conn_ah_update (\<lambda>_. Some i)) pt);
        pt \<leftarrow> upd_slot i (\<lambda>s. s\<lparr>ah_owner := Some w\<rparr>) pt;
        pt \<leftarrow> clear_rx i pt;
        pt \<leftarrow> header_table_reset env autoservice w pt;
        pt \<leftarrow> stamp_assigned env w pt;
        pt \<leftarrow> Some (if conn_in_fds (conns pt w) then change_pollin True w pt else pt);
        pt \<leftarrow> Some (pt\<lparr>ah_wait_list := unlink_at link w (ah_wait_list pt),
          ah_wait_list_length := ah_wait_list_length pt - 1\<rparr>);
        (r, pt) \<leftarrow> Some (connect_client env w pt);
        if r < 0 then Some (-1, pt)
        else do {
          assert_opt ((ah_wait_list_length pt \<noteq> 0) = (ah_wait_list pt \<noteq> []));
          Some (0, pt)
        }
      })"

definition lws_header_table_detach :: "ah_env \<Rightarrow> bool \<Rightarrow> nat \<Rightarrow> ah_pt \<Rightarrow> (int \<times> ah_pt) option" where
  "lws_header_table_detach env autoservice w pt =
     (let pt = upd_conn w (preamble_rx_update (\<lambda>_. None)) pt in
      case conn_ah (conns pt w) of
        None \<Rightarrow>
          Some (0, if w \<in> set (ah_wait_list pt)
                   then pt\<lparr>ah_wait_list := remove1 w (ah_wait_list pt),
                           ah_wait_list_length := ah_wait_list_length pt - 1\<rparr>
                   else pt)
      | Some i \<Rightarrow> do {
          assert_opt (i < length (ah_pool pt));
          assert_opt (ah_rxpos (ah_pool pt ! i) = ah_rxlen (ah_pool pt ! i));
          pt \<leftarrow> upd_slot i (\<lambda>s. s\<lparr>ah_assigned := 0\<rparr>) pt;
          assert_opt (0 < ah_count_in_use pt);
          assert_opt (ah_in_use (ah_pool pt ! i));
          pt \<leftarrow> Some (upd_conn w (conn_ah_update (\<lambda>_. None)) pt);
          pt \<leftarrow> upd_slot i (\<lambda>s. s\<lparr>ah_owner := None\<rparr>) pt;
          if ah_wait_list pt = [] then do {
            pt \<leftarrow> upd_slot i (\<lambda>s. s\<lparr>ah_in_use := False\<rparr>) pt;
            Some (0, pt\<lparr>ah_count_in_use := ah_count_in_use pt - 1\<rparr>)
          }
          else give_to_oldest env autoservice i pt
        })"

subsection \<open>What is promised\<close>

text \<open>The specification: who holds a table, and who waits, the newest first.\<close>

type_synonym pool_spec = "nat set \<times> nat list"

definition spec_attach :: "nat \<Rightarrow> nat \<Rightarrow> pool_spec \<Rightarrow> int \<times> pool_spec" where
  "spec_attach n w p =
     (case p of (held, queue) \<Rightarrow>
        if w \<in> held then (0, p)
        else if card held < n then (0, insert w held, queue)
        else (1, held, if w \<in> set queue then queue else w # queue))"

definition spec_detach :: "nat \<Rightarrow> pool_spec \<Rightarrow> pool_spec" where
  "spec_detach w p =
     (case p of (held, queue) \<Rightarrow>
        if w \<notin> held then (held, remove1 w queue)
        else if queue = [] then (held - {w}, [])
        else (insert (last queue) (held - {w}), butlast queue))"

definition pool_abs :: "ah_pt \<Rightarrow> pool_spec" where
  "pool_abs pt = ({w. conn_ah (conns pt w) \<noteq> None}, ah_wait_list pt)"

definition held_slots :: "ah_pt \<Rightarrow> nat set" where
  "held_slots pt = {i. i < length (ah_pool pt) \<and> ah_owner (ah_pool pt ! i) \<noteq> None}"

text \<open>Connections and tables point at each other, and a table is in use when it has an owner.\<close>

definition owners_ok :: "ah_pt \<Rightarrow> bool" where
  "owners_ok pt \<longleftrightarrow>
     (\<forall>w i. conn_ah (conns pt w) = Some i \<longleftrightarrow> i < length (ah_pool pt) \<and> ah_owner (ah_pool pt ! i) = Some w) \<and>
     (\<forall>i < length (ah_pool pt). ah_in_use (ah_pool pt ! i) \<longleftrightarrow> ah_owner (ah_pool pt ! i) \<noteq> None)"

definition pool_inv :: "ah_env \<Rightarrow> ah_pt \<Rightarrow> bool" where
  "pool_inv env pt \<longleftrightarrow> length (ah_pool pt) = max_http_header_pool env \<and> owners_ok pt \<and>
     ah_count_in_use pt = card (held_slots pt) \<and>
     distinct (ah_wait_list pt) \<and> (\<forall>w \<in> set (ah_wait_list pt). conn_ah (conns pt w) = None) \<and>
     (ah_wait_list pt \<noteq> [] \<longrightarrow> ah_count_in_use pt = max_http_header_pool env) \<and>
     ah_wait_list_length pt = int (length (ah_wait_list pt))"

text \<open>No connection was adopted with bytes already read, and none is a client.\<close>

definition plain_conns :: "ah_pt \<Rightarrow> bool" where
  "plain_conns pt \<longleftrightarrow> (\<forall>w. preamble_rx (conns pt w) = None \<and> \<not> client_unconnected (conns pt w))"

subsection \<open>The shape of the pool\<close>

definition same_shape :: "ah_pt \<Rightarrow> ah_pt \<Rightarrow> bool" where
  "same_shape pt pt' \<longleftrightarrow> length (ah_pool pt') = length (ah_pool pt) \<and>
     (\<forall>i < length (ah_pool pt). ah_owner (ah_pool pt' ! i) = ah_owner (ah_pool pt ! i) \<and>
        ah_in_use (ah_pool pt' ! i) = ah_in_use (ah_pool pt ! i)) \<and>
     ah_count_in_use pt' = ah_count_in_use pt \<and> ah_wait_list pt' = ah_wait_list pt \<and>
     ah_wait_list_length pt' = ah_wait_list_length pt \<and>
     (\<forall>w. conn_ah (conns pt' w) = conn_ah (conns pt w) \<and> preamble_rx (conns pt' w) = preamble_rx (conns pt w) \<and>
        client_unconnected (conns pt' w) = client_unconnected (conns pt w))"

lemma same_shape_refl [simp]: "same_shape pt pt"
  by (simp add: same_shape_def)

lemma same_shape_trans: "same_shape a b \<Longrightarrow> same_shape b c \<Longrightarrow> same_shape a c"
  by (simp add: same_shape_def)

lemma owns_iff:
  "pool_inv env pt \<Longrightarrow> conn_ah (conns pt w) = Some i \<longleftrightarrow> i < length (ah_pool pt) \<and> ah_owner (ah_pool pt ! i) = Some w"
  unfolding pool_inv_def owners_ok_def by blast

lemma in_use_iff:
  "pool_inv env pt \<Longrightarrow> i < length (ah_pool pt) \<Longrightarrow> ah_in_use (ah_pool pt ! i) \<longleftrightarrow> ah_owner (ah_pool pt ! i) \<noteq> None"
  unfolding pool_inv_def owners_ok_def by blast

lemma waiting_fields [simp]:
  "owners_ok (pt\<lparr>ah_wait_list := ws, ah_wait_list_length := n\<rparr>) = owners_ok pt"
  "held_slots (pt\<lparr>ah_wait_list := ws, ah_wait_list_length := n\<rparr>) = held_slots pt"
  by (simp_all add: owners_ok_def held_slots_def)

lemma same_shape_inv: "same_shape pt pt' \<Longrightarrow> pool_inv env pt \<Longrightarrow> pool_inv env pt'"
proof -
  assume same: "same_shape pt pt'" and inv: "pool_inv env pt"
  have "held_slots pt' = held_slots pt" using same by (auto simp: same_shape_def held_slots_def)
  moreover have "owners_ok pt'" using same inv unfolding pool_inv_def owners_ok_def same_shape_def by (metis (no_types, lifting))
  ultimately show ?thesis using same inv unfolding pool_inv_def same_shape_def by auto
qed

lemma same_shape_abs: "same_shape pt pt' \<Longrightarrow> pool_abs pt' = pool_abs pt \<and> plain_conns pt' = plain_conns pt"
  by (simp add: same_shape_def pool_abs_def plain_conns_def)

lemma upd_slot_shape:
  assumes "i < length (ah_pool pt)" and "\<And>s. ah_owner (f s) = ah_owner s" "\<And>s. ah_in_use (f s) = ah_in_use s"
  shows "\<exists>pt'. upd_slot i f pt = Some pt' \<and> same_shape pt pt' \<and> conns pt' = conns pt"
  using assms by (auto simp: upd_slot_def same_shape_def nth_list_update)

lemma change_pollin_shape: "same_shape pt (change_pollin b w pt)"
  by (simp add: change_pollin_def upd_conn_def same_shape_def)

lemma header_table_reset_plain:
  assumes "plain_conns pt" and "conn_ah (conns pt w) = Some i" "i < length (ah_pool pt)" "ah_owner (ah_pool pt ! i) = Some w"
  shows "\<exists>pt'. header_table_reset env a w pt = Some pt' \<and> same_shape pt pt'"
proof -
  obtain pt' where "upd_slot i (\<lambda>s. s\<lparr>slot_index := replicate 86 0, slot_nfrag := 0, slot_pos := 0\<rparr>) pt = Some pt' \<and>
      same_shape pt pt' \<and> conns pt' = conns pt"
    using upd_slot_shape [OF assms(3)] by fastforce
  then show ?thesis using assms by (simp add: header_table_reset_def assert_opt_def plain_conns_def)
qed

lemma stamp_assigned_shape:
  assumes "conn_ah (conns pt w) = Some i" "i < length (ah_pool pt)"
  shows "\<exists>pt'. stamp_assigned env w pt = Some pt' \<and> same_shape pt pt'"
  using assms upd_slot_shape [OF assms(2), of "\<lambda>s. s\<lparr>ah_assigned := clock env pt\<rparr>"] by (auto simp: stamp_assigned_def)

lemma clear_rx_shape:
  assumes "i < length (ah_pool pt)"
  shows "\<exists>pt'. clear_rx i pt = Some pt' \<and> same_shape pt pt'"
  using upd_slot_shape [OF assms, of "\<lambda>s. s\<lparr>ah_rxpos := 0, ah_rxlen := 0\<rparr>"] by (auto simp: clear_rx_def)

text \<open>The steps that a table goes through when it is given to a connection, whichever way.\<close>

lemma table_ready:
  assumes "plain_conns pt" and "conn_ah (conns pt w) = Some i" "i < length (ah_pool pt)" "ah_owner (ah_pool pt ! i) = Some w"
  shows "\<exists>a b pt'. clear_rx i pt = Some a \<and> header_table_reset env auto_service w a = Some b \<and> stamp_assigned env w b = Some pt' \<and>
    same_shape pt pt'"
proof -
  obtain a where a: "clear_rx i pt = Some a" "same_shape pt a" using clear_rx_shape [OF assms(3)] by blast
  have a': "plain_conns a" "conn_ah (conns a w) = Some i" "i < length (ah_pool a)" "ah_owner (ah_pool a ! i) = Some w"
    using a(2) assms same_shape_abs by (auto simp: same_shape_def)
  obtain b where b: "header_table_reset env auto_service w a = Some b" "same_shape a b"
    using header_table_reset_plain [OF a'] by blast
  have "conn_ah (conns b w) = Some i" "i < length (ah_pool b)" using b(2) a' by (auto simp: same_shape_def)
  then obtain c where "stamp_assigned env w b = Some c" "same_shape b c" using stamp_assigned_shape by blast
  then show ?thesis using a b same_shape_trans by blast
qed

lemma attach_reset_plain:
  assumes "plain_conns pt" and "conn_ah (conns pt w) = Some i" "i < length (ah_pool pt)" "ah_owner (ah_pool pt ! i) = Some w"
  shows "\<exists>pt'. attach_reset env a w pt = Some (0, pt') \<and> same_shape pt pt'"
proof -
  obtain x y pt' where "clear_rx i pt = Some x" "header_table_reset env a w x = Some y" "stamp_assigned env w y = Some pt'" "same_shape pt pt'"
    using table_ready [OF assms] by blast
  moreover have "\<not> client_unconnected (conns pt' w)" using calculation(4) assms(1) by (simp add: same_shape_def plain_conns_def)
  ultimately show ?thesis using assms(2) by (simp add: attach_reset_def connect_client_def)
qed

subsection \<open>Holders and slots\<close>

lemma held_slots_finite [simp]: "finite (held_slots pt)"
  by (simp add: held_slots_def)

lemma card_holders:
  assumes "pool_inv env pt"
  shows "card {w. conn_ah (conns pt w) \<noteq> None} = ah_count_in_use pt" and "finite {w. conn_ah (conns pt w) \<noteq> None}"
proof -
  let ?f = "\<lambda>i. the (ah_owner (ah_pool pt ! i))"
  note own = owns_iff [OF assms]
  have image: "{w. conn_ah (conns pt w) \<noteq> None} = ?f ` held_slots pt"
  proof (intro set_eqI iffI)
    fix w
    assume "w \<in> {w. conn_ah (conns pt w) \<noteq> None}"
    then obtain i where "conn_ah (conns pt w) = Some i" by auto
    then have "i \<in> held_slots pt" "?f i = w" by (auto simp: own held_slots_def)
    then show "w \<in> ?f ` held_slots pt" by blast
  next
    fix w
    assume "w \<in> ?f ` held_slots pt"
    then obtain i where "i < length (ah_pool pt)" "ah_owner (ah_pool pt ! i) = Some w" by (auto simp: held_slots_def)
    then have "conn_ah (conns pt w) = Some i" by (simp add: own)
    then show "w \<in> {w. conn_ah (conns pt w) \<noteq> None}" by simp
  qed
  have "inj_on ?f (held_slots pt)"
  proof (rule inj_onI)
    fix i j
    assume "i \<in> held_slots pt" "j \<in> held_slots pt" "?f i = ?f j"
    then have "conn_ah (conns pt (?f i)) = Some i" "conn_ah (conns pt (?f i)) = Some j" by (auto simp: own held_slots_def)
    then show "i = j" by simp
  qed
  then show "card {w. conn_ah (conns pt w) \<noteq> None} = ah_count_in_use pt" 
    using assms unfolding image card_image [OF \<open>inj_on ?f (held_slots pt)\<close>] by (simp add: pool_inv_def)
  show "finite {w. conn_ah (conns pt w) \<noteq> None}" unfolding image by simp
qed

lemma first_free_spec:
  "first_free ss \<le> length ss \<and> (\<forall>i < first_free ss. ah_in_use (ss ! i)) \<and> (first_free ss < length ss \<longrightarrow> \<not> ah_in_use (ss ! first_free ss))"
  by (induction ss) (auto simp: nth_Cons split: nat.splits)

lemma free_slot:
  assumes "pool_inv env pt" and "ah_count_in_use pt < max_http_header_pool env"
  shows "first_free (ah_pool pt) < length (ah_pool pt) \<and> \<not> ah_in_use (ah_pool pt ! first_free (ah_pool pt))"
proof (rule ccontr)
  assume "\<not> ?thesis"
  then have "\<forall>i < length (ah_pool pt). ah_in_use (ah_pool pt ! i)" using first_free_spec [of "ah_pool pt"] by force
  then have "held_slots pt = {..<length (ah_pool pt)}" using in_use_iff [OF assms(1)] unfolding held_slots_def by blast
  then show False using assms by (simp add: pool_inv_def)
qed

lemma count_le: "pool_inv env pt \<Longrightarrow> ah_count_in_use pt \<le> max_http_header_pool env"
  using card_mono [of "{..<length (ah_pool pt)}" "held_slots pt"] by (auto simp: pool_inv_def held_slots_def)

subsection \<open>Attaching\<close>

lemma enqueue_inv:
  assumes "pool_inv env pt" and "conn_ah (conns pt w) = None" "w \<notin> set (ah_wait_list pt)" "ah_count_in_use pt = max_http_header_pool env"
  shows "pool_inv env (pt\<lparr>ah_wait_list := w # ah_wait_list pt, ah_wait_list_length := ah_wait_list_length pt + 1\<rparr>)"
  using assms by (simp add: pool_inv_def)

definition taken :: "nat \<Rightarrow> nat \<Rightarrow> ah_pt \<Rightarrow> ah_pt" where
  "taken n w pt = pt\<lparr>conns := (conns pt)(w := (conns pt w)\<lparr>conn_ah := Some n\<rparr>),
     ah_pool := (ah_pool pt)[n := (ah_pool pt ! n)\<lparr>ah_in_use := True, ah_owner := Some w\<rparr>],
     ah_count_in_use := ah_count_in_use pt + 1\<rparr>"

lemma taken_inv:
  assumes "pool_inv env pt" and "conn_ah (conns pt w) = None" "ah_count_in_use pt < max_http_header_pool env"
    and "n < length (ah_pool pt)" "\<not> ah_in_use (ah_pool pt ! n)"
  shows "pool_inv env (taken n w pt)"
proof -
  have free: "ah_owner (ah_pool pt ! n) = None" "n \<notin> held_slots pt" using in_use_iff [OF assms(1,4)] assms(5) by (auto simp: held_slots_def)
  have "held_slots (taken n w pt) = insert n (held_slots pt)"
    using assms(4) by (auto simp: held_slots_def taken_def nth_list_update split: if_splits)
  then have "card (held_slots (taken n w pt)) = card (held_slots pt) + 1" using free(2) by simp
  then have count: "ah_count_in_use (taken n w pt) = card (held_slots (taken n w pt))"
    using assms(1) by (simp add: pool_inv_def taken_def)
  note own = owns_iff [OF assms(1)] and used = in_use_iff [OF assms(1)]
  have "conn_ah (conns (taken n w pt) v) = Some i \<longleftrightarrow>
      i < length (ah_pool (taken n w pt)) \<and> ah_owner (ah_pool (taken n w pt) ! i) = Some v" for v i
    using own [of v i] assms(2,4) free(1) by (cases "v = w"; cases "i = n") (auto simp: taken_def)
  moreover have "ah_in_use (ah_pool (taken n w pt) ! i) \<longleftrightarrow> ah_owner (ah_pool (taken n w pt) ! i) \<noteq> None"
    if "i < length (ah_pool (taken n w pt))" for i
    using that used [of i] by (cases "i = n") (auto simp: taken_def)
  ultimately have "owners_ok (taken n w pt)" unfolding owners_ok_def by blast
  moreover have "ah_wait_list (taken n w pt) = []" "ah_wait_list_length (taken n w pt) = 0"
    "length (ah_pool (taken n w pt)) = max_http_header_pool env"
    using assms(1,3) by (auto simp: pool_inv_def taken_def)
  ultimately show ?thesis using count unfolding pool_inv_def by simp
qed

lemma attach_refines:
  assumes inv: "pool_inv env pt" and plain: "plain_conns pt"
  shows "\<exists>r pt'. lws_header_table_attach env a w pt = Some (r, pt') \<and> pool_inv env pt' \<and> plain_conns pt' \<and>
     (r, pool_abs pt') = spec_attach (max_http_header_pool env) w (pool_abs pt)"
proof (cases "conn_ah (conns pt w)")
  case (Some i)
  then have "i < length (ah_pool pt)" "ah_owner (ah_pool pt ! i) = Some w" using owns_iff [OF inv] by simp_all
  then obtain pt' where "attach_reset env a w pt = Some (0, pt')" "same_shape pt pt'"
    using attach_reset_plain [OF plain Some] by blast
  then show ?thesis
    using Some inv plain same_shape_inv same_shape_abs by (auto simp: lws_header_table_attach_def spec_attach_def pool_abs_def)
next
  case None
  note count = card_holders(1) [OF inv]
  show ?thesis
  proof (cases "ah_count_in_use pt = max_http_header_pool env")
    case full: True
    show ?thesis
    proof (cases "w \<in> set (ah_wait_list pt)")
      case True
      then show ?thesis using None full inv plain count by (simp add: lws_header_table_attach_def spec_attach_def pool_abs_def)
    next
      case False
      let ?pt = "pt\<lparr>ah_wait_list := w # ah_wait_list pt, ah_wait_list_length := ah_wait_list_length pt + 1\<rparr>"
      have same: "same_shape ?pt (change_pollin False w ?pt)" by (rule change_pollin_shape)
      have "pool_inv env (change_pollin False w ?pt)"
        using same_shape_inv [OF same] enqueue_inv [OF inv None False full] by simp
      then show ?thesis
        using None full False plain count same_shape_abs [OF same]
        by (simp add: lws_header_table_attach_def spec_attach_def pool_abs_def plain_conns_def)
    qed
  next
    case False
    then have room: "ah_count_in_use pt < max_http_header_pool env" using count_le [OF inv] by simp
    let ?n = "first_free (ah_pool pt)"
    have n: "?n < length (ah_pool pt)" "\<not> ah_in_use (ah_pool pt ! ?n)" using free_slot [OF inv room] by simp_all
    have len: "length (ah_pool pt) = max_http_header_pool env" "ah_wait_list pt = []"
      using inv room by (auto simp: pool_inv_def)
    let ?pt = "change_pollin True w (taken ?n w pt)"
    have same: "same_shape (taken ?n w pt) ?pt" by (rule change_pollin_shape)
    have inv': "pool_inv env ?pt" using same_shape_inv [OF same taken_inv [OF inv None room n]] .
    have abs: "pool_abs ?pt = (insert w {w. conn_ah (conns pt w) \<noteq> None}, [])" and plain': "plain_conns ?pt"
      using same_shape_abs [OF same] plain len by (auto simp: pool_abs_def taken_def plain_conns_def)
    have mine: "conn_ah (conns ?pt w) = Some ?n" by (simp add: change_pollin_def upd_conn_def taken_def)
    then have "?n < length (ah_pool ?pt)" "ah_owner (ah_pool ?pt ! ?n) = Some w" using owns_iff [OF inv'] by blast+
    then obtain pt' where ready: "attach_reset env a w ?pt = Some (0, pt')" "same_shape ?pt pt'"
      using attach_reset_plain [OF plain' mine] by blast
    have "lws_header_table_attach env a w pt = attach_reset env a w ?pt"
      using None False n len by (simp add: lws_header_table_attach_def Let_def upd_slot_def upd_conn_def assert_opt_def taken_def)
    then show ?thesis
      using ready same_shape_inv [OF ready(2) inv'] same_shape_abs [OF ready(2)] abs plain' None room count len
      by (auto simp: spec_attach_def pool_abs_def)
  qed
qed

subsection \<open>Detaching\<close>

lemma unlink_last: "distinct (xs @ [w]) \<Longrightarrow> unlink_at (last_link (xs @ [w])) w (xs @ [w]) = xs"
proof (cases xs rule: rev_cases)
  case (snoc ys v)
  assume "distinct (xs @ [w])"
  then have d: "v \<noteq> w" "v \<notin> set ys" "w \<notin> set ys" using snoc by auto
  have "takeWhile (\<lambda>x. x \<noteq> v) (ys @ v # [w]) = ys" using d by (subst takeWhile_append2) auto
  moreover have "dropWhile (\<lambda>x. x \<noteq> w) (ys @ [v, w]) = [w]" using d by (subst dropWhile_append2) auto
  ultimately show ?thesis using d snoc by (auto simp: unlink_at_def last_link_def butlast_append)
qed (simp add: unlink_at_def last_link_def)

lemma dequeue_inv:
  assumes "pool_inv env pt" and "w \<in> set (ah_wait_list pt)"
  shows "pool_inv env (pt\<lparr>ah_wait_list := remove1 w (ah_wait_list pt), ah_wait_list_length := ah_wait_list_length pt - 1\<rparr>)"
proof -
  have "length (ah_wait_list pt) \<noteq> 0" using assms(2) by auto
  then show ?thesis
    using assms by (auto simp: pool_inv_def length_remove1 of_nat_diff Suc_le_eq dest: notin_set_remove1 in_set_remove1 [THEN iffD1, rotated])
qed

text \<open>The table \<open>i\<close> of \<open>w\<close>, taken back.\<close>

definition released :: "nat \<Rightarrow> nat \<Rightarrow> ah_pt \<Rightarrow> ah_pt" where
  "released i w pt = pt\<lparr>conns := (conns pt)(w := (conns pt w)\<lparr>conn_ah := None\<rparr>),
     ah_pool := (ah_pool pt)[i := (ah_pool pt ! i)\<lparr>ah_assigned := 0, ah_owner := None, ah_in_use := False\<rparr>],
     ah_count_in_use := ah_count_in_use pt - 1\<rparr>"

lemma released_inv:
  assumes inv: "pool_inv env pt" and mine: "conn_ah (conns pt w) = Some i" and "ah_wait_list pt = []"
  shows "pool_inv env (released i w pt)"
proof -
  note own = owns_iff [OF inv] and used = in_use_iff [OF inv]
  have i: "i < length (ah_pool pt)" "ah_owner (ah_pool pt ! i) = Some w" using own mine by simp_all
  then have "i \<in> held_slots pt" by (simp add: held_slots_def)
  moreover have "j \<in> held_slots (released i w pt) \<longleftrightarrow> j \<in> held_slots pt - {i}" for j
    by (cases "j = i") (simp_all add: held_slots_def released_def)
  then have "held_slots (released i w pt) = held_slots pt - {i}" by blast
  ultimately have count: "ah_count_in_use (released i w pt) = card (held_slots (released i w pt))"
    using inv by (simp add: pool_inv_def released_def)
  have "conn_ah (conns (released i w pt) v) = Some j \<longleftrightarrow>
      j < length (ah_pool (released i w pt)) \<and> ah_owner (ah_pool (released i w pt) ! j) = Some v" for v j
    using own [of v j] i mine by (cases "v = w"; cases "j = i") (auto simp: released_def)
  moreover have "ah_in_use (ah_pool (released i w pt) ! j) \<longleftrightarrow> ah_owner (ah_pool (released i w pt) ! j) \<noteq> None"
    if "j < length (ah_pool (released i w pt))" for j
    using that used [of j] by (cases "j = i") (auto simp: released_def)
  ultimately have "owners_ok (released i w pt)" unfolding owners_ok_def by blast
  then show ?thesis using count inv assms(3) by (simp add: pool_inv_def released_def)
qed

text \<open>The table \<open>i\<close> of \<open>w\<close>, given to \<open>x\<close>.\<close>

definition handed :: "nat \<Rightarrow> nat \<Rightarrow> nat \<Rightarrow> ah_pt \<Rightarrow> ah_pt" where
  "handed i w x pt = pt\<lparr>conns := (conns pt)(w := (conns pt w)\<lparr>conn_ah := None\<rparr>, x := (conns pt x)\<lparr>conn_ah := Some i\<rparr>),
     ah_pool := (ah_pool pt)[i := (ah_pool pt ! i)\<lparr>ah_assigned := 0, ah_owner := Some x\<rparr>]\<rparr>"

lemma handed_inv:
  assumes inv: "pool_inv env pt" and mine: "conn_ah (conns pt w) = Some i" and wait: "ah_wait_list pt = ws @ [x]"
  shows "pool_inv env ((handed i w x pt)\<lparr>ah_wait_list := ws, ah_wait_list_length := int (length ws)\<rparr>)"
proof -
  note own = owns_iff [OF inv] and used = in_use_iff [OF inv]
  have i: "i < length (ah_pool pt)" "ah_owner (ah_pool pt ! i) = Some w" using own mine by simp_all
  have x: "conn_ah (conns pt x) = None" "x \<noteq> w" "x \<notin> set ws" "distinct ws" "w \<notin> set ws"
    using inv wait mine by (auto simp: pool_inv_def)
  have "held_slots (handed i w x pt) = held_slots pt"
    using i by (auto simp: held_slots_def handed_def nth_list_update split: if_splits)
  then have count: "ah_count_in_use (handed i w x pt) = card (held_slots (handed i w x pt))"
    using inv by (simp add: pool_inv_def handed_def)
  have "conn_ah (conns (handed i w x pt) v) = Some j \<longleftrightarrow>
      j < length (ah_pool (handed i w x pt)) \<and> ah_owner (ah_pool (handed i w x pt) ! j) = Some v" for v j
    using own [of v j] i mine x(1,2) by (cases "v = w"; cases "v = x"; cases "j = i") (auto simp: handed_def)
  moreover have "ah_in_use (ah_pool (handed i w x pt) ! j) \<longleftrightarrow> ah_owner (ah_pool (handed i w x pt) ! j) \<noteq> None"
    if "j < length (ah_pool (handed i w x pt))" for j
    using that used [of j] i by (cases "j = i") (auto simp: handed_def)
  ultimately have "owners_ok (handed i w x pt)" unfolding owners_ok_def by blast
  moreover have "conn_ah (conns (handed i w x pt) v) = None" if "v \<in> set ws" for v
    using that inv wait x by (auto simp: pool_inv_def handed_def)
  ultimately show ?thesis using count inv wait x by (simp add: pool_inv_def handed_def)
qed

lemma give_to_oldest_ok:
  assumes inv: "pool_inv env pt" and plain: "plain_conns pt" and mine: "conn_ah (conns pt w) = Some i"
    and wait: "ah_wait_list pt = ws @ [x]"
    and given: "pt1 = pt\<lparr>conns := (conns pt)(w := (conns pt w)\<lparr>conn_ah := None\<rparr>),
      ah_pool := (ah_pool pt)[i := (ah_pool pt ! i)\<lparr>ah_assigned := 0, ah_owner := None\<rparr>]\<rparr>"
  shows "\<exists>pt'. give_to_oldest env a i pt1 = Some (0, pt') \<and> pool_inv env pt' \<and> plain_conns pt' \<and>
    pool_abs pt' = (insert x ({v. conn_ah (conns pt v) \<noteq> None} - {w}), ws)"
proof -
  have i: "i < length (ah_pool pt)" using owns_iff [OF inv] mine by simp
  have x: "conn_ah (conns pt x) = None" "x \<noteq> w" "distinct (ws @ [x])"
    using inv wait mine by (auto simp: pool_inv_def)
  let ?h = "handed i w x pt"
  have h: "plain_conns ?h" "conn_ah (conns ?h x) = Some i" "i < length (ah_pool ?h)" "ah_owner (ah_pool ?h ! i) = Some x"
    using plain i by (simp_all add: handed_def plain_conns_def)
  obtain p q r where run: "clear_rx i ?h = Some p" "header_table_reset env a x p = Some q" "stamp_assigned env x q = Some r" "same_shape ?h r"
    using table_ready [OF h] by blast
  let ?in = "if conn_in_fds (conns r x) then change_pollin True x r else r"
  have "same_shape r ?in" using change_pollin_shape by simp
  then have shape: "same_shape ?h ?in" using run(4) same_shape_trans by blast
  let ?f = "\<lambda>pt. pt\<lparr>ah_wait_list := ws, ah_wait_list_length := int (length ws)\<rparr>"
  have final: "same_shape (?f ?h) (?f ?in)" using shape by (simp add: same_shape_def)
  have list: "ah_wait_list ?in = ws @ [x]" "ah_wait_list_length ?in - 1 = int (length ws)"
    using shape inv wait by (simp_all add: same_shape_def handed_def pool_inv_def)
  have client: "\<not> client_unconnected (conns (?f ?in) x)" using same_shape_abs [OF final] h(1) by (auto simp: plain_conns_def)
  have start: "upd_slot i (\<lambda>s. s\<lparr>ah_owner := Some x\<rparr>) (upd_conn x (conn_ah_update (\<lambda>_. Some i)) pt1) = Some ?h"
    using i x(2) given by (simp add: upd_slot_def upd_conn_def handed_def)
  have old: "last (ah_wait_list pt1) = x" "last_link (ah_wait_list pt1) = last_link (ws @ [x])" using given wait by simp_all
  have "give_to_oldest env a i pt1 = Some (0, ?f ?in)"
    unfolding give_to_oldest_def Let_def old start run Option.bind.simps list unlink_last [OF x(3)]
    using client by (simp add: connect_client_def assert_opt_def)
  moreover have "pool_inv env (?f ?in)" using same_shape_inv [OF final handed_inv [OF inv mine wait]] .
  moreover have "plain_conns (?f ?in)" "pool_abs (?f ?in) = (insert x ({v. conn_ah (conns pt v) \<noteq> None} - {w}), ws)"
    using same_shape_abs [OF final] h(1) x(2) by (auto simp: plain_conns_def pool_abs_def handed_def)
  ultimately show ?thesis by blast
qed

text \<open>What is left in the receive buffer of \<open>w\<close>'s table.\<close>

definition rx_done :: "nat \<Rightarrow> ah_pt \<Rightarrow> bool" where
  "rx_done w pt \<longleftrightarrow> (\<forall>i. conn_ah (conns pt w) = Some i \<longrightarrow> ah_rxpos (ah_pool pt ! i) = ah_rxlen (ah_pool pt ! i))"

lemma detach_refines:
  assumes inv: "pool_inv env pt" and plain: "plain_conns pt" and rx: "rx_done w pt"
  shows "\<exists>pt'. lws_header_table_detach env a w pt = Some (0, pt') \<and> pool_inv env pt' \<and> plain_conns pt' \<and>
     pool_abs pt' = spec_detach w (pool_abs pt)"
proof -
  have "preamble_rx (conns pt w) = None" using plain by (simp add: plain_conns_def)
  then have "(conns pt)(w := preamble_rx_update (\<lambda>_. None) (conns pt w)) = conns pt" by (intro ext) simp
  then have no_preamble: "upd_conn w (preamble_rx_update (\<lambda>_. None)) pt = pt" by (simp add: upd_conn_def)
  show ?thesis
  proof (cases "conn_ah (conns pt w)")
    case None
    let ?pt = "pt\<lparr>ah_wait_list := remove1 w (ah_wait_list pt), ah_wait_list_length := ah_wait_list_length pt - 1\<rparr>"
    have "plain_conns ?pt" using plain by (simp add: plain_conns_def)
    then show ?thesis
      using None dequeue_inv [OF inv, of w] inv plain
      by (auto simp: lws_header_table_detach_def no_preamble pool_abs_def spec_detach_def remove1_idem)
  next
    case (Some i)
    have i: "i < length (ah_pool pt)" "ah_owner (ah_pool pt ! i) = Some w" using owns_iff [OF inv] Some by simp_all
    then have used: "ah_in_use (ah_pool pt ! i)" using in_use_iff [OF inv] by simp
    have "i \<in> held_slots pt" using i by (simp add: held_slots_def)
    then have "0 < ah_count_in_use pt" using inv card_gt_0_iff [of "held_slots pt"] by (auto simp: pool_inv_def)
    note facts = i used this rx Some
    show ?thesis
    proof (cases "ah_wait_list pt" rule: rev_cases)
      case Nil
      have "lws_header_table_detach env a w pt = Some (0, released i w pt)"
        using facts Nil unfolding lws_header_table_detach_def Let_def no_preamble
        by (simp add: rx_done_def upd_slot_def upd_conn_def assert_opt_def released_def)
      moreover have "plain_conns (released i w pt)" "pool_abs (released i w pt) = spec_detach w (pool_abs pt)"
        using plain Nil Some by (auto simp: released_def plain_conns_def pool_abs_def spec_detach_def)
      ultimately show ?thesis using released_inv [OF inv Some Nil] by blast
    next
      case (snoc ws x)
      let ?pt = "pt\<lparr>conns := (conns pt)(w := (conns pt w)\<lparr>conn_ah := None\<rparr>),
        ah_pool := (ah_pool pt)[i := (ah_pool pt ! i)\<lparr>ah_assigned := 0, ah_owner := None\<rparr>]\<rparr>"
      have "lws_header_table_detach env a w pt = give_to_oldest env a i ?pt"
        using facts snoc unfolding lws_header_table_detach_def Let_def no_preamble
        by (simp add: rx_done_def upd_slot_def upd_conn_def assert_opt_def)
      then show ?thesis
        using give_to_oldest_ok [OF inv plain Some snoc refl] Some snoc by (auto simp: pool_abs_def spec_detach_def)
    qed
  qed
qed

subsection \<open>Runs of the pool\<close>

datatype ah_event = Attach nat | Detach nat | Read nat

text \<open>
  What connections do with the pool, in any order: ask for a table, read into it (\<^verbatim>\<open>lws_server_socket_service\<close>),
  and give it back when everything read has been used.
\<close>

inductive ah_step :: "ah_env \<Rightarrow> ah_pt \<Rightarrow> ah_event \<Rightarrow> ah_pt \<Rightarrow> bool" for env where
  attach: "lws_header_table_attach env a w pt = Some (r, pt') \<Longrightarrow> ah_step env pt (Attach w) pt'"
| detach: "rx_done w pt \<Longrightarrow> lws_header_table_detach env a w pt = Some (r, pt') \<Longrightarrow> ah_step env pt (Detach w) pt'"
| read: "conn_ah (conns pt w) = Some i \<Longrightarrow> p \<le> n \<Longrightarrow> n \<le> 2048 \<Longrightarrow>
     upd_slot i (\<lambda>s. s\<lparr>ah_rxpos := p, ah_rxlen := n\<rparr>) pt = Some pt' \<Longrightarrow> ah_step env pt (Read w) pt'"

inductive ah_runs :: "ah_env \<Rightarrow> ah_pt \<Rightarrow> ah_event list \<Rightarrow> ah_pt \<Rightarrow> bool" for env where
  stop: "ah_runs env pt [] pt"
| go: "ah_step env pt e pt1 \<Longrightarrow> ah_runs env pt1 es pt' \<Longrightarrow> ah_runs env pt (e # es) pt'"

inductive_cases stepE: "ah_step env pt e pt'"
inductive_cases runs_ConsE: "ah_runs env pt (e # es) pt'"
inductive_simps runs_Nil [simp]: "ah_runs env pt [] pt'"

fun spec_step :: "nat \<Rightarrow> ah_event \<Rightarrow> pool_spec \<Rightarrow> pool_spec" where
  "spec_step n (Attach w) p = snd (spec_attach n w p)"
| "spec_step n (Detach w) p = spec_detach w p"
| "spec_step n (Read w) p = p"

definition good_pool :: "ah_env \<Rightarrow> ah_pt \<Rightarrow> bool" where
  "good_pool env pt \<longleftrightarrow> pool_inv env pt \<and> plain_conns pt"

lemma step_refines:
  assumes "ah_step env pt e pt'" and "good_pool env pt"
  shows "good_pool env pt' \<and> pool_abs pt' = spec_step (max_http_header_pool env) e (pool_abs pt)"
  using assms(1)
proof (cases rule: ah_step.cases)
  case (attach a w r)
  then show ?thesis
    using attach_refines [of env pt a w] assms(2) by (auto simp: good_pool_def) (metis snd_conv)
next
  case (detach w a r)
  then show ?thesis using detach_refines [of env pt w a] assms(2) by (auto simp: good_pool_def)
next
  case (read w i p n)
  then have "same_shape pt pt'" by (auto simp: upd_slot_def same_shape_def nth_list_update split: if_splits)
  then show ?thesis
    using assms(2) same_shape_inv same_shape_abs read(1) by (auto simp: good_pool_def)
qed

lemma runs_refine:
  "ah_runs env pt es pt' \<Longrightarrow> good_pool env pt \<Longrightarrow>
     good_pool env pt' \<and> pool_abs pt' = fold (spec_step (max_http_header_pool env)) es (pool_abs pt)"
  by (induction rule: ah_runs.induct) (auto dest: step_refines)

text \<open>The pool as the context creates it, for connections that have no table yet.\<close>

definition empty_slot :: ah_slot where
  "empty_slot = \<lparr>ah_owner = None, ah_in_use = False, ah_assigned = 0, slot_index = replicate 86 0, slot_nfrag = 0,
     slot_pos = 0, ah_rx = replicate 2048 0, ah_rxpos = 0, ah_rxlen = 0\<rparr>"

definition fresh_conn :: ah_conn where
  "fresh_conn = \<lparr>conn_ah = None, preamble_rx = None, conn_in_fds = True, conn_pollin = True, client_unconnected = False\<rparr>"

definition fresh_pool :: "nat \<Rightarrow> ah_pt" where
  "fresh_pool n = \<lparr>ah_pool = replicate n empty_slot, ah_count_in_use = 0, ah_wait_list = [], ah_wait_list_length = 0,
     conns = \<lambda>_. fresh_conn\<rparr>"

lemma fresh_pool_good: "good_pool env (fresh_pool (max_http_header_pool env))"
  by (auto simp: good_pool_def pool_inv_def owners_ok_def plain_conns_def fresh_pool_def empty_slot_def fresh_conn_def held_slots_def)


subsection \<open>Waiting comes to an end\<close>

text \<open>How often a holder gives its table back in a run.\<close>

fun releases :: "nat \<Rightarrow> ah_event list \<Rightarrow> pool_spec \<Rightarrow> nat" where
  "releases n [] p = 0"
| "releases n (e # es) p =
     (case e of Detach v \<Rightarrow> if v \<in> fst p then 1 else 0 | _ \<Rightarrow> 0) + releases n es (spec_step n e p)"

lemma queue_facts:
  assumes "good_pool env pt" and "ah_wait_list pt = newer @ w # older"
  shows "conn_ah (conns pt w) = None" and "card {w. conn_ah (conns pt w) \<noteq> None} = max_http_header_pool env" and "distinct (newer @ w # older)"
  using assms card_holders(1) [of env pt] by (auto simp: good_pool_def pool_inv_def)

text \<open>A step of others keeps the place of a waiting connection, and a release takes it one place on or serves it.\<close>

lemma place_step:
  assumes good: "good_pool env pt" and wait: "ah_wait_list pt = newer @ w # older" and e: "e \<noteq> Detach w" and step: "ah_step env pt e pt'"
  shows "(\<exists>newer' older'. ah_wait_list pt' = newer' @ w # older' \<and> length older' +
        (case e of Detach v \<Rightarrow> if conn_ah (conns pt v) \<noteq> None then 1 else 0 | _ \<Rightarrow> 0) \<le> length older) \<or>
     conn_ah (conns pt' w) \<noteq> None"
proof -
  let ?held = "{v. conn_ah (conns pt v) \<noteq> None}"
  note facts = queue_facts [OF good wait]
  have abs: "pool_abs pt' = spec_step (max_http_header_pool env) e (?held, newer @ w # older)"
    using step_refines [OF step good] wait by (simp add: pool_abs_def)
  have list: "ah_wait_list pt' = snd (spec_step (max_http_header_pool env) e (?held, newer @ w # older))" 
    and held: "{v. conn_ah (conns pt' v) \<noteq> None} = fst (spec_step (max_http_header_pool env) e (?held, newer @ w # older))"
    unfolding abs [symmetric] by (simp_all add: pool_abs_def)
  show ?thesis
  proof (cases e)
    case (Attach v)
    have "ah_wait_list pt' \<in> {newer @ w # older, (v # newer) @ w # older}"
      unfolding list Attach using facts(2) by (simp add: spec_attach_def)
    then show ?thesis using Attach by (metis (no_types, lifting) add_0_right ah_event.simps(10) insertE order_refl singletonD)
  next
    case (Read v)
    then show ?thesis using list by auto
  next
    case (Detach v)
    have v: "v \<noteq> w" using e Detach by simp
    show ?thesis
    proof (cases "conn_ah (conns pt v) = None")
      case True
      have "ah_wait_list pt' = remove1 v (newer @ w # older)" unfolding list Detach using True by (simp add: spec_detach_def)
      then have "ah_wait_list pt' = (if v \<in> set newer then remove1 v newer @ w # older else newer @ w # remove1 v older)"
        using v by (simp add: remove1_append)
      moreover have "length (remove1 v older) \<le> length older" by (simp add: length_remove1)
      ultimately have "\<exists>newer' older'. ah_wait_list pt' = newer' @ w # older' \<and> length older' \<le> length older"
        by (cases "v \<in> set newer") fastforce+
      then show ?thesis using Detach True by simp
    next
      case release: False
      show ?thesis
      proof (cases older rule: rev_cases)
        case Nil
        have "w \<in> {v. conn_ah (conns pt' v) \<noteq> None}" unfolding held Detach using release Nil by (simp add: spec_detach_def)
        then show ?thesis by simp
      next
        case (snoc older' x)
        have "ah_wait_list pt' = newer @ w # older'" unfolding list Detach using release snoc by (simp add: spec_detach_def butlast_append)
        then show ?thesis using Detach release snoc by auto
      qed
    qed
  qed
qed

lemma waiter_served:
  "ah_runs env pt es pt' \<Longrightarrow> good_pool env pt \<Longrightarrow> ah_wait_list pt = newer @ w # older \<Longrightarrow> Detach w \<notin> set es \<Longrightarrow>
     length older < releases (max_http_header_pool env) es (pool_abs pt) \<Longrightarrow>
     \<exists>es1 es2 pt1. es = es1 @ es2 \<and> ah_runs env pt es1 pt1 \<and> conn_ah (conns pt1 w) \<noteq> None"
proof (induction arbitrary: newer older rule: ah_runs.induct)
  case (stop pt)
  then show ?case by simp
next
  case (go pt e pt1 es pt')
  note step = place_step [OF go.prems(1,2) _ go.hyps(1)]
  have e: "e \<noteq> Detach w" "Detach w \<notin> set es" using go.prems(3) by auto
  have good1: "good_pool env pt1" and abs1: "pool_abs pt1 = spec_step (max_http_header_pool env) e (pool_abs pt)"
    using step_refines [OF go.hyps(1) go.prems(1)] by simp_all
  show ?case
  proof (cases "conn_ah (conns pt1 w) = None")
    case False
    have "ah_runs env pt [e] pt1" using go.hyps(1) by (auto intro: ah_runs.intros)
    then show ?thesis using False by (metis append_Cons append_Nil)
  next
    case True
    then obtain newer' older' where place: "ah_wait_list pt1 = newer' @ w # older'"
      "length older' + (case e of Detach v \<Rightarrow> if conn_ah (conns pt v) \<noteq> None then 1 else 0 | _ \<Rightarrow> 0) \<le> length older"
      using step [OF e(1)] by blast
    have "length older' < releases (max_http_header_pool env) es (pool_abs pt1)"
      using place(2) go.prems(4) unfolding abs1 by (cases e) (auto simp: pool_abs_def split: if_splits)
    then obtain es1 es2 pt2 where "es = es1 @ es2" "ah_runs env pt1 es1 pt2" "conn_ah (conns pt2 w) \<noteq> None"
      using go.IH [OF good1 place(1) e(2)] by blast
    then show ?thesis using go.hyps(1) by (metis ah_runs.go append_Cons)
  qed
qed

text \<open>C26: No connection waits for ever. A connection in the queue, with \<open>k\<close> connections that came before it, has been given a
  table by the time that holders have given back \<open>k + 1\<close> tables, whatever else attaches, leaves the queue or reads in the
  meantime, unless it leaves the queue itself.\<close>

theorem waiting_ends:
  assumes "ah_runs env (fresh_pool (max_http_header_pool env)) es0 pt" and "ah_wait_list pt = newer @ w # older"
    and "ah_runs env pt es pt'" "Detach w \<notin> set es" and "length older < releases (max_http_header_pool env) es (pool_abs pt)"
  shows "\<exists>es1 es2 pt1. es = es1 @ es2 \<and> ah_runs env pt es1 pt1 \<and> conn_ah (conns pt1 w) \<noteq> None"
proof -
  have "good_pool env pt" using runs_refine [OF assms(1) fresh_pool_good] by simp
  then show ?thesis using waiter_served [OF assms(3) _ assms(2,4,5)] by blast
qed

text \<open>A server's environment to evaluate in, and two connections on a pool of one table.\<close>

definition plain_ah_env :: "nat \<Rightarrow> ah_env" where
  "plain_ah_env n = \<lparr>max_http_header_pool = n, clock = \<lambda>_. 0, service_fd = \<lambda>_ pt. pt, connect_via_info2 = \<lambda>_ pt. (True, pt)\<rparr>"

definition one_waits :: "byte list option \<Rightarrow> ah_pt" where
  "one_waits preamble = \<lparr>ah_pool = [empty_slot\<lparr>ah_owner := Some 0, ah_in_use := True\<rparr>], ah_count_in_use = 1, ah_wait_list = [1],
     ah_wait_list_length = 1, conns = (\<lambda>_. fresh_conn)(0 := fresh_conn\<lparr>conn_ah := Some 0\<rparr>,
       1 := fresh_conn\<lparr>preamble_rx := preamble, conn_pollin := False\<rparr>)\<rparr>"

lemmas ah_eval = lws_header_table_attach_def attach_reset_def lws_header_table_detach_def give_to_oldest_def clear_rx_def
  header_table_reset_def stamp_assigned_def connect_client_def upd_slot_def upd_conn_def change_pollin_def assert_opt_def
  plain_ah_env_def fresh_pool_def fresh_conn_def empty_slot_def one_waits_def unlink_at_def last_link_def

lemma two_attach: "ah_runs (plain_ah_env 1) (fresh_pool (max_http_header_pool (plain_ah_env 1))) [Attach 0, Attach 1] (one_waits None)"
proof (rule ah_runs.go [OF ah_step.attach ah_runs.go [OF ah_step.attach ah_runs.stop]])
  let ?pt = "(one_waits None)\<lparr>ah_wait_list := [], ah_wait_list_length := 0, conns := (\<lambda>_. fresh_conn)(0 := fresh_conn\<lparr>conn_ah := Some 0\<rparr>)\<rparr>"
  show "lws_header_table_attach (plain_ah_env 1) False 0 (fresh_pool (max_http_header_pool (plain_ah_env 1))) = Some (0, ?pt)"
    by (simp add: ah_eval)
  show "lws_header_table_attach (plain_ah_env 1) False 1 ?pt = Some (1, one_waits None)" by (simp add: ah_eval)
qed


theorem waiting_ends_witness:
  "\<exists>pt' es1 es2 pt1. ah_runs (plain_ah_env 1) (one_waits None) [Detach 0] pt' \<and> [Detach 0] = es1 @ es2 \<and>
     ah_runs (plain_ah_env 1) (one_waits None) es1 pt1 \<and> conn_ah (conns pt1 1) \<noteq> None"
proof -
  have "rx_done 0 (one_waits None)" by (simp add: rx_done_def ah_eval)
  moreover have "\<exists>r pt'. lws_header_table_detach (plain_ah_env 1) True 0 (one_waits None) = Some (r, pt')"
    by (simp add: ah_eval)
  ultimately obtain pt' where run: "ah_runs (plain_ah_env 1) (one_waits None) [Detach 0] pt'"
    by (meson ah_runs.intros ah_step.detach)
  have "ah_wait_list (one_waits None) = [] @ 1 # []" by (simp add: one_waits_def)
  from waiting_ends [OF two_attach this run] run show ?thesis
    by (simp add: pool_abs_def one_waits_def fresh_conn_def) blast
qed

text \<open>Giving a table to a connection that was adopted with its request already read fails an assertion. The connection
  is still in the queue while the request is served from inside of the call; when the request is complete the connection
  gives the table back, is found to be the oldest in the queue, gets it again and is taken off the queue; then the
  outer call takes it off once more, and the length of the queue becomes -1.\<close>

lemma adopted_waiter_faults:
  "lws_header_table_detach
     ((plain_ah_env 1)\<lparr>service_fd := \<lambda>w pt. case upd_slot 0 (\<lambda>s. s\<lparr>ah_rxpos := ah_rxlen s\<rparr>) pt of None \<Rightarrow> pt
        | Some pt \<Rightarrow> (case lws_header_table_detach (plain_ah_env 1) True w pt of None \<Rightarrow> pt | Some (r, pt) \<Rightarrow> pt)\<rparr>)
     True 0 (one_waits (Some [0x47])) = None"
  by (simp add: ah_eval)

end
