(* ===== verification/Http_Uri.thy ===== *)
theory Http_Uri
  imports Http_Header "HOL-Library.Sublist"
begin

text \<open>
  The clean-up of the request URI: what \<^verbatim>\<open>lws_parse\<close> stores for the URI of a request has no \<^verbatim>\<open>/../\<close> in
  it and does not end in \<^verbatim>\<open>/..\<close>, so it does not lead out of the directory it is looked up in; and
  the inputs for which this is not so.
\<close>

subsection \<open>Paths without parent directories\<close>

abbreviation "slash \<equiv> 0x2f :: byte"
abbreviation "dot \<equiv> 0x2e :: byte"
abbreviation "qmark \<equiv> 0x3f :: byte"

definition clean :: "byte list \<Rightarrow> bool" where
  "clean t \<longleftrightarrow> \<not> sublist [slash, dot, dot, slash] t \<and> \<not> sublist [slash, dot, slash] t"

definition dots_end :: "byte list \<Rightarrow> bool" where
  "dots_end t \<longleftrightarrow> suffix [slash, dot] t \<or> suffix [slash, dot, dot] t"

definition safe_path :: "byte list \<Rightarrow> bool" where
  "safe_path t \<longleftrightarrow> \<not> sublist [slash, dot, dot, slash] t \<and> \<not> suffix [slash, dot, dot] t"

lemma suffix_snoc_iff: "suffix (w @ [b]) (t @ [c]) \<longleftrightarrow> b = c \<and> suffix w t"
  by auto

lemma clean_snoc: "clean (t @ [c]) \<longleftrightarrow> clean t \<and> (c = slash \<longrightarrow> \<not> dots_end t)"
  using suffix_snoc_iff [of "[slash, dot, dot]" slash t c] suffix_snoc_iff [of "[slash, dot]" slash t c]
  by (auto simp: clean_def dots_end_def sublist_snoc)

lemma dots_end_snoc: "dots_end (t @ [c]) \<longleftrightarrow> c = dot \<and> (suffix [slash] t \<or> suffix [slash, dot] t)"
  using suffix_snoc_iff [of "[slash]" dot t c] suffix_snoc_iff [of "[slash, dot]" dot t c]
  by (auto simp: dots_end_def)

lemma clean_prefix: "clean (t @ u) \<Longrightarrow> clean t"
  by (auto simp: clean_def sublist_append)

lemma clean_before_slash: "clean (t @ slash # u) \<Longrightarrow> \<not> dots_end t"
  using clean_prefix [of "t @ [slash]" u] by (simp add: clean_snoc)

lemma clean_Nil [simp]: "clean []" "\<not> dots_end []"
  by (auto simp: clean_def dots_end_def)

lemma safe_clean: "clean t \<Longrightarrow> \<not> suffix [slash, dot, dot] t \<Longrightarrow> safe_path t"
  by (simp add: clean_def safe_path_def)

subsection \<open>The text that is being stored\<close>

definition stored_from :: "nat \<Rightarrow> hp \<Rightarrow> byte list" where
  "stored_from p0 hp = take (ah_pos hp - p0) (drop p0 (ah_data hp))"

abbreviation cur_frag :: "hp \<Rightarrow> fragment" where
  "cur_frag hp \<equiv> ah_frags hp ! ah_nfrag hp"

definition issued :: "byte \<Rightarrow> hp \<Rightarrow> hp" where
  "issued c hp = hp\<lparr>ah_data := (ah_data hp)[ah_pos hp := c], ah_pos := ah_pos hp + 1,
     ah_frags := (ah_frags hp)[ah_nfrag hp := inc_len (cur_frag hp)]\<rparr>"

text \<open>
  The parser in the path of a request URI: every byte stored counts, the limit of the value is the
  whole table, and a fragment that is not the first follows a separator.
\<close>

definition uri_core :: "hp_env \<Rightarrow> nat \<Rightarrow> hp \<Rightarrow> bool" where
  "uri_core env p0 hp \<longleftrightarrow> open_inv env hp \<and> current_token_limit hp = max_http_header_data env \<and>
     parser_state hp \<in> set methods \<and> ah_frag_index hp ! WSI_TOKEN_HTTP_URI_ARGS = 0 \<and>
     p0 \<le> f_offset (cur_frag hp) \<and> ah_pos hp = f_offset (cur_frag hp) + f_len (cur_frag hp) \<and>
     (p0 < f_offset (cur_frag hp) \<longrightarrow> ah_data hp ! (f_offset (cur_frag hp) - 1) \<in> {0x26, 0x3b})"

definition uri_good :: "hp_env \<Rightarrow> nat \<Rightarrow> hp \<Rightarrow> bool" where
  "uri_good env p0 hp \<longleftrightarrow> uri_core env p0 hp \<and> 0 \<notin> set (stored_from p0 hp) \<and> clean (stored_from p0 hp) \<and>
     \<not> dots_end (stored_from p0 hp) \<and> (suffix [slash] (stored_from p0 hp) \<longrightarrow> ups hp \<noteq> URIPS_IDLE)"

lemma core_bounds:
  "uri_core env p0 hp \<Longrightarrow> ah_nfrag hp < length (ah_frags hp) \<and> length (ah_frags hp) = 172 \<and>
     length (ah_data hp) = max_http_header_data env \<and> length (ah_data hp) < 65536 \<and>
     ah_pos hp \<le> length (ah_data hp) \<and> length (ah_frag_index hp) = 86 \<and> p0 \<le> ah_pos hp \<and> 0 < current_token_limit hp"
  by (auto simp: uri_core_def open_inv_def table_inv_def open_line_def)

lemma stored_issued:
  assumes "uri_core env p0 hp" and "ah_pos hp < length (ah_data hp)"
  shows "stored_from p0 (issued c hp) = stored_from p0 hp @ [c]"
proof -
  have "drop p0 ((ah_data hp)[ah_pos hp := c]) = (drop p0 (ah_data hp))[ah_pos hp - p0 := c]"
    using core_bounds [OF assms(1)] by (simp add: drop_update_swap)
  moreover have "ah_pos hp + 1 - p0 = Suc (ah_pos hp - p0)" using core_bounds [OF assms(1)] by auto
  moreover have "ah_pos hp - p0 < length (drop p0 (ah_data hp))" using core_bounds [OF assms(1)] assms(2) by auto
  ultimately show ?thesis
    by (simp add: stored_from_def issued_def take_Suc_conv_app_nth)
qed

lemma issue_core:
  assumes core: "uri_core env p0 hp" and "c \<noteq> 0"
  shows "issue_char env c hp = Some (-1, hp) \<or>
     issue_char env c hp = Some (0, issued c hp) \<and> uri_core env p0 (issued c hp) \<and>
     stored_from p0 (issued c hp) = stored_from p0 hp @ [c]"
proof (cases "ah_pos hp < max_http_header_data env")
  case False
  then have "ah_pos hp = max_http_header_data env" using core_bounds [OF core] by simp
  then show ?thesis by (simp add: issue_char_def lws_pos_in_bounds_def)
next
  case True
  have len: "f_len (cur_frag hp) < current_token_limit hp" using True core by (simp add: uri_core_def)
  have issue: "issue_char env c hp = Some (0, issued c hp)"
    using True len core_bounds [OF core] assms(2)
    by (simp add: issue_char_def lws_pos_in_bounds_def frag_at_def put_data_def set_frag_def issued_def)
  then have inv: "open_inv env (issued c hp)"
    using issue_char_open [of env hp c] core by (simp add: uri_core_def)
  have "f_len (cur_frag hp) + 1 < 65536" using len core core_bounds [OF core] by (simp add: uri_core_def)
  then have "uri_core env p0 (issued c hp)"
    using core inv core_bounds [OF core] True by (auto simp: uri_core_def issued_def nth_list_update)
  then show ?thesis using issue stored_issued [OF core] True core_bounds [OF core] by simp
qed

lemma issue_dot:
  assumes "uri_core env p0 hp"
  shows "issue_char env dot hp = Some (-1, hp) \<or>
     issue_char env dot hp = Some (0, issued dot hp) \<and> uri_core env p0 (issued dot hp) \<and>
     stored_from p0 (issued dot hp) = stored_from p0 hp @ [dot]"
  by (rule issue_core [OF assms]) simp

subsection \<open>Backing up\<close>

lemma uri_back_loop_stop:
  "uri_back_loop hp pos len = Some (pos', len') \<Longrightarrow> len' \<le> 1 \<or> ah_data hp ! pos' = slash"
proof (induction hp pos len rule: uri_back_loop.induct)
  case (1 hp pos len)
  then show ?case
    by (subst (asm) (2) uri_back_loop.simps)
      (auto simp: data_at_def split: if_splits)
qed

lemma stored_split:
  assumes "pos' \<le> ah_pos hp" "p0 \<le> pos'" and "ah_pos hp \<le> length (ah_data hp)" and "pos' < ah_pos hp"
  shows "stored_from p0 hp = take (pos' - p0) (drop p0 (ah_data hp)) @ ah_data hp ! pos' #
     take (ah_pos hp - Suc pos') (drop (Suc pos') (ah_data hp))"
proof -
  have "ah_pos hp - p0 = (pos' - p0) + Suc (ah_pos hp - Suc pos')" using assms by simp
  then have "stored_from p0 hp = take (pos' - p0) (drop p0 (ah_data hp)) @ take (Suc (ah_pos hp - Suc pos')) (drop pos' (ah_data hp))"
    unfolding stored_from_def by (simp only: take_add) (use assms in simp)
  moreover have "drop pos' (ah_data hp) = ah_data hp ! pos' # drop (Suc pos') (ah_data hp)"
    using assms by (simp add: Cons_nth_drop_Suc)
  ultimately show ?thesis by simp
qed

lemma dots_end_after_sep: "s \<in> {0x26, 0x3b} \<Longrightarrow> \<not> dots_end (w @ [s, x])"
  using dots_end_snoc [of "w @ [s]" x] by auto

lemma dots_end_single: "\<not> dots_end [x]"
  using dots_end_snoc [of "[]" x] by auto

lemma uri_back_up_good:
  assumes good: "uri_good env p0 hp"
  shows "returns (uri_back_up hp) (\<lambda>hp'. uri_core env p0 hp' \<and> keeps hp hp' \<and> 0 \<notin> set (stored_from p0 hp') \<and>
     clean (stored_from p0 hp') \<and> \<not> dots_end (stored_from p0 hp'))"
proof -
  let ?f = "cur_frag hp" and ?t = "stored_from p0 hp"
  have core: "uri_core env p0 hp" and t: "0 \<notin> set ?t" "clean ?t" "\<not> dots_end ?t"
    using good by (simp_all add: uri_good_def)
  note bounds = core_bounds [OF core]
  have pos: "ah_pos hp = f_offset ?f + f_len ?f" "p0 \<le> f_offset ?f" using core by (simp_all add: uri_core_def)
  show ?thesis
  proof (cases "2 < f_len ?f")
    case False
    then show ?thesis using core t bounds by (simp add: uri_back_up_def frag_at_def)
  next
    case True
    have "returns (uri_back_loop hp (ah_pos hp - 1) (f_len ?f - 1))
       (\<lambda>(pos', len'). len' < f_len ?f - 1 \<and> pos' + (f_len ?f - 1) = ah_pos hp - 1 + len')"
      using True bounds pos by (intro uri_back_loop_returns) auto
    then obtain pos' len' where loop: "uri_back_loop hp (ah_pos hp - 1) (f_len ?f - 1) = Some (pos', len')"
      and len: "len' < f_len ?f - 1" "pos' + (f_len ?f - 1) = ah_pos hp - 1 + len'"
      by (auto simp: returns_def)
    have pos': "pos' = f_offset ?f + len'" "pos' < ah_pos hp" using len True pos by simp_all
    let ?hp = "hp\<lparr>ah_pos := pos', ah_frags := (ah_frags hp)[ah_nfrag hp := ?f\<lparr>f_len := len'\<rparr>]\<rparr>"
    have result: "uri_back_up hp = Some ?hp"
      using True loop bounds pos by (simp add: uri_back_up_def frag_at_def set_frag_def assert_opt_def)
    have inv: "open_inv env ?hp \<and> keeps hp ?hp"
      using uri_back_up_open [of env hp] core result by (simp add: uri_core_def)
    have core': "uri_core env p0 ?hp"
      using core inv bounds pos' by (simp add: uri_core_def)
    have parts: "?t = stored_from p0 ?hp @ ah_data hp ! pos' # take (ah_pos hp - Suc pos') (drop (Suc pos') (ah_data hp))"
      using stored_split [of pos' hp p0] pos pos' bounds by (simp add: stored_from_def)
    have "\<not> dots_end (stored_from p0 ?hp)"
      using uri_back_loop_stop [OF loop]
    proof
      assume "ah_data hp ! pos' = slash"
      then show ?thesis using parts t(2) clean_before_slash by metis
    next
      assume len1: "len' \<le> 1"
      show ?thesis
      proof (cases "pos' - p0 \<le> 1")
        case True
        then have "length (stored_from p0 ?hp) \<le> 1" by (simp add: stored_from_def)
        then show ?thesis
          by (cases "stored_from p0 ?hp"; cases "tl (stored_from p0 ?hp)") (auto simp: dots_end_single)
      next
        case False
        then have off: "p0 < f_offset ?f" using pos'(1) len1 by simp
        have sep: "ah_data hp ! (f_offset ?f - 1) \<in> {0x26, 0x3b}" using core off by (simp add: uri_core_def)
        let ?d = "drop p0 (ah_data hp)" and ?n = "f_offset ?f - 1 - p0"
        have bound: "Suc ?n < length ?d" "?d ! ?n = ah_data hp ! (f_offset ?f - 1)" using off pos' bounds by auto
        have "pos' - p0 = Suc ?n + len'" using off pos' by simp
        then have "stored_from p0 ?hp = (if len' = 0 then take ?n ?d @ [?d ! ?n] else take ?n ?d @ [?d ! ?n, ?d ! Suc ?n])"
          using len1 bound(1) by (cases len') (simp_all add: stored_from_def take_Suc_conv_app_nth)
        then show ?thesis using sep bound(2) dots_end_after_sep by (auto simp: dots_end_snoc)
      qed
    qed
    then show ?thesis using result core' inv t parts clean_prefix by simp
  qed
qed

subsection \<open>One byte of the path\<close>

text \<open>A state in which the byte \<open>c\<close> may be stored.\<close>

definition ready :: "hp_env \<Rightarrow> nat \<Rightarrow> byte \<Rightarrow> hp \<Rightarrow> bool" where
  "ready env p0 c hp \<longleftrightarrow> uri_core env p0 hp \<and> 0 \<notin> set (stored_from p0 hp) \<and> c \<noteq> 0 \<and>
     clean (stored_from p0 hp @ [c]) \<and> \<not> dots_end (stored_from p0 hp @ [c]) \<and>
     (c = slash \<longrightarrow> ups hp \<noteq> URIPS_IDLE) \<and> (c = qmark \<longrightarrow> \<not> suffix [slash, dot, dot] (stored_from p0 hp))"

definition path_step :: "hp_env \<Rightarrow> nat \<Rightarrow> uri_step \<Rightarrow> bool" where
  "path_step env p0 u \<longleftrightarrow>
     (case u of
        U_char c enc hp \<Rightarrow> ready env p0 c hp
      | U_swallow hp \<Rightarrow> uri_good env p0 hp
      | U_excessive hp \<Rightarrow> ah_nfrag hp = length (ah_frags hp)
      | _ \<Rightarrow> True)"

lemma path_step_simps [simp]:
  "path_step env p0 (U_char c enc hp) = ready env p0 c hp"
  "path_step env p0 (U_swallow hp) = uri_good env p0 hp"
  "path_step env p0 (U_excessive hp) \<longleftrightarrow> ah_nfrag hp = length (ah_frags hp)"
  "path_step env p0 (U_fail hp)" "path_step env p0 (U_forbid hp)"
  by (simp_all add: path_step_def)

lemma core_fields [simp]:
  "uri_core env p0 (hp\<lparr>ups := a\<rparr>) = uri_core env p0 hp"
  "uri_core env p0 (hp\<lparr>ues := e\<rparr>) = uri_core env p0 hp"
  "uri_core env p0 (hp\<lparr>esc_stash := x\<rparr>) = uri_core env p0 hp"
  "uri_core env p0 (hp\<lparr>post_literal_equal := q\<rparr>) = uri_core env p0 hp"
  by (simp_all add: uri_core_def)

lemma stored_fields [simp]:
  "stored_from p0 (hp\<lparr>ups := a\<rparr>) = stored_from p0 hp"
  "stored_from p0 (hp\<lparr>ues := e\<rparr>) = stored_from p0 hp"
  "stored_from p0 (hp\<lparr>esc_stash := x\<rparr>) = stored_from p0 hp"
  "stored_from p0 (hp\<lparr>post_literal_equal := q\<rparr>) = stored_from p0 hp"
  by (simp_all add: stored_from_def)

lemma good_fields [simp]:
  "uri_good env p0 (hp\<lparr>ues := e\<rparr>) = uri_good env p0 hp"
  "uri_good env p0 (hp\<lparr>esc_stash := x\<rparr>) = uri_good env p0 hp"
  by (simp_all add: uri_good_def)

lemma next_arg_good:
  assumes core: "uri_core env p0 hp" and sep: "c = 0x26 \<or> c = 0x3b" and pos: "0 < f_len (cur_frag hp)"
    and parts: "stored_from p0 hp = t @ [c]" "0 \<notin> set t" "clean t" "\<not> dots_end t"
  shows "returns (uri_next_arg hp) (path_step env p0)"
proof -
  have inv: "open_inv env hp" using core by (simp add: uri_core_def)
  note bounds = core_bounds [OF core]
  show ?thesis
  proof (cases "Suc (ah_nfrag hp) < 172")
    case False
    then show ?thesis using bounds by (simp add: uri_next_arg_def)
  next
    case True
    let ?hp = "hp\<lparr>ah_nfrag := Suc (ah_nfrag hp), post_literal_equal := False, ah_frags := (ah_frags hp)[ah_nfrag hp :=
      (dec_len (cur_frag hp))\<lparr>f_nfrag := Suc (ah_nfrag hp)\<rparr>, Suc (ah_nfrag hp) := fresh hp]\<rparr>"
    have result: "uri_next_arg hp = Some (U_swallow ?hp)"
      using True bounds by (simp add: uri_next_arg_def new_frag_def frag_at_def set_frag_def fresh_def)
    have same: "stored_from p0 ?hp = t @ [c]" using parts(1) by (simp add: stored_from_def)
    have off: "p0 < ah_pos hp" using core pos by (simp add: uri_core_def)
    have "stored_from p0 hp = take (ah_pos hp - 1 - p0) (drop p0 (ah_data hp)) @ [ah_data hp ! (ah_pos hp - 1)]"
      using stored_split [of "ah_pos hp - 1" hp p0] off bounds by simp
    then have "ah_data hp ! (ah_pos hp - 1) = c" using parts(1) by simp
    then have "uri_core env p0 ?hp"
      using core uri_next_arg_ok [OF inv pos] result True bounds sep by (auto simp: uri_core_def)
    then show ?thesis
      using result same parts sep by (auto simp: uri_good_def clean_snoc dots_end_snoc)
  qed
qed

lemma uri_idle_good:
  assumes good: "uri_good env p0 hp" and idle: "ups hp = URIPS_IDLE" and c: "c \<noteq> 0"
  shows "returns (uri_idle env c enc hp) (path_step env p0)"
proof -
  let ?t = "stored_from p0 hp"
  have core: "uri_core env p0 hp" and t: "0 \<notin> set ?t" "clean ?t" "\<not> dots_end ?t" "\<not> suffix [slash] ?t"
    using good idle by (auto simp: uri_good_def)
  note bounds = core_bounds [OF core]
  have ready: "ready env p0 b hp'"
    if "b \<noteq> 0" "uri_core env p0 hp'" "stored_from p0 hp' = ?t" "b = slash \<longrightarrow> ups hp' \<noteq> URIPS_IDLE" for b hp'
    using that t by (auto simp: ready_def clean_snoc dots_end_snoc) (auto simp: dots_end_def)
  show ?thesis
  proof (cases "(c = 0x26 \<or> c = 0x3b) \<and> \<not> enc")
    case True
    from issue_core [OF core c] show ?thesis
    proof
      assume "issue_char env c hp = Some (-1, hp)"
      then show ?thesis using True by (auto simp: uri_idle_def)
    next
      assume issued: "issue_char env c hp = Some (0, issued c hp) \<and> uri_core env p0 (issued c hp) \<and>
        stored_from p0 (issued c hp) = ?t @ [c]"
      have "f_len (cur_frag (issued c hp)) \<noteq> 0"
        using issued core bounds by (auto simp: uri_core_def issued_def)
      then have "returns (uri_next_arg (issued c hp)) (path_step env p0)"
        using issued True t by (intro next_arg_good [of env p0 "issued c hp" c ?t]) auto
      then show ?thesis using True issued by (auto simp: uri_idle_def)
    qed
  next
    case False
    have args: "index_at hp WSI_TOKEN_HTTP_URI_ARGS = Some 0" using core bounds by (simp add: index_at_def uri_core_def)
    show ?thesis
      using False c args core by (auto simp: uri_idle_def Let_def intro!: ready)
  qed
qed

lemma snoc_suffixes:
  "suffix [slash, dot, dot] (t @ [b]) \<longleftrightarrow> b = dot \<and> suffix [slash, dot] t"
  "suffix [slash, dot] (t @ [b]) \<longleftrightarrow> b = dot \<and> suffix [slash] t"
  "suffix [slash] (t @ [b]) \<longleftrightarrow> b = slash"
  using suffix_snoc_iff [of "[slash, dot]" dot t b] suffix_snoc_iff [of "[slash]" dot t b]
    suffix_snoc_iff [of "[]" slash t b] by auto

lemma clean_after_dot:
  assumes "clean t" "\<not> dots_end t" and "c \<noteq> slash" "c \<noteq> dot"
  shows "clean (t @ [dot, c])" and "\<not> dots_end (t @ [dot, c])"
  using assms clean_snoc [of "t @ [dot]" c] dots_end_snoc [of "t @ [dot]" c] by (simp_all add: clean_snoc)

lemma clean_after_dots:
  assumes "clean t" "\<not> dots_end t" and "c \<noteq> slash"
  shows "clean (t @ [dot, dot, c])" and "\<not> dots_end (t @ [dot, dot, c])"
proof -
  have two: "clean (t @ [dot, dot])" using assms clean_snoc [of "t @ [dot]" dot] by (simp add: clean_snoc)
  show "clean (t @ [dot, dot, c])" using two assms(3) clean_snoc [of "t @ [dot, dot]" c] by simp
  show "\<not> dots_end (t @ [dot, dot, c])"
    using dots_end_snoc [of "t @ [dot, dot]" c] snoc_suffixes(2,3) [of "t @ [dot]" dot] snoc_suffixes(3) [of t dot] by simp
qed

lemma uri_path_good:
  assumes good: "uri_good env p0 hp" and c: "c \<noteq> 0"
  shows "returns (uri_path env c enc hp) (path_step env p0)"
proof -
  let ?t = "stored_from p0 hp"
  have core: "uri_core env p0 hp" and t: "0 \<notin> set ?t" "clean ?t" "\<not> dots_end ?t" "suffix [slash] ?t \<longrightarrow> ups hp \<noteq> URIPS_IDLE"
    using good by (auto simp: uri_good_def)
  have ends: "\<not> suffix [slash, dot] ?t" "\<not> suffix [slash, dot, dot] ?t" using t(3) by (simp_all add: dots_end_def)
  show ?thesis
  proof (cases "ups hp")
    case URIPS_IDLE
    then show ?thesis using uri_idle_good [OF good _ c] by (simp add: uri_path_def)
  next
    case URIPS_SEEN_SLASH
    then show ?thesis
      using good core t c ends by (auto simp: uri_path_def uri_good_def ready_def clean_snoc dots_end_snoc)
  next
    case URIPS_SEEN_SLASH_DOT
    have core': "uri_core env p0 (hp\<lparr>ups := URIPS_IDLE\<rparr>)" using core by simp
    from issue_dot [OF this] show ?thesis
    proof (elim disjE conjE)
      assume "issue_char env dot (hp\<lparr>ups := URIPS_IDLE\<rparr>) = Some (0, issued dot (hp\<lparr>ups := URIPS_IDLE\<rparr>))"
        "uri_core env p0 (issued dot (hp\<lparr>ups := URIPS_IDLE\<rparr>))"
        "stored_from p0 (issued dot (hp\<lparr>ups := URIPS_IDLE\<rparr>)) = stored_from p0 (hp\<lparr>ups := URIPS_IDLE\<rparr>) @ [dot]"
      then show ?thesis
        using good URIPS_SEEN_SLASH_DOT t c ends clean_after_dot [OF t(2,3)]
        by (auto simp: uri_path_def uri_good_def ready_def snoc_suffixes)
    qed (use good URIPS_SEEN_SLASH_DOT in \<open>auto simp: uri_path_def uri_good_def\<close>)
  next
    case URIPS_SEEN_SLASH_DOT_DOT
    show ?thesis
    proof (cases "c = slash \<or> c = qmark")
      case True
      obtain hp' where up: "uri_back_up hp = Some hp'" "uri_core env p0 hp'" "0 \<notin> set (stored_from p0 hp')"
        "clean (stored_from p0 hp')" "\<not> dots_end (stored_from p0 hp')"
        using uri_back_up_good [OF good] by (auto simp: returns_def)
      then have "\<not> suffix [slash, dot, dot] (stored_from p0 hp')" by (simp add: dots_end_def)
      then show ?thesis
        using True up c URIPS_SEEN_SLASH_DOT_DOT core_bounds [OF up(2)]
        by (auto simp: uri_path_def frag_at_def uri_good_def ready_def clean_snoc dots_end_snoc)
    next
      case False
      from issue_dot [OF core] show ?thesis
      proof (elim disjE conjE)
        assume one: "issue_char env dot hp = Some (0, issued dot hp)" "uri_core env p0 (issued dot hp)"
          "stored_from p0 (issued dot hp) = ?t @ [dot]"
        from issue_dot [OF one(2)] show ?thesis
        proof (elim disjE conjE)
          assume "issue_char env dot (issued dot hp) = Some (0, issued dot (issued dot hp))"
            "uri_core env p0 (issued dot (issued dot hp))"
            "stored_from p0 (issued dot (issued dot hp)) = stored_from p0 (issued dot hp) @ [dot]"
          then show ?thesis
            using False URIPS_SEEN_SLASH_DOT_DOT t c one clean_after_dots [OF t(2,3)]
            by (auto simp: uri_path_def ready_def)
        qed (use one False URIPS_SEEN_SLASH_DOT_DOT in \<open>auto simp: uri_path_def\<close>)
      qed (use False URIPS_SEEN_SLASH_DOT_DOT in \<open>auto simp: uri_path_def\<close>)
    qed
  qed
qed

subsection \<open>The sealed path\<close>

definition path_done :: "nat \<Rightarrow> hp \<Rightarrow> bool" where
  "path_done p0 hp \<longleftrightarrow> (\<exists>u. safe_path u \<and> 0 \<notin> set u \<and> p0 + length u < ah_pos hp \<and> ah_pos hp \<le> length (ah_data hp) \<and>
     take (Suc (length u)) (drop p0 (ah_data hp)) = u @ [0])"

definition extends :: "hp \<Rightarrow> hp \<Rightarrow> bool" where
  "extends hp hp' \<longleftrightarrow> ah_pos hp \<le> ah_pos hp' \<and> ah_pos hp' \<le> length (ah_data hp') \<and>
     take (ah_pos hp) (ah_data hp') = take (ah_pos hp) (ah_data hp)"

lemma path_done_extends:
  assumes "path_done p0 hp" and "extends hp hp'"
  shows "path_done p0 hp'"
proof -
  obtain u where u: "safe_path u" "0 \<notin> set u" "p0 + length u < ah_pos hp"
    "take (Suc (length u)) (drop p0 (ah_data hp)) = u @ [0]"
    using assms(1) by (auto simp: path_done_def)
  have "take (Suc (length u)) (drop p0 d) = take (Suc (length u)) (drop p0 (take (ah_pos hp) d))" for d :: "byte list"
    using u(3) by (simp add: drop_take min_def)
  then have "take (Suc (length u)) (drop p0 (ah_data hp')) = u @ [0]"
    using u(4) assms(2) unfolding extends_def by metis
  then show ?thesis using u assms(2) by (auto simp: path_done_def extends_def intro!: exI [of _ u])
qed

lemma path_done_string:
  assumes "path_done p0 hp"
  shows "\<exists>u. c_string_at hp p0 = Some u \<and> safe_path u"
proof -
  obtain u where u: "safe_path u" "0 \<notin> set u" "take (Suc (length u)) (drop p0 (ah_data hp)) = u @ [0]"
    using assms by (auto simp: path_done_def)
  then have "drop p0 (ah_data hp) = u @ 0 # drop (Suc (length u)) (drop p0 (ah_data hp))"
    by (metis append_take_drop_id append.assoc append_Cons append_Nil)
  moreover have "c_str (u @ 0 # w) = u" for w using u(2) unfolding c_str_def by (subst takeWhile_append2) auto
  ultimately have "c_string_at hp p0 = Some u" unfolding c_string_at_def by (metis in_set_conv_decomp)
  then show ?thesis using u(1) by blast
qed

text \<open>The first fragment of the URI stays where it is, and a step leaves the escapes alone.\<close>

definition later :: "hp \<Rightarrow> hp \<Rightarrow> bool" where
  "later hp hp' \<longleftrightarrow> ah_nfrag hp \<le> ah_nfrag hp' \<and> length (ah_frags hp') = length (ah_frags hp) \<and>
     length (ah_frag_index hp') = length (ah_frag_index hp) \<and>
     (\<forall>i \<le> ah_nfrag hp. f_offset (ah_frags hp' ! i) = f_offset (ah_frags hp ! i)) \<and>
     (\<forall>m \<in> set methods. ah_frag_index hp' ! m = ah_frag_index hp ! m)"

definition grows :: "hp \<Rightarrow> hp \<Rightarrow> bool" where
  "grows hp hp' \<longleftrightarrow> ah_nfrag hp \<le> ah_nfrag hp' \<and> length (ah_frags hp') = length (ah_frags hp) \<and>
     length (ah_frag_index hp') = length (ah_frag_index hp) \<and>
     (\<forall>i \<le> ah_nfrag hp. f_offset (ah_frags hp' ! i) = f_offset (ah_frags hp ! i)) \<and>
     (\<forall>m \<in> set methods. ah_frag_index hp' ! m = ah_frag_index hp ! m) \<and>
     ues hp' = ues hp \<and> esc_stash hp' = esc_stash hp"

lemma grows_later: "grows hp hp' \<Longrightarrow> later hp hp'"
  by (simp add: grows_def later_def)

lemma later_trans: "later a b \<Longrightarrow> later b c \<Longrightarrow> later a c"
  by (auto simp: later_def)

lemma grows_refl [simp]: "grows hp hp"
  by (simp add: grows_def)

lemma grows_trans: "grows a b \<Longrightarrow> grows b c \<Longrightarrow> grows a c"
  by (auto simp: grows_def)

lemma extends_trans: "extends a b \<Longrightarrow> extends b c \<Longrightarrow> extends a c"
proof -
  assume ab: "extends a b" and bc: "extends b c"
  have "take (ah_pos a) (ah_data c) = take (ah_pos a) (take (ah_pos b) (ah_data c))"
    using ab by (simp add: extends_def min_def)
  also have "\<dots> = take (ah_pos a) (ah_data a)"
    using ab bc by (simp add: extends_def min_def)
  finally show "extends a c" using ab bc by (simp add: extends_def)
qed

lemma issue_char_cases:
  assumes "issue_char env c hp = Some (r, hp')"
  shows "hp' = hp \<or> ah_pos hp < length (ah_data hp) \<and> ah_nfrag hp < length (ah_frags hp) \<and>
     (\<exists>b. hp' = hp\<lparr>ah_data := (ah_data hp)[ah_pos hp := b], ah_pos := ah_pos hp + 1\<rparr> \<or> hp' = issued b hp)"
proof (cases "ah_pos hp < max_http_header_data env \<and> ah_pos hp < length (ah_data hp) \<and> ah_nfrag hp < length (ah_frags hp)")
  case True
  then have in_bounds: "ah_pos hp < max_http_header_data env" "ah_pos hp < length (ah_data hp)" "ah_nfrag hp < length (ah_frags hp)"
    by simp_all
  note issue = assms [unfolded issue_char_def lws_pos_in_bounds_def if_P [OF in_bounds(1)]]
  consider "f_len (cur_frag hp) < current_token_limit hp" "c = 0" | "f_len (cur_frag hp) < current_token_limit hp" "c \<noteq> 0"
    | "f_len (cur_frag hp) = current_token_limit hp" | "current_token_limit hp < f_len (cur_frag hp)" by linarith
  then have "hp' = hp \<or> (\<exists>b. hp' = hp\<lparr>ah_data := (ah_data hp)[ah_pos hp := b], ah_pos := ah_pos hp + 1\<rparr> \<or> hp' = issued b hp)"
    by cases (use issue in_bounds in \<open>auto simp: frag_at_def put_data_def set_frag_def issued_def\<close>)
  then show ?thesis using in_bounds by blast
next
  case False
  then show ?thesis
    using assms by (auto simp: issue_char_def lws_pos_in_bounds_def frag_at_def put_data_def split: if_splits)
qed

lemma issue_grows:
  assumes "ah_pos hp \<le> length (ah_data hp)" and "issue_char env c hp = Some (r, hp')"
  shows "grows hp hp' \<and> extends hp hp'"
  using issue_char_cases [OF assms(2)]
proof (elim disjE conjE exE)
  fix b
  assume "ah_pos hp < length (ah_data hp)" and len: "ah_nfrag hp < length (ah_frags hp)" and "hp' = issued b hp"
  moreover have "f_offset ((ah_frags hp)[ah_nfrag hp := inc_len (cur_frag hp)] ! i) = f_offset (ah_frags hp ! i)" for i
    using len by (cases "i = ah_nfrag hp") simp_all
  ultimately show ?thesis by (simp add: grows_def extends_def issued_def)
qed (use assms(1) in \<open>simp_all add: grows_def extends_def\<close>)

lemma back_grows: "uri_back_up hp = Some hp' \<Longrightarrow> grows hp hp'"
  by (auto simp: uri_back_up_def frag_at_def set_frag_def grows_def nth_list_update assert_opt_def bind_eq_Some_conv
      split: if_splits)

lemma next_arg_grows:
  "uri_next_arg hp = Some u \<Longrightarrow> (case u of U_swallow hp' \<Rightarrow> grows hp hp' \<and> ah_pos hp' = ah_pos hp \<and> ah_data hp' = ah_data hp \<and>
     ups hp' = ups hp \<and> ah_frag_index hp' = ah_frag_index hp | U_excessive hp' \<Rightarrow> True | _ \<Rightarrow> False)"
  by (auto simp: uri_next_arg_def new_frag_def frag_at_def set_frag_def grows_def nth_list_update split: if_splits)

lemma first_arg_grows:
  "uri_first_arg hp = Some u \<Longrightarrow> (case u of U_swallow hp' \<Rightarrow> grows hp hp' \<and> ah_pos hp' = ah_pos hp \<and> ah_data hp' = ah_data hp \<and>
     ups hp' = URIPS_IDLE \<and> ah_frag_index hp' ! WSI_TOKEN_HTTP_URI_ARGS \<noteq> 0 | U_excessive hp' \<Rightarrow> True | _ \<Rightarrow> False)"
  by (auto simp: uri_first_arg_def Let_def new_frag_def frag_at_def set_frag_def set_index_def grows_def nth_list_update methods_def
      split: if_splits)

lemma start_fragment_grows:
  assumes "parse_start_fragment env hp = Some (0, hp')" and "ah_pos hp \<le> length (ah_data hp)" and "parser_state hp \<notin> set methods"
  shows "grows hp hp' \<and> extends hp hp'"
proof -
  let ?hp = "hp\<lparr>ah_nfrag := Suc (ah_nfrag hp), ah_frags := (ah_frags hp)[Suc (ah_nfrag hp) :=
    \<lparr>f_offset = ah_pos hp, f_len = 0, f_nfrag = 0\<rparr>]\<rparr>"
  have new: "grows hp ?hp \<and> extends hp ?hp" using assms(2) by (simp add: grows_def extends_def)
  obtain n where n: "index_at ?hp (parser_state hp) = Some n" "Suc (ah_nfrag hp) < length (ah_frags hp)"
    using assms(1)
    by (auto simp: parse_start_fragment_def parse_excessive_def new_frag_def set_frag_def bind_eq_Some_conv split: if_splits)
  show ?thesis
  proof (cases "n = 0")
    case True
    have same: "(ah_frag_index hp)[parser_state hp := k] ! m = ah_frag_index hp ! m" if "m \<in> set methods" for m k
      using that assms(3) by (metis nth_list_update_neq)
    show ?thesis
      using assms(1,2) True n same by (auto simp: parse_start_fragment_def parse_excessive_def new_frag_def set_frag_def set_index_def
          grows_def extends_def split: if_splits)
  next
    case False
    then obtain e f r where e: "frag_at ?hp e = Some f" "issue_char env 32 (?hp\<lparr>ah_frags := (ah_frags ?hp)[e := f\<lparr>f_nfrag := Suc (ah_nfrag hp)\<rparr>]\<rparr>) = Some (r, hp')"
      using assms(1) n
      by (auto simp: parse_start_fragment_def parse_excessive_def new_frag_def set_frag_def bind_eq_Some_conv split: if_splits prod.splits)
    let ?hp2 = "?hp\<lparr>ah_frags := (ah_frags ?hp)[e := f\<lparr>f_nfrag := Suc (ah_nfrag hp)\<rparr>]\<rparr>"
    have "f_offset ((ah_frags ?hp)[e := f\<lparr>f_nfrag := Suc (ah_nfrag hp)\<rparr>] ! i) = f_offset (ah_frags ?hp ! i)" for i
      using e(1) by (cases "i = e") (auto simp: frag_at_def split: if_splits)
    then have "grows ?hp ?hp2 \<and> extends ?hp ?hp2" using assms(2) by (simp add: grows_def extends_def)
    moreover have "grows ?hp2 hp' \<and> extends ?hp2 hp'" using assms(2) by (intro issue_grows [OF _ e(2)]) simp
    ultimately show ?thesis using new grows_trans extends_trans by blast
  qed
qed

subsection \<open>Sealing the path\<close>

lemma seal_path:
  assumes core: "uri_core env p0 hp" and t: "0 \<notin> set (stored_from p0 hp)" "safe_path (stored_from p0 hp)"
    and issue: "issue_char env 0 hp = Some (r, hp')"
  shows "r = -1 \<or> r = 0 \<and> path_done p0 hp' \<and> open_inv env hp' \<and> closed_lines hp' \<and> keeps hp hp' \<and> grows hp hp'"
proof (cases "ah_pos hp < max_http_header_data env")
  case False
  then have "ah_pos hp = max_http_header_data env" using core_bounds [OF core] by simp
  then show ?thesis using issue by (simp add: issue_char_def lws_pos_in_bounds_def)
next
  case True
  note bounds = core_bounds [OF core]
  let ?hp = "hp\<lparr>ah_data := (ah_data hp)[ah_pos hp := 0], ah_pos := ah_pos hp + 1\<rparr>"
  have len: "f_len (cur_frag hp) < current_token_limit hp" using True core by (simp add: uri_core_def)
  have result: "r = 0" "hp' = ?hp"
    using issue True len bounds by (simp_all add: issue_char_def lws_pos_in_bounds_def frag_at_def put_data_def)
  have "Suc (ah_pos hp) - p0 = Suc (ah_pos hp - p0)" using bounds by auto
  moreover have "drop p0 ((ah_data hp)[ah_pos hp := 0]) = (drop p0 (ah_data hp))[ah_pos hp - p0 := 0]"
    using bounds by (simp add: drop_update_swap)
  moreover have "length (stored_from p0 hp) = ah_pos hp - p0" using bounds by (auto simp: stored_from_def)
  ultimately have "path_done p0 ?hp"
    using t bounds True unfolding path_done_def
    by (intro exI [of _ "stored_from p0 hp"]) (auto simp: take_Suc_conv_app_nth stored_from_def)
  moreover have "open_inv env hp' \<and> closed_lines hp' \<and> keeps hp hp'"
    using issue_char_open [of env hp 0] core issue result(1) by (simp add: uri_core_def)
  moreover have "grows hp hp'" using issue_grows [OF _ issue] bounds by simp
  ultimately show ?thesis using result by simp
qed

subsection \<open>The arguments\<close>

definition args_phase :: "hp_env \<Rightarrow> nat \<Rightarrow> hp \<Rightarrow> bool" where
  "args_phase env p0 hp \<longleftrightarrow> open_inv env hp \<and> parser_state hp \<in> set methods \<and>
     ah_frag_index hp ! WSI_TOKEN_HTTP_URI_ARGS \<noteq> 0 \<and> ups hp = URIPS_IDLE \<and> path_done p0 hp"

definition uri_state :: "hp_env \<Rightarrow> nat \<Rightarrow> hp \<Rightarrow> bool" where
  "uri_state env p0 hp \<longleftrightarrow> uri_good env p0 hp \<or> args_phase env p0 hp \<or>
     parser_state hp = WSI_TOKEN_SKIPPING \<and> path_done p0 hp"

lemma args_fields [simp]:
  "args_phase env p0 (hp\<lparr>ues := e\<rparr>) = args_phase env p0 hp"
  "args_phase env p0 (hp\<lparr>esc_stash := x\<rparr>) = args_phase env p0 hp"
  "args_phase env p0 (hp\<lparr>post_literal_equal := q\<rparr>) = args_phase env p0 hp"
  by (simp_all add: args_phase_def path_done_def)

lemma open_pos: "open_inv env hp \<Longrightarrow> ah_pos hp \<le> length (ah_data hp)"
  by (auto simp: open_inv_def table_inv_def)

lemma args_issue:
  assumes "args_phase env p0 hp" and "issue_char env c hp = Some (r, hp')"
  shows "r = -1 \<or> r \<in> {0, 1} \<and> args_phase env p0 hp' \<and> keeps hp hp' \<and> grows hp hp' \<and> (c \<noteq> 0 \<longrightarrow> 0 < f_len (cur_frag hp'))"
proof -
  have inv: "open_inv env hp" using assms(1) by (simp add: args_phase_def)
  have "grows hp hp'" "extends hp hp'" using issue_grows [OF open_pos [OF inv] assms(2)] by simp_all
  then show ?thesis
    using issue_char_open [OF inv, of c] assms path_done_extends
    by (auto simp: args_phase_def keeps_def)
qed

subsection \<open>One byte\<close>

lemma issue_grows_only: "issue_char env c hp = Some (r, hp') \<Longrightarrow> grows hp hp'"
  by (drule issue_char_cases) (auto simp: grows_def issued_def nth_list_update)

lemma grows_fields [simp]:
  "grows hp (hp'\<lparr>ups := a\<rparr>) = grows hp hp'" "grows hp (hp'\<lparr>post_literal_equal := q\<rparr>) = grows hp hp'"
  "grows hp (hp'\<lparr>parser_state := s\<rparr>) = grows hp hp'"
  "grows (hp\<lparr>ups := a\<rparr>) hp' = grows hp hp'" "grows (hp\<lparr>parser_state := s\<rparr>) hp' = grows hp hp'"
  by (simp_all add: grows_def)

definition uri_grows :: "hp \<Rightarrow> uri_step \<Rightarrow> bool" where
  "uri_grows hp u \<longleftrightarrow> (case u of U_char c enc hp' \<Rightarrow> grows hp hp' | U_swallow hp' \<Rightarrow> grows hp hp' | _ \<Rightarrow> True)"

lemma uri_grows_simps [simp]:
  "uri_grows hp (U_char c enc hp') = grows hp hp'" "uri_grows hp (U_swallow hp') = grows hp hp'"
  "uri_grows hp (U_fail hp')" "uri_grows hp (U_forbid hp')" "uri_grows hp (U_excessive hp')"
  by (simp_all add: uri_grows_def)

lemma idle_grows:
  assumes "uri_idle env c enc hp = Some u"
  shows "uri_grows hp u"
proof (cases "c \<noteq> 0 \<and> (c = 0x26 \<or> c = 0x3b) \<and> \<not> enc")
  case True
  obtain r hp1 where issue: "issue_char env c hp = Some (r, hp1)" "r < 0 \<longrightarrow> u = U_fail hp1" "\<not> r < 0 \<longrightarrow> uri_next_arg hp1 = Some u"
    using assms True by (auto simp: uri_idle_def bind_eq_Some_conv split: if_splits)
  show ?thesis
  proof (cases "r < 0")
    case False
    then show ?thesis
      using next_arg_grows [of hp1 u] issue issue_grows_only [OF issue(1)] grows_trans
      by (auto simp: uri_grows_def split: uri_step.splits)
  qed (use issue in simp)
next
  case False
  show ?thesis
  proof (cases "c = 0 \<or> index_at hp WSI_TOKEN_HTTP_URI_ARGS = None")
    case True
    then show ?thesis using assms False by (cases "c = 0") (auto simp: uri_idle_def)
  next
    case index: False
    then obtain args where "index_at hp WSI_TOKEN_HTTP_URI_ARGS = Some args" by auto
    moreover have "\<not> ((c = of_char CHR ''&'' \<or> c = of_char CHR '';'') \<and> \<not> enc)" "c \<noteq> 0" using False index by auto
    ultimately show ?thesis
      using assms unfolding uri_idle_def by (simp only: if_False option.inject Option.bind.simps, hypsubst) (simp only: uri_grows_simps grows_fields grows_refl if_distrib [of "grows hp"] if_cancel)
  qed
qed

lemma path_grows:
  assumes "uri_path env c enc hp = Some u"
  shows "uri_grows hp u"
proof (cases "ups hp")
  case URIPS_IDLE
  then show ?thesis using assms idle_grows by (simp add: uri_path_def)
next
  case URIPS_SEEN_SLASH
  then show ?thesis using assms by (auto simp: uri_path_def split: if_splits)
next
  case URIPS_SEEN_SLASH_DOT
  then show ?thesis
    using assms by (auto simp: uri_path_def bind_eq_Some_conv split: if_splits dest!: issue_grows_only)
next
  case URIPS_SEEN_SLASH_DOT_DOT
  then show ?thesis
    using assms by (auto simp: uri_path_def bind_eq_Some_conv split: if_splits dest!: issue_grows_only back_grows intro: grows_trans)
qed

lemma start_args_grows:
  assumes "uri_start_args env c enc hp = Some u"
  shows "uri_grows hp u"
proof (cases "\<exists>c enc. u = U_char c enc hp")
  case False
  show ?thesis
  proof (cases u)
    case (U_swallow hp')
    then obtain r hp1 where "issue_char env 0 hp = Some (r, hp1)" "uri_first_arg hp1 = Some u"
      using assms by (auto simp: uri_start_args_def bind_eq_Some_conv split: if_splits)
    then show ?thesis using first_arg_grows [of hp1 u] U_swallow by (auto dest!: issue_grows_only intro: grows_trans)
  next
    case (U_char c' enc' hp')
    then show ?thesis
      using assms first_arg_grows
      by (fastforce simp: uri_start_args_def bind_eq_Some_conv split: if_splits)
  qed simp_all
qed auto

lemma path_char: "uri_path env c enc hp = Some (U_char c' enc' hp') \<Longrightarrow> c' \<in> {c, 0x5f, 32}"
  using next_arg_grows
  by (fastforce simp: uri_path_def uri_idle_def Let_def bind_eq_Some_conv split: uri_path_states.splits if_splits)

lemma method_state:
  "parser_state hp \<in> set methods \<Longrightarrow> parser_state hp < 80 \<and> parser_state hp \<noteq> WSI_TOKEN_CHALLENGE"
  by (auto simp: methods_def)

lemma swallow_method: "parser_state hp \<in> set methods \<Longrightarrow> parse_swallow hp = Some (0, hp)"
  by (auto simp: parse_swallow_def dest: method_state)

lemma ups_issued [simp]: "ups (issued c hp) = ups hp"
  by (simp add: issued_def)

lemma eol_good:
  assumes ready: "ready env p0 c hp" and "c \<noteq> 0x0d" and eol: "parse_check_eol env c hp = Some (0, hp')"
  shows "uri_good env p0 hp' \<and> grows hp hp'"
proof -
  have core: "uri_core env p0 hp" and c: "c \<noteq> 0" using ready by (simp_all add: ready_def)
  have issue: "Option.bind (issue_char env c hp) (\<lambda>(n, hp). if n < 0 then Some (-1, hp)
      else parse_swallow (if 0 < n then hp\<lparr>parser_state := WSI_TOKEN_SKIPPING\<rparr> else hp)) = Some (0, hp')"
    using eol assms(2) by (simp add: parse_check_eol_def)
  from issue_core [OF core c] show ?thesis
  proof
    assume "issue_char env c hp = Some (-1, hp)"
    then show ?thesis using issue by simp
  next
    assume one: "issue_char env c hp = Some (0, issued c hp) \<and> uri_core env p0 (issued c hp) \<and>
      stored_from p0 (issued c hp) = stored_from p0 hp @ [c]"
    then have "hp' = issued c hp" using issue swallow_method [of "issued c hp"] by (simp add: uri_core_def)
    then show ?thesis
      using one ready issue_grows_only [of env c hp 0 "issued c hp"]
      by (auto simp: uri_good_def ready_def snoc_suffixes)
  qed
qed

lemma eol_args:
  assumes args: "args_phase env p0 hp" and "c \<noteq> 0x0d" and eol: "parse_check_eol env c hp = Some (0, hp')"
  shows "uri_state env p0 hp' \<and> grows hp hp'"
proof -
  have issue: "Option.bind (issue_char env c hp) (\<lambda>(n, hp). if n < 0 then Some (-1, hp)
      else parse_swallow (if 0 < n then hp\<lparr>parser_state := WSI_TOKEN_SKIPPING\<rparr> else hp)) = Some (0, hp')"
    using eol assms(2) by (simp add: parse_check_eol_def)
  then obtain n hp1 where one: "issue_char env c hp = Some (n, hp1)" "\<not> n < 0"
    "parse_swallow (if 0 < n then hp1\<lparr>parser_state := WSI_TOKEN_SKIPPING\<rparr> else hp1) = Some (0, hp')"
    by (auto simp: bind_eq_Some_conv split: if_splits)
  have next1: "n \<in> {0, 1} \<and> args_phase env p0 hp1 \<and> grows hp hp1" using args_issue [OF args one(1)] one(2) by auto
  then have "parser_state hp1 \<in> set methods" "path_done p0 hp1" by (simp_all add: args_phase_def)
  then show ?thesis
    using one(3) next1 swallow_method [of hp1] by (auto simp: uri_state_def parse_swallow_def path_done_def split: if_splits)
qed

lemma start_args_good:
  assumes ready: "ready env p0 c hp" and args: "uri_start_args env c enc hp = Some u"
  shows "u = U_char c enc hp \<or> (\<exists>hp'. u = U_swallow hp' \<and> args_phase env p0 hp') \<or> (\<exists>hp'. u \<in> {U_fail hp', U_forbid hp'}) \<or>
    (\<exists>hp'. u = U_excessive hp' \<and> ah_nfrag hp' = length (ah_frags hp'))"
proof (cases "c = qmark \<and> \<not> enc \<and> ues hp = URIES_IDLE")
  case False
  then show ?thesis using args by (auto simp: uri_start_args_def bind_eq_Some_conv split: if_splits)
next
  case True
  have core: "uri_core env p0 hp" and t: "0 \<notin> set (stored_from p0 hp)" "safe_path (stored_from p0 hp)"
    using ready True by (auto simp: ready_def intro!: safe_clean dest: clean_prefix)
  have "index_at hp WSI_TOKEN_HTTP_URI_ARGS = Some 0" using core core_bounds [OF core] by (simp add: index_at_def uri_core_def)
  then obtain r hp1 where issue: "issue_char env 0 hp = Some (r, hp1)" "r < 0 \<longrightarrow> u = U_fail hp1" "\<not> r < 0 \<longrightarrow> uri_first_arg hp1 = Some u"
    using args True by (auto simp: uri_start_args_def bind_eq_Some_conv split: if_splits)
  show ?thesis
  proof (cases "r = -1")
    case False
    then have sealed: "path_done p0 hp1" "open_inv env hp1" "closed_lines hp1" "keeps hp hp1" "uri_first_arg hp1 = Some u"
      using seal_path [OF core t issue(1)] issue(3) by auto
    have "uri_ok env (parser_state hp1) u" using uri_first_arg_ok [OF sealed(2,3)] sealed(5) by simp
    moreover have "parser_state hp1 \<in> set methods" using sealed(4) core by (simp add: keeps_def uri_core_def)
    ultimately show ?thesis
      using first_arg_grows [OF sealed(5)] sealed(1) by (cases u) (auto simp: args_phase_def path_done_def)
  qed (use issue in auto)
qed

lemma args_idle:
  assumes args: "args_phase env p0 hp" and u: "uri_path env c enc hp = Some u"
  shows "(\<exists>c' e hp'. u = U_char c' e hp' \<and> args_phase env p0 hp') \<or> (\<exists>hp'. u = U_swallow hp' \<and> args_phase env p0 hp') \<or>
    (\<exists>hp'. u \<in> {U_fail hp', U_forbid hp'}) \<or> (\<exists>hp'. u = U_excessive hp' \<and> ah_nfrag hp' = length (ah_frags hp'))"
proof -
  have inv: "open_inv env hp" and idle: "ups hp = URIPS_IDLE" using args by (simp_all add: args_phase_def)
  note bounds = open_inv_bounds [OF inv]
  have u': "uri_idle env c enc hp = Some u" using u idle by (simp add: uri_path_def)
  show ?thesis
  proof (cases "c \<noteq> 0 \<and> (c = 0x26 \<or> c = 0x3b) \<and> \<not> enc")
    case True
    obtain r hp1 where issue: "issue_char env c hp = Some (r, hp1)" "r < 0 \<longrightarrow> u = U_fail hp1" "\<not> r < 0 \<longrightarrow> uri_next_arg hp1 = Some u"
      using u' True by (auto simp: uri_idle_def bind_eq_Some_conv split: if_splits)
    show ?thesis
    proof (cases "r < 0")
      case False
      have one: "args_phase env p0 hp1" "0 < f_len (cur_frag hp1)"
        using args_issue [OF args issue(1)] False True by auto
      have "uri_next_arg hp1 = Some u" using issue False by simp
      moreover have "uri_ok env (parser_state hp1) u"
        using uri_next_arg_ok [of env hp1] one calculation by (simp add: args_phase_def)
      ultimately show ?thesis
        using next_arg_grows [of hp1 u] one by (cases u) (auto simp: args_phase_def path_done_def)
    qed (use issue in simp)
  next
    case False
    obtain a where a: "index_at hp WSI_TOKEN_HTTP_URI_ARGS = Some a" "a \<noteq> 0"
      using args bounds by (simp add: args_phase_def index_at_def)
    show ?thesis
    proof (cases "c = 0")
      case c: False
      have "\<not> ((c = of_char CHR ''&'' \<or> c = of_char CHR '';'') \<and> \<not> enc)" using False c by auto
      then have "case u of U_char c' enc' hp' \<Rightarrow> args_phase env p0 hp' | _ \<Rightarrow> False"
        using u' a c unfolding uri_idle_def
        by (simp only: if_False option.inject Option.bind.simps, hypsubst)
          (simp only: uri_step.case if_distrib [of "args_phase env p0"] args_fields if_cancel simp_thms if_False args)
      then show ?thesis by (cases u) auto
    qed (use u' in \<open>auto simp: uri_idle_def\<close>)
  qed
qed

lemma args_start: "args_phase env p0 hp \<Longrightarrow> uri_start_args env c enc hp = Some u \<Longrightarrow> u = U_char c enc hp"
  by (auto simp: uri_start_args_def args_phase_def index_at_def bind_eq_Some_conv split: if_splits)

lemma uri_then_cases:
  assumes "uri_then env u k = Some (0, hp')" and "\<And>h. u = U_excessive h \<Longrightarrow> ah_nfrag h = length (ah_frags h)"
  obtains h where "u = U_swallow h" "parse_swallow h = Some (0, hp')"
    | c e h where "u = U_char c e h" "k c e h = Some (0, hp')"
  using assms by (cases u) (auto simp: uri_then_def parse_forbid_def parse_excessive_def)

text \<open>The byte is not, and does not complete, a percent-encoded NUL or carriage return.\<close>

definition plain_next :: "byte \<Rightarrow> hp \<Rightarrow> bool" where
  "plain_next c hp \<longleftrightarrow> (case uri_unescape c hp of U_char c' e h \<Rightarrow> c' \<noteq> 0 \<and> c' \<noteq> 0x0d | _ \<Rightarrow> True)"

text \<open>How the escapes go on.\<close>

definition esc_next :: "byte \<Rightarrow> hp \<Rightarrow> hp \<Rightarrow> bool" where
  "esc_next c hp hp' \<longleftrightarrow>
     (ues hp' = URIES_SEEN_PERCENT \<longrightarrow> c = 0x25) \<and>
     (ues hp' = URIES_SEEN_PERCENT_H1 \<longrightarrow> ues hp = URIES_SEEN_PERCENT \<and> esc_stash hp' = c)"

lemma unescape_keeps:
  assumes "uri_unescape c hp = U_char c' e h \<or> uri_unescape c hp = U_swallow h"
  shows "uri_good env p0 h = uri_good env p0 hp" and "args_phase env p0 h = args_phase env p0 hp"
    and "later hp h" and "esc_next c hp h"
  using assms by (auto simp: uri_unescape_def later_def esc_next_def split: uri_esc_states.splits if_splits)

lemma unescape_room: "uri_unescape c hp \<noteq> U_excessive h"
  by (simp add: uri_unescape_def split: uri_esc_states.splits)

lemma esc_grows: "esc_next c hp h \<Longrightarrow> grows h hp' \<Longrightarrow> esc_next c hp hp'"
  by (simp add: esc_next_def grows_def)

lemma state_method: "uri_good env p0 hp \<or> args_phase env p0 hp \<Longrightarrow> parser_state hp \<in> set methods"
  by (auto simp: uri_good_def uri_core_def args_phase_def)

lemma swallow_state:
  assumes "uri_good env p0 h \<or> args_phase env p0 h" and "parse_swallow h = Some (0, hp')"
  shows "uri_state env p0 hp' \<and> hp' = h"
  using assms swallow_method [OF state_method [OF assms(1)]] by (auto simp: uri_state_def)

lemma uri_char_good:
  assumes good: "uri_good env p0 hp" and c: "c \<noteq> 0" "c \<noteq> 0x0d"
    and tail: "Option.bind (uri_path env c enc hp) (\<lambda>u. uri_then env u (\<lambda>c enc hp.
      Option.bind (uri_start_args env c enc hp) (\<lambda>u. uri_then env u (\<lambda>c enc hp. parse_check_eol env c hp)))) = Some (0, hp')"
  shows "uri_state env p0 hp' \<and> grows hp hp'"
proof -
  obtain u where u: "uri_path env c enc hp = Some u" "uri_then env u (\<lambda>c enc hp.
      Option.bind (uri_start_args env c enc hp) (\<lambda>u. uri_then env u (\<lambda>c enc hp. parse_check_eol env c hp))) = Some (0, hp')"
    using tail by (auto simp: bind_eq_Some_conv)
  have step: "path_step env p0 u" using uri_path_good [OF good c(1), of enc] u(1) by simp
  have grow: "uri_grows hp u" by (rule path_grows [OF u(1)])
  from u(2) show ?thesis
  proof (rule uri_then_cases)
    fix h
    assume "u = U_swallow h" "parse_swallow h = Some (0, hp')"
    then show ?thesis using step grow swallow_state [of env p0 h hp'] by auto
  next
    fix c' e h
    assume mid: "u = U_char c' e h" "Option.bind (uri_start_args env c' e h) (\<lambda>u. uri_then env u (\<lambda>c enc hp. parse_check_eol env c hp)) = Some (0, hp')"
    then obtain v where v: "uri_start_args env c' e h = Some v" "uri_then env v (\<lambda>c enc hp. parse_check_eol env c hp) = Some (0, hp')"
      by (auto simp: bind_eq_Some_conv)
    have ready: "ready env p0 c' h" and cr: "c' \<noteq> 0x0d" using step mid(1) path_char [of env c enc hp c' e h] u(1) c(2) by auto
    note args = start_args_good [OF ready v(1)]
    have grow': "grows hp h" "uri_grows h v" using grow mid(1) start_args_grows [OF v(1)] by simp_all
    from v(2) have "uri_state env p0 hp' \<and> grows h hp'"
    proof (rule uri_then_cases)
      fix h'
      assume "v = U_swallow h'" "parse_swallow h' = Some (0, hp')"
      then show ?thesis using args grow'(2) swallow_state [of env p0 h' hp'] by auto
    next
      fix c2 e2 h'
      assume "v = U_char c2 e2 h'" "parse_check_eol env c2 h' = Some (0, hp')"
      then show ?thesis using args eol_good [OF ready cr] by (auto simp: uri_state_def)
    qed (use args in auto)
    then show ?thesis using grow'(1) grows_trans by blast
  qed (use step in auto)
qed

lemma uri_char_args:
  assumes args: "args_phase env p0 hp" and c: "c \<noteq> 0x0d"
    and tail: "Option.bind (uri_path env c enc hp) (\<lambda>u. uri_then env u (\<lambda>c enc hp.
      Option.bind (uri_start_args env c enc hp) (\<lambda>u. uri_then env u (\<lambda>c enc hp. parse_check_eol env c hp)))) = Some (0, hp')"
  shows "uri_state env p0 hp' \<and> grows hp hp'"
proof -
  obtain u where u: "uri_path env c enc hp = Some u" "uri_then env u (\<lambda>c enc hp.
      Option.bind (uri_start_args env c enc hp) (\<lambda>u. uri_then env u (\<lambda>c enc hp. parse_check_eol env c hp))) = Some (0, hp')"
    using tail by (auto simp: bind_eq_Some_conv)
  note step = args_idle [OF args u(1)]
  have grow: "uri_grows hp u" by (rule path_grows [OF u(1)])
  from u(2) show ?thesis
  proof (rule uri_then_cases)
    fix h
    assume "u = U_swallow h" "parse_swallow h = Some (0, hp')"
    then show ?thesis using step grow swallow_state [of env p0 h hp'] by auto
  next
    fix c' e h
    assume mid: "u = U_char c' e h" "Option.bind (uri_start_args env c' e h) (\<lambda>u. uri_then env u (\<lambda>c enc hp. parse_check_eol env c hp)) = Some (0, hp')"
    then obtain v where v: "uri_start_args env c' e h = Some v" "uri_then env v (\<lambda>c enc hp. parse_check_eol env c hp) = Some (0, hp')"
      by (auto simp: bind_eq_Some_conv)
    have h: "args_phase env p0 h" and cr: "c' \<noteq> 0x0d" using step mid(1) path_char [of env c enc hp c' e h] u(1) c by auto
    then have "v = U_char c' e h" using args_start v(1) by blast
    then have "uri_state env p0 hp' \<and> grows h hp'" using v(2) eol_args [OF h cr, of hp'] by (simp add: uri_then_def)
    then show ?thesis using grow mid(1) grows_trans [of hp h hp'] by simp
  qed (use step in auto)
qed

lemma uri_char_state:
  assumes state: "uri_good env p0 hp \<or> args_phase env p0 hp" and plain: "plain_next c hp"
    and char: "parse_uri_char env c hp = Some (0, hp')"
  shows "uri_state env p0 hp' \<and> later hp hp' \<and> esc_next c hp hp'"
  using char unfolding parse_uri_char_def
proof (rule uri_then_cases)
  fix h
  assume h: "uri_unescape c hp = U_swallow h" "parse_swallow h = Some (0, hp')"
  then show ?thesis
    using state unescape_keeps [of c hp _ _ h] swallow_state [of env p0 h hp'] by blast
next
  fix c' e h
  assume step: "uri_unescape c hp = U_char c' e h"
    "Option.bind (uri_path env c' e h) (\<lambda>u. uri_then env u (\<lambda>c enc hp.
      Option.bind (uri_start_args env c enc hp) (\<lambda>u. uri_then env u (\<lambda>c enc hp. parse_check_eol env c hp)))) = Some (0, hp')"
  note keep = unescape_keeps [OF disjI1 [OF step(1)]]
  have "c' \<noteq> 0 \<and> c' \<noteq> 0x0d" using plain step(1) by (simp add: plain_next_def)
  then have "uri_state env p0 hp' \<and> grows h hp'"
    using state keep(1,2) [of env p0] uri_char_good [OF _ _ _ step(2), of p0] uri_char_args [OF _ _ step(2), of p0] by blast
  then show ?thesis using keep(3,4) later_trans grows_later esc_grows by blast
qed (simp add: unescape_room)

subsection \<open>The end of the URI\<close>

lemma path_done_state [simp]: "path_done p0 (hp\<lparr>parser_state := s\<rparr>) = path_done p0 hp"
  by (simp add: path_done_def)

lemma start_fragment_done:
  assumes "parse_start_fragment env (hp\<lparr>parser_state := WSI_TOKEN_HTTP\<rparr>) = Some (0, hp')" and "open_inv env hp" "path_done p0 hp"
  shows "path_done p0 hp' \<and> grows hp hp'"
  using start_fragment_grows [OF assms(1)] open_pos [OF assms(2)] assms(3) path_done_extends [of p0 "hp\<lparr>parser_state := WSI_TOKEN_HTTP\<rparr>"]
  by (simp add: methods_def)

lemma uri_end_parts:
  assumes "parse_uri_end env hp = Some (0, hp')"
  obtains r1 hp1 hp2 r3 hp3 where
    "(if f_len (cur_frag hp) = 0 then issue_char env slash hp else Some (0, hp)) = Some (r1, hp1)" "\<not> r1 < 0"
    "(if ups hp1 = URIPS_SEEN_SLASH_DOT_DOT then uri_back_up hp1 else Some hp1) = Some hp2"
    "issue_char env 0 hp2 = Some (r3, hp3)" "\<not> r3 < 0"
    "parse_start_fragment env (hp3\<lparr>parser_state := WSI_TOKEN_HTTP\<rparr>) = Some (0, hp')"
proof -
  obtain r1 hp1 where one: "(if f_len (cur_frag hp) = 0 then issue_char env slash hp else Some (0, hp)) = Some (r1, hp1)"
    "(if r1 < 0 then Some (-1, hp1) else Option.bind (if ups hp1 = URIPS_SEEN_SLASH_DOT_DOT then uri_back_up hp1 else Some hp1) (\<lambda>hp.
       Option.bind (issue_char env 0 hp) (\<lambda>(r, hp). if r < 0 then Some (-1, hp)
         else parse_start_fragment env (hp\<lparr>parser_state := WSI_TOKEN_HTTP\<rparr>)))) = Some (0, hp')"
    using assms by (auto simp: parse_uri_end_def frag_at_def bind_eq_Some_conv simp del: if_split split: if_split_asm)
  have "\<not> r1 < 0" using one(2) by (cases "r1 < 0") simp_all
  note two = one(2) [unfolded if_not_P [OF this]]
  then obtain hp2 where mid: "(if ups hp1 = URIPS_SEEN_SLASH_DOT_DOT then uri_back_up hp1 else Some hp1) = Some hp2"
    "Option.bind (issue_char env 0 hp2) (\<lambda>(r, hp). if r < 0 then Some (-1, hp)
         else parse_start_fragment env (hp\<lparr>parser_state := WSI_TOKEN_HTTP\<rparr>)) = Some (0, hp')"
    by (auto simp: bind_eq_Some_conv [of "if ups hp1 = URIPS_SEEN_SLASH_DOT_DOT then uri_back_up hp1 else Some hp1"] simp del: if_split)
  then obtain r3 hp3 where "issue_char env 0 hp2 = Some (r3, hp3)"
    "(if r3 < 0 then Some (-1, hp3) else parse_start_fragment env (hp3\<lparr>parser_state := WSI_TOKEN_HTTP\<rparr>)) = Some (0, hp')"
    by (auto simp: bind_eq_Some_conv)
  then show ?thesis using that [OF one(1) \<open>\<not> r1 < 0\<close> mid(1)] by (cases "r3 < 0") simp_all
qed

lemma uri_end_good:
  assumes good: "uri_good env p0 hp" and finish: "parse_uri_end env hp = Some (0, hp')"
  shows "path_done p0 hp' \<and> later hp hp'"
  using finish
proof (rule uri_end_parts)
  fix r1 hp1 hp2 r3 hp3
  assume one: "(if f_len (cur_frag hp) = 0 then issue_char env slash hp else Some (0, hp)) = Some (r1, hp1)" "\<not> r1 < 0"
    and two: "(if ups hp1 = URIPS_SEEN_SLASH_DOT_DOT then uri_back_up hp1 else Some hp1) = Some hp2"
    and three: "issue_char env 0 hp2 = Some (r3, hp3)" "\<not> r3 < 0"
    and four: "parse_start_fragment env (hp3\<lparr>parser_state := WSI_TOKEN_HTTP\<rparr>) = Some (0, hp')"
  let ?safe = "\<lambda>h. uri_core env p0 h \<and> 0 \<notin> set (stored_from p0 h) \<and> safe_path (stored_from p0 h)"
  have safe1: "?safe hp1 \<and> grows hp hp1 \<and> (ups hp1 = URIPS_SEEN_SLASH_DOT_DOT \<longrightarrow> uri_good env p0 hp1)"
  proof (cases "f_len (cur_frag hp) = 0")
    case False
    then show ?thesis using one good by (auto simp: uri_good_def dots_end_def intro!: safe_clean)
  next
    case True
    have core: "uri_core env p0 hp" and t: "0 \<notin> set (stored_from p0 hp)" "clean (stored_from p0 hp)" "\<not> dots_end (stored_from p0 hp)"
      using good by (simp_all add: uri_good_def)
    have slash: "issue_char env slash hp = Some (r1, hp1)" using one True by simp
    have "issue_char env slash hp = Some (-1, hp) \<or>
       issue_char env slash hp = Some (0, issued slash hp) \<and> uri_core env p0 (issued slash hp) \<and>
       stored_from p0 (issued slash hp) = stored_from p0 hp @ [slash]"
      by (rule issue_core [OF core]) simp
    then have hp1: "hp1 = issued slash hp" "uri_core env p0 hp1" "stored_from p0 hp1 = stored_from p0 hp @ [slash]"
      using slash one(2) by auto
    then show ?thesis
      using t issue_grows_only [OF slash]
      by (auto simp: uri_good_def clean_snoc dots_end_snoc snoc_suffixes intro!: safe_clean)
  qed
  have safe2: "?safe hp2 \<and> grows hp1 hp2"
  proof (cases "ups hp1 = URIPS_SEEN_SLASH_DOT_DOT")
    case True
    then show ?thesis
      using two safe1 uri_back_up_good [of env p0 hp1] back_grows [of hp1 hp2] by (auto simp: dots_end_def intro!: safe_clean)
  next
    case False
    then show ?thesis using two safe1 by simp
  qed
  then have "path_done p0 hp3" "open_inv env hp3" "grows hp2 hp3"
    using seal_path [of env p0 hp2, OF _ _ _ three(1)] three(2) by auto
  then show ?thesis
    using start_fragment_done [OF four] safe1 safe2 grows_trans grows_later by blast
qed

lemma uri_end_args:
  assumes args: "args_phase env p0 hp" and finish: "parse_uri_end env hp = Some (0, hp')"
  shows "path_done p0 hp' \<and> later hp hp'"
  using finish
proof (rule uri_end_parts)
  fix r1 hp1 hp2 r3 hp3
  assume one: "(if f_len (cur_frag hp) = 0 then issue_char env slash hp else Some (0, hp)) = Some (r1, hp1)" "\<not> r1 < 0"
    and two: "(if ups hp1 = URIPS_SEEN_SLASH_DOT_DOT then uri_back_up hp1 else Some hp1) = Some hp2"
    and three: "issue_char env 0 hp2 = Some (r3, hp3)" "\<not> r3 < 0"
    and four: "parse_start_fragment env (hp3\<lparr>parser_state := WSI_TOKEN_HTTP\<rparr>) = Some (0, hp')"
  have args1: "args_phase env p0 hp1 \<and> grows hp hp1"
    using one args args_issue [OF args, of slash r1 hp1] by (auto split: if_splits)
  then have "hp2 = hp1" using two by (simp add: args_phase_def)
  then have args3: "args_phase env p0 hp3 \<and> grows hp1 hp3" using args_issue [of env p0 hp1 0 r3 hp3] args1 three by auto
  then show ?thesis
    using start_fragment_done [OF four, of p0] args1 grows_trans grows_later unfolding args_phase_def by blast
qed

subsection \<open>Percent-encoded bytes\<close>

lemma esc_decode_low:
  "\<forall>a \<in> set [-1..15]. \<forall>b \<in> set [0..15].
     push_bit 4 (of_int a) OR (of_int b :: byte) \<in> {0, 0x0d} \<longrightarrow> a = 0 \<and> b \<in> {0, 13}"
  by code_simp

lemma char_to_hex_range: "char_to_hex c \<in> set [-1..15]"
proof -
  have "-1 \<le> char_to_hex c \<and> char_to_hex c \<le> 15" by (auto simp: char_to_hex_def word_le_def)
  then show ?thesis unfolding set_upto by simp
qed

lemma unat_byte_iff: "n < 256 \<Longrightarrow> unat (c :: byte) = n \<longleftrightarrow> c = of_nat n"
  by (auto simp: unat_of_nat)

lemma char_to_hex_digit:
  "char_to_hex c = 0 \<Longrightarrow> c = 0x30" "char_to_hex c = 13 \<Longrightarrow> c \<in> {0x64, 0x44}"
  using unat_byte_iff [of "0x30" c] unat_byte_iff [of "0x64" c] unat_byte_iff [of "0x44" c]
  by (auto simp: char_to_hex_def word_le_nat_alt split: if_splits)

lemma decoded_plain:
  assumes "0 \<le> char_to_hex c" and "push_bit 4 (of_int (char_to_hex s)) OR (of_int (char_to_hex c) :: byte) \<in> {0, 0x0d}"
  shows "s = 0x30 \<and> c \<in> {0x30, 0x64, 0x44}"
proof -
  have "char_to_hex c \<in> set [0..15]" using char_to_hex_range [of c] assms(1) unfolding set_upto by simp
  then have "char_to_hex s = 0 \<and> char_to_hex c \<in> {0, 13}" using esc_decode_low char_to_hex_range [of s] assms(2) by blast
  then show ?thesis using char_to_hex_digit [of s] char_to_hex_digit [of c] by auto
qed

text \<open>
  A URI as it can be sent: no NUL, no carriage return and no space, neither of the first two percent-encoded.
\<close>

definition uri_text :: "byte list \<Rightarrow> bool" where
  "uri_text w \<longleftrightarrow> set w \<inter> {0, 0x0d, 32} = {} \<and>
     \<not> sublist [0x25, 0x30, 0x30] w \<and> \<not> sublist [0x25, 0x30, 0x64] w \<and> \<not> sublist [0x25, 0x30, 0x44] w"

text \<open>The escape state tells the last bytes.\<close>

definition esc_hist :: "byte list \<Rightarrow> hp \<Rightarrow> bool" where
  "esc_hist w hp \<longleftrightarrow> (ues hp = URIES_SEEN_PERCENT \<longrightarrow> suffix [0x25] w) \<and>
     (ues hp = URIES_SEEN_PERCENT_H1 \<longrightarrow> suffix [0x25, esc_stash hp] w)"

lemma esc_hist_next: "esc_hist w hp \<Longrightarrow> esc_next c hp hp' \<Longrightarrow> esc_hist (w @ [c]) hp'"
  by (auto simp: esc_hist_def esc_next_def suffix_def)

lemma plain_text:
  assumes "esc_hist w hp" and "uri_text (w @ [c])"
  shows "plain_next c hp"
proof (cases "ues hp = URIES_SEEN_PERCENT_H1 \<and> 0 \<le> char_to_hex c")
  case True
  then have "suffix [0x25, esc_stash hp, c] (w @ [c])" using assms(1) by (auto simp: esc_hist_def suffix_def)
  then have "sublist [0x25, esc_stash hp, c] (w @ [c])" by (rule suffix_imp_sublist)
  then have "\<not> (esc_stash hp = 0x30 \<and> c \<in> {0x30, 0x64, 0x44})" using assms(2) by (auto simp: uri_text_def)
  then have "push_bit 4 (of_int (char_to_hex (esc_stash hp))) OR of_int (char_to_hex c) \<notin> {0, 0x0d :: byte}"
    using decoded_plain [of c "esc_stash hp"] True by blast
  then show ?thesis using True by (simp add: plain_next_def uri_unescape_def)
next
  case False
  then show ?thesis
    using assms(2) by (auto simp: plain_next_def uri_unescape_def uri_text_def split: uri_esc_states.splits)
qed

lemma uri_text_prefix: "uri_text (w @ v) \<Longrightarrow> uri_text w"
  by (auto simp: uri_text_def sublist_append)

subsection \<open>The request line\<close>

lemma state_skipping: "parser_state hp = WSI_TOKEN_SKIPPING \<Longrightarrow> parser_state hp \<notin> set methods"
  by (simp add: methods_def)

lemma parse_method:
  assumes "parser_state hp \<in> set methods" and "lws_parse env c hp = Some (0, hp')"
  shows "hp' = hp \<or> (if c = 32 then parse_uri_end env hp else parse_uri_char env c hp) = Some (0, hp')"
proof -
  have "parse_value env c hp = Some (0, hp')" using method_state [OF assms(1)] assms(2) by (simp add: lws_parse_def)
  then show ?thesis using assms(1) by (auto simp: parse_value_def bind_eq_Some_conv split: if_split_asm)
qed

lemma parse_method_char:
  assumes "parser_state hp \<in> set methods" and "lws_parse env c hp = Some (0, hp')" and "c \<noteq> 32"
  shows "parse_uri_char env c hp = Some (0, hp')"
proof -
  have "parse_value env c hp = Some (0, hp')" using method_state [OF assms(1)] assms(2) by (simp add: lws_parse_def)
  then show ?thesis using assms(1,3) by (auto simp: parse_value_def bind_eq_Some_conv split: if_split_asm)
qed

lemma uri_run:
  assumes "uri_state env p0 hp" and "parser_state hp \<noteq> WSI_TOKEN_SKIPPING \<longrightarrow> esc_hist w hp" and "uri_text (w @ cs)"
    and "parse_bytes env (cs @ [32]) hp = Some (0, hp', rest)" and "parser_state hp' \<notin> set methods"
  shows "path_done p0 hp' \<and> later hp hp'"
  using assms
proof (induction cs arbitrary: w hp)
  case Nil
  obtain h where h: "lws_parse env 32 hp = Some (0, h)" "hp' = h"
    using Nil.prems(4) by (auto simp: bind_eq_Some_conv split: if_split_asm)
  show ?case
  proof (cases "parser_state hp = WSI_TOKEN_SKIPPING")
    case True
    then have "path_done p0 hp" using Nil.prems(1) state_method state_skipping by (auto simp: uri_state_def)
    then show ?thesis using True h by (auto simp: lws_parse_def later_def)
  next
    case False
    then have live: "uri_good env p0 hp \<or> args_phase env p0 hp" using Nil.prems(1) by (auto simp: uri_state_def)
    then have "parse_uri_end env hp = Some (0, hp')"
      using parse_method [OF state_method [OF live] h(1)] h(2) Nil.prems(5) state_method [OF live] by auto
    then show ?thesis using live uri_end_good uri_end_args by blast
  qed
next
  case (Cons c cs)
  obtain h where h: "lws_parse env c hp = Some (0, h)"
    using Cons.prems(4) by (auto simp: bind_eq_Some_conv split: if_split_asm)
  have c: "c \<noteq> 32" "c \<noteq> 0x0d" using Cons.prems(3) by (auto simp: uri_text_def)
  have step: "uri_state env p0 h \<and> later hp h \<and> (parser_state h \<noteq> WSI_TOKEN_SKIPPING \<longrightarrow> esc_hist (w @ [c]) h)"
  proof (cases "parser_state hp = WSI_TOKEN_SKIPPING")
    case True
    then show ?thesis using h c Cons.prems(1) by (simp add: lws_parse_def later_def)
  next
    case False
    then have live: "uri_good env p0 hp \<or> args_phase env p0 hp" using Cons.prems(1) by (auto simp: uri_state_def)
    have hist: "esc_hist w hp" using False Cons.prems(2) by simp
    then have "plain_next c hp" using plain_text uri_text_prefix [of "w @ [c]" cs] Cons.prems(3) by simp
    then show ?thesis
      using uri_char_state [OF live _ parse_method_char [OF state_method [OF live] h c(1)]] esc_hist_next [OF hist] by blast
  qed
  have "parser_state h \<noteq> WSI_PARSING_COMPLETE"
    using step state_method [of env p0 h] method_state [of h] by (auto simp: uri_state_def methods_def)
  then have "parse_bytes env (cs @ [32]) h = Some (0, hp', rest)" using Cons.prems(4) h by simp
  then show ?case using Cons.IH [of h "w @ [c]"] step Cons.prems(3,5) later_trans by auto
qed

lemma opened_good:
  assumes "env_ok env" and "token_limits env = None" and "table_inv env hp" "closed_lines hp" and "t \<in> set methods"
    and "ah_frag_index hp ! t = 0" "ah_frag_index hp ! WSI_TOKEN_HTTP_URI_ARGS = 0" and "Suc (ah_nfrag hp) < 172"
  shows "uri_good env (ah_pos hp) (opened env t hp)"
proof -
  have t: "t < 80" "t \<noteq> WSI_TOKEN_CHALLENGE" "t \<noteq> WSI_TOKEN_SWORIGIN" "t \<noteq> WSI_TOKEN_HTTP_URI_ARGS"
    using assms(5) by (auto simp: methods_def)
  have "returns (parse_known_name env t hp) (parse_ok env)" by (rule parse_known_name_ok [OF assms(1,3,4) t(1)])
  then have "parse_inv env (opened env t hp)"
    using parse_known_opened [OF assms(1,3) t(1-3) assms(6,8)] by simp
  then have "open_inv env (opened env t hp)" using t by (auto simp: parse_inv_def open_inv_def opened_def)
  then show ?thesis
    using assms t by (auto simp: uri_good_def uri_core_def opened_def token_limit_def stored_from_def fresh_def table_inv_def)
qed

lemma known_name_room:
  assumes "parse_known_name env t hp = Some (0, hp')" and "table_inv env hp" and "t \<noteq> WSI_TOKEN_CHALLENGE"
  shows "Suc (ah_nfrag hp) < 172"
proof (rule ccontr)
  assume "\<not> Suc (ah_nfrag hp) < 172"
  then have "Suc (ah_nfrag hp) = length (ah_frags hp)" using assms(2) by (simp add: table_inv_def)
  then show False
    using assms(1,3) by (auto simp: parse_known_name_def parse_start_fragment_def parse_excessive_def bind_eq_Some_conv split: if_split_asm option.splits)
qed


text \<open>Requests on a fresh table of \<open>n\<close> bytes, to evaluate.\<close>

definition first_request :: "nat \<Rightarrow> hp" where
  "first_request n = start_headers (lws_header_table_reset (empty_hp n))"

lemma first_request_inv: "0 < n \<Longrightarrow> n < 65536 \<Longrightarrow> env_ok (plain_hp_env n) \<and> parse_inv (plain_hp_env n) (first_request n)"
  unfolding first_request_def by (simp add: plain_hp_env_def env_ok_def start_inv empty_hp_def)

lemma get_line:
  assumes "0 < n" "n < 65536" and "map to_lower name = header_names ! 0"
  shows "\<exists>i. parse_bytes (plain_hp_env n) (name @ w) (first_request n) =
     parse_bytes (plain_hp_env n) w (opened (plain_hp_env n) 0 ((first_request n)\<lparr>lextable_pos := i\<rparr>))"
proof -
  let ?env = "plain_hp_env n" and ?hp = "first_request n"
  note inv = first_request_inv [OF assms(1,2)]
  have table: "table_inv ?env (?hp\<lparr>lextable_pos := i\<rparr>)" for i using inv by (simp add: parse_inv_def)
  have known: "parse_known_name ?env 0 (?hp\<lparr>lextable_pos := i\<rparr>) = Some (0, opened ?env 0 (?hp\<lparr>lextable_pos := i\<rparr>))" for i
    by (rule parse_known_opened [OF conjunct1 [OF inv] table])
      (simp_all add: first_request_def start_headers_def lws_header_table_reset_def)
  have "lex_run 0 name = Some 0" using assms(3) by (simp add: lex_run_names)
  from parse_name_run [OF this lex_reach_start, of ?hp ?env w] show ?thesis
    unfolding known by (auto simp: first_request_def start_headers_def opened_def)
qed

lemma get_name: "map to_lower (bytes_of ''GeT '') = header_names ! 0"
  by code_simp

lemmas uri_eval = lws_parse_def parse_value_def parse_uri_char_def uri_then_def uri_unescape_def uri_path_def uri_idle_def
  uri_start_args_def parse_check_eol_def parse_swallow_def issue_char_def lws_pos_in_bounds_def frag_at_def index_at_def
  put_data_def set_frag_def set_index_def inc_len_def dec_len_def uri_next_arg_def parse_uri_end_def uri_back_up_def
  parse_start_fragment_def parse_excessive_def new_frag_def plain_hp_env_def opened_def first_request_def start_headers_def
  lws_header_table_reset_def empty_hp_def methods_def token_limit_def fresh_def no_frag_def nth_list_update bytes_of_def


subsection \<open>What the parser does not clean\<close>

text \<open>The clean-up of a URI depends on the space behind it. A request line that ends right behind the URI
  \<^verbatim>\<open>/..\<close>, an HTTP/0.9 request, is accepted, and the URI the file server is given is \<^verbatim>\<open>/..\<close>: the two dots are
  stored as they are sent when the carriage return arrives in place of the space.\<close>

lemma uri_cr_keeps_dots:
  "\<exists>hp'. parse_bytes (plain_hp_env 8) (bytes_of ''GeT '' @ bytes_of ''/..'' @ [0x0d, 0x0a]) (first_request 8) = Some (0, hp', []) \<and>
     parser_state hp' = WSI_TOKEN_NAME_PART \<and>
     lws_hdr_simple_ptr hp' 0 = Some (Some 0) \<and> c_string_at hp' 0 = Some (bytes_of ''/..'')"
proof -
  have "\<exists>hp'. parse_bytes (plain_hp_env 8) (bytes_of ''/..'' @ [0x0d, 0x0a]) (opened (plain_hp_env 8) 0 ((first_request 8)\<lparr>lextable_pos := i\<rparr>)) =
      Some (0, hp', []) \<and> parser_state hp' = WSI_TOKEN_NAME_PART \<and>
      ah_data hp' = (replicate 8 0)[0 := 0x2f, 1 := 0x2e, 2 := 0x2e, 3 := 0] \<and> lws_hdr_simple_ptr hp' 0 = Some (Some 0)" for i
    by (simp add: uri_eval lws_hdr_simple_ptr_def cong: if_cong) (simp add: numeral_eq_Suc)
  moreover have "c_string_at hp' 0 = Some (bytes_of ''/..'')"
    if "ah_data hp' = (replicate 8 0)[0 := 0x2f, 1 := 0x2e, 2 := 0x2e, 3 := 0]" for hp'
    unfolding c_string_at_def that by code_simp
  ultimately show ?thesis using get_line [OF _ _ get_name, of 8 "bytes_of ''/..'' @ [0x0d, 0x0a]"] by fastforce
qed


end
