(* ===== verification/Spec2Isabelle.thy ===== *)
theory Spec2Isabelle
  imports Hpack_Block Lejp_Parse Ws_Client Ws_Upgrade Ws_Close Poll_Table Ah_Pool Http_Uri
begin

text \<open>
  Verification of the libwebsockets copy under \<^verbatim>\<open>src/libwebsockets\<close>, the C part of JSCameraKit: the
  server that sends camera frames to JavaScript over WebSockets.

  \<^bold>\<open>The program.\<close> A connection (\<^verbatim>\<open>struct lws\<close>) is accepted into the poll table of a service thread
  (\<^verbatim>\<open>pollfd.c\<close>). Its first bytes are HTTP: \<^verbatim>\<open>lws_parse\<close> of \<^verbatim>\<open>parsers.c\<close> stores the header lines in a header
  table. An upgrade request is answered with the hash of its key (\<^verbatim>\<open>sha-1.c\<close>, \<^verbatim>\<open>base64-decode.c\<close>), and from
  then on the bytes are WebSocket frames, read by \<^verbatim>\<open>lws_rx_sm\<close> and written by \<^verbatim>\<open>lws_write\<close> (\<^verbatim>\<open>output.c\<close>).
  What the socket does not take is kept and flushed when the socket can be written again, by
  \<^verbatim>\<open>lws_handle_POLLOUT_event\<close> of \<^verbatim>\<open>service.c\<close>; \<^verbatim>\<open>lws_close_free_wsi\<close> ends the connection.

  \<^bold>\<open>The theories.\<close>
  \<^item> \<open>Lws_Prelude\<close>: bytes and words, C strings, checked computations (\<open>returns\<close>), and two contracts as
    locales: \<open>byte_machine\<close> (a state machine that eats a buffer byte by byte) and \<open>codec\<close>.
  \<^item> \<open>Ws_Conn\<close>: the record \<open>ws\<close> is \<^verbatim>\<open>struct lws\<close> with its \<^verbatim>\<open>u.ws\<close>; timeouts, flow control, poll events,
    extension dispatch. The record \<open>env\<close> holds what is outside of the library: the application's callback, the
    extensions, the socket, the clock, the random source, the allocator. Each is a function of the connection with
    its log, so that it may answer differently every time.
  \<^item> \<open>Ws_Tx\<close> (\<^verbatim>\<open>output.c\<close>): \<open>lws_write\<close>, \<open>lws_issue_raw\<close> with the truncated-send buffer. The locales
    \<open>poll_frame\<close> and \<open>conn_frame\<close> state what every operation of the connection keeps.
  \<^item> \<open>Ws_Rx\<close> (\<^verbatim>\<open>parsers.c\<close>, \<^verbatim>\<open>server.c\<close>): \<open>lws_rx_sm\<close> in every state, the spill of the receive buffer, the bulk
    payload path. \<open>app_frame\<close> adds to \<open>conn_frame\<close> what the application may do from its callback.
  \<^item> \<open>Ws_Frames\<close>: whole frames through the receiver: what a client writes is what the application is given.
  \<^item> \<open>Ws_Service\<close> (\<^verbatim>\<open>service.c\<close>): the writeable event and the order of what it sends.
  \<^item> \<open>Ws_Close\<close> (\<^verbatim>\<open>libwebsockets.c\<close>): the close function, stage by stage, and the timeout check.
  \<^item> \<open>Http_Lextable\<close> (\<^verbatim>\<open>lextable.h\<close>): the generated header name table byte by byte and its decoder.
  \<^item> \<open>Http_Parse\<close> (\<^verbatim>\<open>parsers.c\<close>): the header table (record \<open>hp\<close>), its accessors and \<open>lws_parse\<close>.
    \<open>None\<close> is an access outside of an array. \<open>Http_Table\<close> and \<open>Http_Parse_Inv\<close> hold the invariant of the table and
    prove that \<open>None\<close> does not happen; \<open>Http_Header\<close> is about one header line, \<open>Http_Uri\<close> about the URI.
  \<^item> \<open>Sha1\<close>, \<open>Base64\<close>, \<open>Utf8_Check\<close>: the three coders against FIPS 180, RFC 4648 and the Unicode encoding.
  \<^item> \<open>Poll_Table\<close> (\<^verbatim>\<open>pollfd.c\<close>): insertion and removal, as a refinement of a finite map.
  \<^item> \<open>Ah_Pool\<close> (\<^verbatim>\<open>parsers.c\<close>): the pool of header tables and the list of connections that wait for one, as a refinement
    of a queue with a bound.
  \<^item> \<open>Ws_Upgrade\<close> (\<^verbatim>\<open>server-handshake.c\<close>, \<^verbatim>\<open>server.c\<close>): the response to an upgrade request and the start of the
    receiver behind it. \<open>upgrade_frame\<close> states what the choice of the protocol and the extensions keep.
  \<^item> \<open>Ws_Client\<close> (\<^verbatim>\<open>client-parser.c\<close>, the loop of \<^verbatim>\<open>client.c\<close>): the receiver of a client, on the same connection.
  \<^item> \<open>Hpack_Huffman\<close> (\<^verbatim>\<open>huftable.h\<close>): the Huffman table against the code of RFC 7541; \<open>Hpack\<close> (\<^verbatim>\<open>hpack.c\<close>): the header decoder and
    encoder of HTTP/2, on the header table of \<open>Http_Parse\<close>; \<open>Hpack_Block\<close>: what becomes of a header field.
  \<^item> \<open>Lejp\<close> (\<^verbatim>\<open>lejp.c\<close>): the JSON stream parser; \<open>Lejp_Parse\<close> holds its properties. A character is looked at again in a
    state with a smaller rank, so the loop ends. \<open>None\<close> is an access outside of an array of the context.

  \<^bold>\<open>The properties.\<close> The bytes on the wire: a frame that is written is the frame of RFC 6455, partial sends neither
  lose, repeat nor reorder a byte, and a client's frame reaches the server's application as its payload. The receiver
  and the header parser stay inside of their buffers for every input. Control frames are answered, in the order the
  protocol asks for, and the close function tells the application once, sends nothing after the close frame, makes
  progress in every call and unlinks what it frees. The response to an upgrade is the one of RFC 6455 for the key of
  the request, and the receiver behind it satisfies the invariant of the receiver. A connection that waits for a header
  table gets one. What a server writes reaches the client's application, inside of the client's buffers. The URI given to the file server has no parent directory in it. An HTTP/2 header field, plain or Huffman
  coded, is stored as its value. Where
  the code does not do what it means to, the property states what it does (the kind is error), and the manifest has
  the finding.

  \<^bold>\<open>Fuel and bounds.\<close> Loops over a buffer are recursions on it. \<open>total_length_loop\<close> and \<open>chain_end\<close> follow a chain of
  fragments with the number of fragments as fuel; the invariant says that a chain only goes up, so the fuel is enough,
  and the bounds theorem proves that they return. \<open>ext_rounds\<close> limits how often an extension may ask to be called
  again; running into it is the fault \<open>Ext_loops\<close>, which no theorem assumes away. \<open>ext_list_loop\<close> reads a header of
  extensions with the length of its buffer and one more as fuel: each round eats a character. \<open>client_loop\<close> has a round
  for each byte and \<open>ext_rounds\<close> more. The size of the header data is
  below 65536, the range of the \<^verbatim>\<open>unsigned short\<close> lengths.

  \<^bold>\<open>The build.\<close> The configuration is the one of \<^verbatim>\<open>lws_config.h\<close>: no TLS, no CGI, no event library, extensions and
  HTTP/2 on; LP64 and little endian. WebSocket connections are not HTTP/2 streams. Logging is left out.

  \<^bold>\<open>Not modelled.\<close> TLS (not built), the frames and streams of HTTP/2 (\<^verbatim>\<open>http2.c\<close>; the header blocks they carry are modelled), permessage-deflate (a wrapper of zlib;
  the dispatch of extensions is modelled), context and vhost creation, the \<^verbatim>\<open>poll\<close> loop itself, sockets and name
  resolution, the serving of files (calls of the operating system and of the application), the response
  headers of \<^verbatim>\<open>header.c\<close>, the parser of extension options, the client's connection set-up, the standalone daemon's configuration, and the Swift, Objective-C and TypeScript parts, which are the
  application of the models.
\<close>

end
